(* ===== verification/CS_Prelude.thy ===== *)
theory CS_Prelude
  imports Main "HOL-Library.Word" "HOL-Library.Multiset"
begin

text \<open>
  Shared vocabulary of the development: the machine integer types of the C sources, the
  theorem collections the component theories feed, and the generic lemmas on lists, words and
  functions that several components use.

  C integers keep their width wherever the sources let them wrap: \<open>unsigned long long\<close>,
  \<open>size_t\<close>, \<open>uint64_t\<close> and pointers are \<open>u64\<close>, \<open>uint32_t\<close> and
  \<open>unsigned int\<close> are \<open>u32\<close>, bytes are \<open>u8\<close>. Signed \<open>int\<close> values are
  \<open>int\<close>: the sources keep them small, and each component says where that is relied on.
\<close>

type_synonym u8 = "8 word"
type_synonym u32 = "32 word"
type_synonym u64 = "64 word"

text \<open>An environment block as \<open>getenv\<close> sees it.\<close>

type_synonym environ = "string \<Rightarrow> string option"

named_theorems inv_intros \<open>introduction rules for the component invariants\<close>
named_theorems frame_simps \<open>fields an operation leaves alone\<close>
named_theorems step_defs \<open>definitions unfolded when an operation is executed symbolically\<close>

section \<open>Lists\<close>

text \<open>\<open>memcpy(dst, src, n)\<close> on byte lists, with the destination returned.\<close>

definition memcpy :: "nat \<Rightarrow> 'a list \<Rightarrow> 'a list \<Rightarrow> 'a list" where
  "memcpy n dst src = take n src @ drop n dst"

lemma memcpy_whole [simp]: "length dst = n \<Longrightarrow> length src = n \<Longrightarrow> memcpy n dst src = src"
  by (simp add: memcpy_def)

lemma length_memcpy [simp]: "n \<le> length src \<Longrightarrow> n \<le> length dst \<Longrightarrow> length (memcpy n dst src) = length dst"
  by (simp add: memcpy_def)

lemma take_list_update_beyond [simp]: "n \<le> i \<Longrightarrow> take n (xs[i := x]) = take n xs"
  by (simp add: take_update_cancel)

lemma drop_list_update_below [simp]: "i < n \<Longrightarrow> drop n (xs[i := x]) = drop n xs"
  by (simp add: drop_update_cancel)

lemma take_Suc_update_snoc:
  "n < length xs \<Longrightarrow> take (Suc n) (xs[n := x]) = take n xs @ [x]"
  by (simp add: take_Suc_conv_app_nth)

lemma mset_take_Suc_nth:
  "n < length xs \<Longrightarrow> mset (take (Suc n) xs) = add_mset (xs ! n) (mset (take n xs))"
  by (simp add: take_Suc_conv_app_nth)

lemma sorted_take_Suc_iff:
  assumes "n < length xs"
  shows "sorted (take (Suc n) xs) \<longleftrightarrow>
    sorted (take n xs) \<and> (\<forall>y \<in> set (take n xs). y \<le> xs ! n)"
  using assms by (auto simp: take_Suc_conv_app_nth sorted_append)

section \<open>Words\<close>

lemma word_pos_iff: "(0 < (x :: 'a::len word)) \<longleftrightarrow> x \<noteq> 0"
  by (simp add: word_neq_0_conv)

lemma unat_of_nat_small: "n < 2 ^ LENGTH('a) \<Longrightarrow> unat (of_nat n :: 'a::len word) = n"
  by (simp add: unsigned_of_nat take_bit_nat_eq_self)

lemma of_nat_unat_eq: "unat (w :: 'a::len word) = n \<Longrightarrow> of_nat n = w"
  by auto

section \<open>Functions used as arrays indexed by an enumeration\<close>

lemma fun_upd_cases:
  "P ((f(a := v)) b) \<longleftrightarrow> (if b = a then P v else P (f b))"
  by simp

end
