(* ===== verification/C_Lib.thy ===== *)
theory C_Lib
  imports CS_Prelude
begin

text \<open>
  The parts of the C standard library the sources use on text: the \<open>%llu\<close> and \<open>%d\<close>
  conversions of \<open>printf\<close>, the \<open>%llu\<close> and \<open>%lx\<close> conversions of \<open>scanf\<close>, \<open>strtol\<close> and \<open>atoi\<close>,
  the truncation of \<open>snprintf\<close>, line splitting and substring search, and the character
  classes behind them. A stream is the string still to be
  read; a failed conversion is \<open>None\<close>.
\<close>

section \<open>Characters and decimal conversions\<close>

definition isspace :: "char \<Rightarrow> bool" where
  "isspace c \<longleftrightarrow> of_char c \<in> {9, 10, 11, 12, 13, 32 :: nat}"

definition isdigit :: "char \<Rightarrow> bool" where
  "isdigit c \<longleftrightarrow> 48 \<le> (of_char c :: nat) \<and> of_char c \<le> (57 :: nat)"

definition digit_char :: "nat \<Rightarrow> char" where
  "digit_char d = char_of (48 + d)"

definition digit_val :: "char \<Rightarrow> nat" where
  "digit_val c = of_char c - 48"

text \<open>\<open>printf("%llu", n)\<close>.\<close>

fun dec_string :: "nat \<Rightarrow> string" where
  "dec_string n =
     (if n < 10 then [digit_char n] else dec_string (n div 10) @ [digit_char (n mod 10)])"

declare dec_string.simps [simp del]

text \<open>\<open>printf("%d", i)\<close>.\<close>

definition int_string :: "int \<Rightarrow> string" where
  "int_string i = (if i < 0 then CHR ''-'' # dec_string (nat (- i)) else dec_string (nat i))"

text \<open>\<open>snprintf(buf, n, "%s", s)\<close>: at most \<open>n - 1\<close> bytes are stored.\<close>

definition snprintf_str :: "nat \<Rightarrow> string \<Rightarrow> string" where
  "snprintf_str n s = take (n - 1) s"

fun scan_digits :: "nat \<Rightarrow> string \<Rightarrow> nat \<times> string" where
  "scan_digits acc [] = (acc, [])"
| "scan_digits acc (c # cs) =
     (if isdigit c then scan_digits (acc * 10 + digit_val c) cs else (acc, c # cs))"

text \<open>
  \<open>scanf("%llu", &v)\<close>: skip white space, take an optional sign, then one or more digits;
  a value beyond \<open>ULLONG_MAX\<close> saturates and a minus sign negates modulo \<open>2\<^sup>6\<^sup>4\<close>, as
  \<open>strtoull\<close> does.
\<close>

definition scan_unsigned :: "string \<Rightarrow> (u64 \<times> string) option" where
  "scan_unsigned s =
     (case s of
        c # _ \<Rightarrow>
          if isdigit c
          then (let (n, r) = scan_digits 0 s
                in Some (if n < 2 ^ 64 then of_nat n else - 1, r))
          else None
      | [] \<Rightarrow> None)"

definition scan_ull :: "string \<Rightarrow> (u64 \<times> string) option" where
  "scan_ull s =
     (case dropWhile isspace s of
        [] \<Rightarrow> None
      | c # cs \<Rightarrow>
          if c = CHR ''+'' then scan_unsigned cs
          else if c = CHR ''-''
            then (case scan_unsigned cs of
                    None \<Rightarrow> None
                  | Some (v, r) \<Rightarrow> Some (if v = - 1 then - 1 else - v, r))
          else scan_unsigned (c # cs))"

text \<open>\<open>scanf("%Ns", buf)\<close>: skip white space, then take up to \<open>N\<close> non-space bytes.\<close>

definition scan_word :: "nat \<Rightarrow> string \<Rightarrow> string option" where
  "scan_word n s =
     (let w = takeWhile (\<lambda>c. \<not> isspace c) (dropWhile isspace s)
      in if w = [] then None else Some (take n w))"

section \<open>Hexadecimal and automatic-base conversions\<close>

definition isxdigit :: "char \<Rightarrow> bool" where
  "isxdigit c \<longleftrightarrow>
     isdigit c \<or> 97 \<le> (of_char c :: nat) \<and> of_char c \<le> (102 :: nat) \<or>
     65 \<le> (of_char c :: nat) \<and> of_char c \<le> (70 :: nat)"

definition xdigit_val :: "char \<Rightarrow> nat" where
  "xdigit_val c =
     (if isdigit c then digit_val c
      else if 97 \<le> (of_char c :: nat) then of_char c - 87 else of_char c - 55)"

definition xdigit_char :: "nat \<Rightarrow> char" where
  "xdigit_char d = (if d < 10 then digit_char d else char_of (87 + d))"

text \<open>\<open>printf("%lx", n)\<close>.\<close>

fun hex_string :: "nat \<Rightarrow> string" where
  "hex_string n =
     (if n < 16 then [xdigit_char n] else hex_string (n div 16) @ [xdigit_char (n mod 16)])"

declare hex_string.simps [simp del]

fun scan_base :: "nat \<Rightarrow> (char \<Rightarrow> bool) \<Rightarrow> nat \<Rightarrow> string \<Rightarrow> nat \<times> string" where
  "scan_base b ok acc [] = (acc, [])"
| "scan_base b ok acc (c # cs) =
     (if ok c then scan_base b ok (acc * b + xdigit_val c) cs else (acc, c # cs))"

definition isodigit :: "char \<Rightarrow> bool" where
  "isodigit c \<longleftrightarrow> 48 \<le> (of_char c :: nat) \<and> of_char c \<le> (55 :: nat)"

text \<open>An optional \<open>0x\<close> prefix, as \<open>strtoul\<close> takes it in base 16.\<close>

definition strip_0x :: "string \<Rightarrow> string" where
  "strip_0x s =
     (case s of
        z # x # d # cs \<Rightarrow>
          if z = CHR ''0'' \<and> (x = CHR ''x'' \<or> x = CHR ''X'') \<and> isxdigit d then d # cs else s
      | _ \<Rightarrow> s)"

definition scan_hex_unsigned :: "string \<Rightarrow> (u64 \<times> string) option" where
  "scan_hex_unsigned s =
     (case strip_0x s of
        c # cs \<Rightarrow>
          if isxdigit c
          then (let (n, r) = scan_base 16 isxdigit 0 (c # cs)
                in Some (if n < 2 ^ 64 then of_nat n else - 1, r))
          else None
      | [] \<Rightarrow> None)"

text \<open>\<open>scanf("%lx", &v)\<close>.\<close>

definition scan_hex :: "string \<Rightarrow> (u64 \<times> string) option" where
  "scan_hex s =
     (case dropWhile isspace s of
        [] \<Rightarrow> None
      | c # cs \<Rightarrow>
          if c = CHR ''+'' then scan_hex_unsigned cs
          else if c = CHR ''-''
            then (case scan_hex_unsigned cs of
                    None \<Rightarrow> None
                  | Some (v, r) \<Rightarrow> Some (if v = - 1 then - 1 else - v, r))
          else scan_hex_unsigned (c # cs))"

text \<open>\<open>scanf("%ld", &v)\<close>, the value as its 64 bits: out of range it saturates.\<close>

definition scan_ld :: "string \<Rightarrow> (u64 \<times> string) option" where
  "scan_ld s =
     (case scan_ull s of
        None \<Rightarrow> None
      | Some (v, r) \<Rightarrow>
          Some (if take 1 (dropWhile isspace s) = ''-''
                then (if v \<noteq> 0 \<and> v < 2 ^ 63 then 2 ^ 63 else v)
                else (if v \<ge> 2 ^ 63 then 2 ^ 63 - 1 else v), r))"

text \<open>
  \<open>strtol(s, NULL, 0)\<close> on a 64-bit \<open>long\<close>: the base follows the prefix, no digits give 0, and
  values out of range saturate.
\<close>

definition strtol_magnitude :: "string \<Rightarrow> nat" where
  "strtol_magnitude s =
     (if strip_0x s \<noteq> s then fst (scan_base 16 isxdigit 0 (strip_0x s))
      else if take 1 s = ''0'' then fst (scan_base 8 isodigit 0 s)
      else fst (scan_base 10 isdigit 0 s))"

definition strtol0 :: "string \<Rightarrow> int" where
  "strtol0 s =
     (case dropWhile isspace s of
        [] \<Rightarrow> 0
      | c # cs \<Rightarrow>
          if c = CHR ''-'' then max (- (2 ^ 63)) (- int (strtol_magnitude cs))
          else if c = CHR ''+'' then min (2 ^ 63 - 1) (int (strtol_magnitude cs))
          else min (2 ^ 63 - 1) (int (strtol_magnitude (c # cs))))"

text \<open>\<open>strtoul(s, NULL, 0)\<close>: a minus sign negates modulo \<open>2\<^sup>6\<^sup>4\<close>, too large a value saturates.\<close>

definition strtoul_magnitude :: "bool \<Rightarrow> string \<Rightarrow> u64" where
  "strtoul_magnitude neg s =
     (let n = strtol_magnitude s
      in if n \<ge> 2 ^ 64 then - 1 else if neg then - of_nat n else of_nat n)"

definition strtoul0 :: "string \<Rightarrow> u64" where
  "strtoul0 s =
     (case dropWhile isspace s of
        [] \<Rightarrow> 0
      | c # cs \<Rightarrow>
          if c = CHR ''-'' then strtoul_magnitude True cs
          else if c = CHR ''+'' then strtoul_magnitude False cs
          else strtoul_magnitude False (c # cs))"

text \<open>
  \<open>atoi(s)\<close>. The language leaves a value out of range undefined; the C library on the boards converts
  with \<open>strtol\<close>, which saturates at a \<open>long\<close>, and keeps the low 32 bits.
\<close>

definition atoi :: "string \<Rightarrow> int" where
  "atoi s =
     (let n = (case dropWhile isspace s of
                 [] \<Rightarrow> 0
               | c # cs \<Rightarrow>
                   if c = CHR ''-'' then max (- (2 ^ 63)) (- int (fst (scan_digits 0 cs)))
                   else if c = CHR ''+'' then min (2 ^ 63 - 1) (int (fst (scan_digits 0 cs)))
                   else min (2 ^ 63 - 1) (int (fst (scan_digits 0 (c # cs)))))
      in sint (word_of_int n :: u32))"

section \<open>Lines and substrings\<close>

text \<open>The lines \<open>getline\<close> returns, without their newline.\<close>

fun split_lines :: "string \<Rightarrow> string \<Rightarrow> string list" where
  "split_lines cur [] = (if cur = [] then [] else [cur])"
| "split_lines cur (c # cs) =
     (if c = CHR 0x0A then cur # split_lines [] cs else split_lines (cur @ [c]) cs)"

definition strchr :: "char \<Rightarrow> string \<Rightarrow> string option" where
  "strchr c s = (case dropWhile (\<lambda>x. x \<noteq> c) s of [] \<Rightarrow> None | r \<Rightarrow> Some r)"

definition strprefix :: "string \<Rightarrow> string \<Rightarrow> bool" where
  "strprefix p s \<longleftrightarrow> take (length p) s = p"

fun strstr :: "string \<Rightarrow> string \<Rightarrow> bool" where
  "strstr [] needle = (needle = [])"
| "strstr (c # cs) needle = (strprefix needle (c # cs) \<or> strstr cs needle)"

section \<open>Lemmas\<close>

lemma of_char_digit_char: "d < 10 \<Longrightarrow> of_char (digit_char d) = 48 + d"
  by (simp add: digit_char_def)

lemma isdigit_digit_char [simp]: "d < 10 \<Longrightarrow> isdigit (digit_char d)"
  by (simp add: isdigit_def of_char_digit_char)

lemma digit_val_digit_char [simp]: "d < 10 \<Longrightarrow> digit_val (digit_char d) = d"
  by (simp add: digit_val_def of_char_digit_char)

lemma dec_string_digits: "\<forall>c \<in> set (dec_string n). isdigit c"
proof (induction n rule: dec_string.induct)
  case (1 n)
  then show ?case by (subst dec_string.simps) auto
qed

lemma dec_string_nonempty [simp]: "dec_string n \<noteq> []"
  by (subst dec_string.simps) simp

lemma scan_digits_append:
  "\<forall>c \<in> set xs. isdigit c \<Longrightarrow>
   scan_digits acc (xs @ ys) = scan_digits (fst (scan_digits acc xs)) ys"
  by (induction xs arbitrary: acc) auto

lemma scan_digits_all:
  "\<forall>c \<in> set xs. isdigit c \<Longrightarrow> snd (scan_digits acc xs) = []"
  by (induction xs arbitrary: acc) auto

lemma scan_digits_dec_string: "fst (scan_digits 0 (dec_string n)) = n"
proof (induction n rule: dec_string.induct)
  case (1 n)
  show ?case
  proof (cases "n < 10")
    case True
    then show ?thesis by (subst dec_string.simps) simp
  next
    case False
    with 1 have "fst (scan_digits 0 (dec_string (n div 10))) = n div 10" by simp
    with False show ?thesis
      by (subst dec_string.simps) (simp add: scan_digits_append dec_string_digits)
  qed
qed

lemma scan_digits_stop:
  assumes "r = [] \<or> \<not> isdigit (hd r)"
  shows "scan_digits acc r = (acc, r)"
  using assms by (cases r) auto

lemma scan_digits_dec_string_append:
  assumes "r = [] \<or> \<not> isdigit (hd r)"
  shows "scan_digits 0 (dec_string n @ r) = (n, r)"
  using assms
  by (simp add: scan_digits_append dec_string_digits scan_digits_dec_string scan_digits_stop)

lemma digit_not_space: "isdigit c \<Longrightarrow> \<not> isspace c \<and> c \<noteq> CHR ''+'' \<and> c \<noteq> CHR ''-''"
  by (auto simp: isdigit_def isspace_def)

lemma dec_string_hd: "isdigit (hd (dec_string n))"
  using dec_string_digits [of n] by (metis dec_string_nonempty hd_in_set)

text \<open>What \<open>%llu\<close> prints, \<open>%llu\<close> reads back.\<close>

lemma scan_ull_dec_string:
  assumes "n < 2 ^ 64" and "r = [] \<or> \<not> isdigit (hd r)"
  shows "scan_ull (dec_string n @ r) = Some (of_nat n, r)"
proof -
  obtain c cs where d: "dec_string n = c # cs" by (cases "dec_string n") auto
  then have c: "isdigit c" using dec_string_hd [of n] by simp
  from c have "dropWhile isspace (dec_string n @ r) = c # cs @ r"
    using d digit_not_space by auto
  moreover have "scan_digits 0 (c # cs @ r) = (n, r)"
    using scan_digits_dec_string_append [OF assms(2), of n] d by simp
  ultimately show ?thesis
    using c digit_not_space [OF c] assms(1)
    by (simp add: scan_ull_def scan_unsigned_def del: scan_digits.simps)
qed

lemma scan_ull_dec_string_word [simp]: "scan_ull (dec_string (unat (v :: u64))) = Some (v, [])"
  using scan_ull_dec_string [of "unat v" "[]"] unsigned_less [of v, where ?'a = nat] by simp

text \<open>The same for the hexadecimal conversions.\<close>

lemma isxdigit_xdigit_char [simp]: "d < 16 \<Longrightarrow> isxdigit (xdigit_char d)"
  by (auto simp: xdigit_char_def isxdigit_def)

lemma xdigit_val_xdigit_char [simp]: "d < 16 \<Longrightarrow> xdigit_val (xdigit_char d) = d"
  by (auto simp: xdigit_char_def xdigit_val_def isdigit_def [of "char_of _"])

lemma hex_string_digits: "\<forall>c \<in> set (hex_string n). isxdigit c"
proof (induction n rule: hex_string.induct)
  case (1 n)
  then show ?case by (subst hex_string.simps) auto
qed

lemma hex_string_nonempty [simp]: "hex_string n \<noteq> []"
  by (subst hex_string.simps) simp

lemma scan_base_append:
  "\<forall>c \<in> set xs. ok c \<Longrightarrow> scan_base b ok acc (xs @ ys) = scan_base b ok (fst (scan_base b ok acc xs)) ys"
  by (induction xs arbitrary: acc) auto

lemma scan_base_hex_string: "fst (scan_base 16 isxdigit 0 (hex_string n)) = n"
proof (induction n rule: hex_string.induct)
  case (1 n)
  show ?case
  proof (cases "n < 16")
    case True
    then show ?thesis by (subst hex_string.simps) simp
  next
    case False
    with 1 have "fst (scan_base 16 isxdigit 0 (hex_string (n div 16))) = n div 16" by simp
    with False show ?thesis
      by (subst hex_string.simps) (simp add: scan_base_append hex_string_digits)
  qed
qed

lemma xdigit_not_space: "isxdigit c \<Longrightarrow> \<not> isspace c \<and> c \<noteq> CHR ''+'' \<and> c \<noteq> CHR ''-'' \<and> c \<noteq> CHR ''x'' \<and> c \<noteq> CHR ''X''"
  by (auto simp: isxdigit_def isdigit_def isspace_def)

lemma strip_0x_hex:
  assumes "\<forall>c \<in> set xs. isxdigit c" and "xs \<noteq> []" and "hd r \<noteq> CHR ''x''" and "hd r \<noteq> CHR ''X''"
  shows "strip_0x (xs @ r) = xs @ r"
proof (cases xs)
  case (Cons z ys)
  show ?thesis
  proof (cases ys)
    case Nil
    with Cons assms(3,4) show ?thesis by (auto simp: strip_0x_def split: list.split)
  next
    fix x zs
    assume "ys = x # zs"
    with Cons assms(1) xdigit_not_space [of x] show ?thesis
      by (auto simp: strip_0x_def split: list.split)
  qed
qed (use assms(2) in simp)

text \<open>A maximal run of hexadecimal digits is read as its value, with or without leading zeros.\<close>

lemma scan_hex_digits:
  assumes x: "\<forall>c \<in> set xs. isxdigit c" "xs \<noteq> []"
    and r: "r = [] \<or> \<not> isxdigit (hd r) \<and> hd r \<noteq> CHR ''x'' \<and> hd r \<noteq> CHR ''X''"
    and v: "fst (scan_base 16 isxdigit 0 xs) = unat (v :: u64)"
  shows "scan_hex (xs @ r) = Some (v, r)"
proof -
  obtain c cs where d: "xs = c # cs" using x(2) by (cases xs) auto
  then have c: "isxdigit c" using x(1) by simp
  have s: "strip_0x (xs @ r) = xs @ r"
  proof (cases "r = []")
    case True
    show ?thesis
    proof (cases cs)
      case (Cons y zs)
      with d x(1) xdigit_not_space [of y] True show ?thesis
        by (auto simp: strip_0x_def split: list.split)
    qed (use True d in \<open>simp add: strip_0x_def\<close>)
  next
    case False
    with r x show ?thesis by (intro strip_0x_hex) simp_all
  qed
  have b: "scan_base 16 isxdigit 0 (xs @ r) = (unat v, r)"
  proof -
    have "scan_base 16 isxdigit a r = (a, r)" for a using r by (cases r) auto
    then show ?thesis by (simp add: scan_base_append x(1) v)
  qed
  have "dropWhile isspace (xs @ r) = xs @ r" using d c xdigit_not_space by auto
  moreover have "scan_hex_unsigned (xs @ r) = Some (v, r)"
    using s b c d unsigned_less [of v, where ?'a = nat]
    by (simp add: scan_hex_unsigned_def del: scan_base.simps)
  ultimately show ?thesis using d c xdigit_not_space [of c] by (simp add: scan_hex_def)
qed

lemma scan_base_zeros: "scan_base 16 isxdigit 0 (replicate n CHR ''0'' @ xs) = scan_base 16 isxdigit 0 xs"
  by (induction n) (simp_all add: isxdigit_def isdigit_def xdigit_val_def digit_val_def)

lemma scan_digits_length: "length (snd (scan_digits acc s)) \<le> length s"
  by (induction s arbitrary: acc) (auto simp: le_SucI)

lemma scan_unsigned_shrinks: "scan_unsigned s = Some (v, r) \<Longrightarrow> length r < length s"
proof (cases s)
  case (Cons c cs)
  assume "scan_unsigned s = Some (v, r)"
  with Cons have "r = snd (scan_digits (digit_val c) cs)"
    by (auto simp: scan_unsigned_def split: if_splits prod.splits)
  then show ?thesis using scan_digits_length [of "digit_val c" cs] Cons by simp
qed (simp add: scan_unsigned_def)

lemma scan_ull_shrinks: "scan_ull s = Some (v, r) \<Longrightarrow> length r < length s"
proof -
  assume "scan_ull s = Some (v, r)"
  then obtain c cs where d: "dropWhile isspace s = c # cs"
    and "(\<exists>v'. scan_unsigned cs = Some (v', r)) \<or> (\<exists>v'. scan_unsigned (c # cs) = Some (v', r))"
    by (auto simp: scan_ull_def split: list.splits if_splits option.splits)
  then have "length r < length (c # cs)"
    using scan_unsigned_shrinks by fastforce
  also have "\<dots> \<le> length s" using length_dropWhile_le [of isspace s] d by simp
  finally show ?thesis .
qed

lemma length_dec_string: "n < 10 ^ k \<Longrightarrow> 0 < k \<Longrightarrow> length (dec_string n) \<le> k"
proof (induction n arbitrary: k rule: dec_string.induct)
  case (1 n)
  show ?case
  proof (cases "n < 10")
    case True
    with "1.prems" show ?thesis by (subst dec_string.simps) simp
  next
    case False
    with "1.prems" obtain j where k: "k = Suc j" and "0 < j"
      by (cases k; cases "k - 1") auto
    moreover have "n div 10 < 10 ^ j" using "1.prems"(1) k by auto
    ultimately have "length (dec_string (n div 10)) \<le> j" using "1.IH" False by simp
    with False k show ?thesis by (subst dec_string.simps) simp
  qed
qed

lemma length_dec_string_word: "length (dec_string (unat (v :: u64))) \<le> 20"
proof (rule length_dec_string)
  have "unat v < 2 ^ 64" using unsigned_less [of v, where ?'a = nat] by simp
  also have "\<dots> < 10 ^ 20" by simp
  finally show "unat v < 10 ^ 20" .
qed simp

text \<open>A 64-bit value always fits the sources' 32-byte buffers.\<close>

lemma snprintf_str_dec [simp]: "snprintf_str 32 (dec_string (unat (v :: u64))) = dec_string (unat v)"
  using length_dec_string_word [of v] by (simp add: snprintf_str_def)

lemma snprintf_str_snprintf_str [simp]: "snprintf_str n (snprintf_str n s) = snprintf_str n s"
  by (simp add: snprintf_str_def)

end
