(* ===== verification/Freq_Gov.thy ===== *)
theory Freq_Gov
  imports C_Lib
begin

text \<open>
  The overflow-aware CPU frequency governor, \<open>src/src/freq_gov.c\<close> with
  \<open>src/include/freq_gov.h\<close>. The file's static variables are the record
  \<open>freq_state\<close>; the two-element arrays indexed by \<open>freq_mode_t\<close> are functions on
  the enumeration, the frequency table keeps its 64 slots and its separate element count, and
  \<open>restore_ops\<close> with its counter is a list of at most five (path, value) pairs. The
  sysfs files are the environment: \<open>rd_file\<close> is what a read finds, \<open>wr_open\<close> whether
  an \<open>open(O_WRONLY)\<close> succeeds, and every write that reaches the kernel is appended to
  \<open>sysfs_log\<close>. What the kernel makes of those writes is a parameter of the theorems that
  need it. Messages on stderr are not modelled.
\<close>

section \<open>State\<close>

datatype freq_mode = FREQ_MODE_ATOM | FREQ_MODE_ADDR

datatype signum = SIGTERM | SIGINT | SIGHUP

datatype disposition = SIG_DFL | SIG_IGN | SIG_RESTORE

datatype atexit_fn = Restore_System | Report

abbreviation FREQ_INTERVAL :: u64 where "FREQ_INTERVAL \<equiv> 1000"
abbreviation MIN_FREQ_INTERVAL :: u64 where "MIN_FREQ_INTERVAL \<equiv> 100"
abbreviation MAX_FREQ_INTERVAL :: u64 where "MAX_FREQ_INTERVAL \<equiv> 1000"
abbreviation FREQ_TABLE_MAX :: nat where "FREQ_TABLE_MAX \<equiv> 64"
abbreviation RESTORE_OPS_MAX :: nat where "RESTORE_OPS_MAX \<equiv> 5"
abbreviation FREQ_GOV_MAX_REPETITION_NUM :: int where "FREQ_GOV_MAX_REPETITION_NUM \<equiv> 3"

record freq_state =
  g_cpu :: int
  system_min_cpufreq :: u64
  system_max_cpufreq :: u64
  freq_table :: "u64 list"
  freq_table_num :: nat
  cur_idx :: "freq_mode \<Rightarrow> int"
  opt_idx_sum :: "freq_mode \<Rightarrow> u32"
  stable_nums :: "freq_mode \<Rightarrow> u64"
  non_overflow_nums :: "freq_mode \<Rightarrow> u64"
  total_execs :: "freq_mode \<Rightarrow> u64"
  total_overflow_execs :: "freq_mode \<Rightarrow> u64"
  freq_interval :: u64
  addr_only_mode :: bool
  freq_diag :: bool
  g_enabled :: bool
  force_min_pending :: bool
  saved_governor :: string
  restore_ops :: "(string \<times> string) list"
  guard_fd :: int
  last_set_freq :: u64
  sysfs_log :: "(string \<times> string) list"
  atexit_fns :: "atexit_fn list"
  sig_disp :: "signum \<Rightarrow> disposition"

text \<open>The static initialisers; signal dispositions are inherited, all defaulted here.\<close>

definition freq_state0 :: freq_state where
  "freq_state0 =
     \<lparr>g_cpu = 0, system_min_cpufreq = 0, system_max_cpufreq = 0,
      freq_table = replicate FREQ_TABLE_MAX 0, freq_table_num = 0,
      cur_idx = (\<lambda>_. 0), opt_idx_sum = (\<lambda>_. 0), stable_nums = (\<lambda>_. 0),
      non_overflow_nums = (\<lambda>_. 0), total_execs = (\<lambda>_. 0), total_overflow_execs = (\<lambda>_. 0),
      freq_interval = MIN_FREQ_INTERVAL, addr_only_mode = False, freq_diag = False,
      g_enabled = True, force_min_pending = False, saved_governor = [], restore_ops = [],
      guard_fd = - 1, last_set_freq = 0, sysfs_log = [], atexit_fns = [],
      sig_disp = (\<lambda>_. SIG_DFL)\<rparr>"

record sysfs_env =
  rd_file :: "string \<Rightarrow> string option"
  wr_open :: "string \<Rightarrow> bool"
  env_var :: environ

section \<open>Sysfs\<close>

definition cpufreq_path :: "nat \<Rightarrow> int \<Rightarrow> string \<Rightarrow> string" where
  "cpufreq_path n cpu file_name =
     snprintf_str n (''/sys/devices/system/cpu/cpu'' @ int_string cpu @ ''/cpufreq/'' @ file_name)"

definition write_sysfs :: "sysfs_env \<Rightarrow> string \<Rightarrow> u64 \<Rightarrow> freq_state \<Rightarrow> freq_state" where
  "write_sysfs e file_name val s =
     (let path = cpufreq_path 128 (g_cpu s) file_name
      in if wr_open e path
         then s\<lparr>sysfs_log := sysfs_log s @ [(path, snprintf_str 32 (dec_string (unat val)))]\<rparr>
         else s)"

definition write_sysfs_str :: "sysfs_env \<Rightarrow> string \<Rightarrow> string \<Rightarrow> freq_state \<Rightarrow> freq_state" where
  "write_sysfs_str e file_name val s =
     (let path = cpufreq_path 128 (g_cpu s) file_name
      in if wr_open e path then s\<lparr>sysfs_log := sysfs_log s @ [(path, val)]\<rparr> else s)"

definition read_sysfs :: "sysfs_env \<Rightarrow> string \<Rightarrow> freq_state \<Rightarrow> u64" where
  "read_sysfs e file_name s =
     (case rd_file e (cpufreq_path 128 (g_cpu s) file_name) of
        None \<Rightarrow> 0
      | Some inp \<Rightarrow> (case scan_ull inp of None \<Rightarrow> 0 | Some (v, _) \<Rightarrow> v))"

section \<open>The frequency table\<close>

text \<open>The \<open>fscanf\<close> loop: values outside the hardware bounds are skipped, 64 are kept.\<close>

function read_freqs :: "u64 \<Rightarrow> u64 \<Rightarrow> u64 list \<Rightarrow> nat \<Rightarrow> string \<Rightarrow> u64 list \<times> nat" where
  "read_freqs mn mx t k inp =
     (if k < FREQ_TABLE_MAX then
        (case scan_ull inp of
           None \<Rightarrow> (t, k)
         | Some (f, rest) \<Rightarrow>
             if f < mn \<or> f > mx then read_freqs mn mx t k rest
             else read_freqs mn mx (t[k := f]) (Suc k) rest)
      else (t, k))"
  by pat_completeness auto
termination
  by (relation "measure (\<lambda>(mn, mx, t, k, inp). length inp)") (auto dest: scan_ull_shrinks)

declare read_freqs.simps [simp del]

text \<open>
  The insertion sort. \<open>insert_key t h key\<close> is the inner loop entered with the hole at
  \<open>h = j + 1\<close>, followed by \<open>freq_table[j + 1] = key\<close>.
\<close>

fun insert_key :: "u64 list \<Rightarrow> nat \<Rightarrow> u64 \<Rightarrow> u64 list" where
  "insert_key t 0 key = t[0 := key]"
| "insert_key t (Suc j) key =
     (if t ! j > key then insert_key (t[Suc j := t ! j]) j key else t[Suc j := key])"

fun insertion_sort :: "u64 list \<Rightarrow> nat \<Rightarrow> nat \<Rightarrow> u64 list" where
  "insertion_sort t i 0 = t"
| "insertion_sort t i (Suc left) = insertion_sort (insert_key t i (t ! i)) (Suc i) left"

definition read_available_frequencies :: "sysfs_env \<Rightarrow> freq_state \<Rightarrow> freq_state" where
  "read_available_frequencies e s =
     (let (t, n) =
            (case rd_file e (cpufreq_path 128 (g_cpu s) ''scaling_available_frequencies'') of
               None \<Rightarrow> (freq_table s, 0)
             | Some inp \<Rightarrow>
                 read_freqs (system_min_cpufreq s) (system_max_cpufreq s) (freq_table s) 0 inp);
          (t, n) =
            (if n = 0
             then (t[0 := system_min_cpufreq s, 1 := system_max_cpufreq s], 2) else (t, n))
      in s\<lparr>freq_table := insertion_sort t 1 (n - 1), freq_table_num := n\<rparr>)"

section \<open>Setting the frequency\<close>

definition set_freq :: "sysfs_env \<Rightarrow> u64 \<Rightarrow> freq_state \<Rightarrow> freq_state" where
  "set_freq e target s =
     (if target = last_set_freq s then s
      else
        let s = write_sysfs e ''scaling_min_freq'' (system_min_cpufreq s) s;
            s = write_sysfs e ''scaling_max_freq'' target s;
            s = write_sysfs e ''scaling_min_freq'' target s;
            s = write_sysfs e ''scaling_setspeed'' target s
        in s\<lparr>last_set_freq := target\<rparr>)"

section \<open>Save and restore\<close>

definition add_restore_op :: "string \<Rightarrow> string \<Rightarrow> freq_state \<Rightarrow> freq_state" where
  "add_restore_op file_name val s =
     (if length (restore_ops s) \<ge> RESTORE_OPS_MAX then s
      else s\<lparr>restore_ops := restore_ops s @
               [(cpufreq_path 160 (g_cpu s) file_name, snprintf_str 32 val)]\<rparr>)"

definition freq_gov_restore_system :: "sysfs_env \<Rightarrow> freq_state \<Rightarrow> freq_state" where
  "freq_gov_restore_system e s =
     s\<lparr>sysfs_log := sysfs_log s @ filter (\<lambda>(path, _). wr_open e path) (restore_ops s),
       last_set_freq := 0\<rparr>"

text \<open>The handler restores, then re-raises the signal with the default disposition.\<close>

definition freq_gov_signal_restore :: "sysfs_env \<Rightarrow> signum \<Rightarrow> freq_state \<Rightarrow> freq_state" where
  "freq_gov_signal_restore e sig s =
     (let s = freq_gov_restore_system e s
      in s\<lparr>sig_disp := (sig_disp s)(sig := SIG_DFL)\<rparr>)"

definition freq_gov_hook_signal :: "signum \<Rightarrow> freq_state \<Rightarrow> freq_state" where
  "freq_gov_hook_signal sig s =
     (if sig_disp s sig = SIG_IGN then s
      else s\<lparr>sig_disp := (sig_disp s)(sig := SIG_RESTORE)\<rparr>)"

text \<open>
  The restore guard. \<open>pipe2_fds\<close> is what \<open>pipe2\<close> returned, \<open>fork_pid\<close> what
  \<open>fork\<close> returned in the proxy; \<open>guard_main\<close> is the child, over the sequence of
  results its \<open>read\<close> calls see: it restores the policy at the first end of file or
  error other than \<open>EINTR\<close>, and is still blocked (\<open>None\<close>) when the sequence ends.
\<close>

datatype read_result = Read_Bytes nat | Read_EINTR | Read_Error

definition freq_gov_spawn_guard :: "(int \<times> int) option \<Rightarrow> int \<Rightarrow> freq_state \<Rightarrow> freq_state" where
  "freq_gov_spawn_guard pipe2_fds fork_pid s =
     (case pipe2_fds of
        None \<Rightarrow> s
      | Some (rd_end, wr_end) \<Rightarrow> if fork_pid < 0 then s else s\<lparr>guard_fd := wr_end\<rparr>)"

fun guard_main :: "sysfs_env \<Rightarrow> read_result list \<Rightarrow> freq_state \<Rightarrow> freq_state option" where
  "guard_main e [] s = None"
| "guard_main e (Read_Bytes n # rs) s =
     (if n > 0 then guard_main e rs s else Some (freq_gov_restore_system e s))"
| "guard_main e (Read_EINTR # rs) s = guard_main e rs s"
| "guard_main e (Read_Error # rs) s = Some (freq_gov_restore_system e s)"

section \<open>Reporting\<close>

definition opt_freq :: "freq_mode \<Rightarrow> freq_state \<Rightarrow> u64" where
  "opt_freq mode s =
     (if stable_nums s mode = 0 then 0
      else
        let q = (scast (opt_idx_sum s mode) + stable_nums s mode div 2) div stable_nums s mode;
            idx = sint (ucast q :: 32 word);
            idx = (if idx \<ge> int (freq_table_num s) then int (freq_table_num s) - 1 else idx)
        in freq_table s ! nat idx)"

text \<open>The values of the summary line for each mode that ran.\<close>

definition freq_gov_report :: "freq_state \<Rightarrow> (freq_mode \<times> u64 \<times> u64 \<times> u64 \<times> u64 \<times> u64) list" where
  "freq_gov_report s =
     (if \<not> freq_diag s then []
      else map (\<lambda>mode. (mode, total_execs s mode, total_overflow_execs s mode,
                        opt_freq mode s, stable_nums s mode, freq_table s ! nat (cur_idx s mode)))
             (filter (\<lambda>mode. total_execs s mode \<noteq> 0) [FREQ_MODE_ATOM, FREQ_MODE_ADDR]))"

section \<open>Lifecycle\<close>

definition save_governor :: "sysfs_env \<Rightarrow> freq_state \<Rightarrow> freq_state" where
  "save_governor e s =
     (case rd_file e (cpufreq_path 128 (g_cpu s) ''scaling_governor'') of
        None \<Rightarrow> s
      | Some inp \<Rightarrow>
          s\<lparr>saved_governor := (case scan_word 31 inp of None \<Rightarrow> [] | Some w \<Rightarrow> w)\<rparr>)"

definition stage_restore_value :: "string \<Rightarrow> u64 \<Rightarrow> freq_state \<Rightarrow> freq_state" where
  "stage_restore_value file_name v s =
     (if v \<noteq> 0 then add_restore_op file_name (snprintf_str 32 (dec_string (unat v))) s else s)"

definition stage_restore_ops :: "sysfs_env \<Rightarrow> freq_state \<Rightarrow> freq_state" where
  "stage_restore_ops e s =
     (let saved_min = read_sysfs e ''scaling_min_freq'' s;
          saved_max = read_sysfs e ''scaling_max_freq'' s;
          saved_speed =
            (if saved_governor s = ''userspace'' then read_sysfs e ''scaling_setspeed'' s else 0);
          s = stage_restore_value ''scaling_min_freq'' (system_min_cpufreq s) s;
          s = stage_restore_value ''scaling_max_freq'' saved_max s;
          s = stage_restore_value ''scaling_min_freq'' saved_min s;
          s = (if saved_governor s \<noteq> [] then add_restore_op ''scaling_governor'' (saved_governor s) s
               else s)
      in stage_restore_value ''scaling_setspeed'' saved_speed s)"

definition reset_modes :: "freq_state \<Rightarrow> freq_state" where
  "reset_modes s =
     s\<lparr>cur_idx := (\<lambda>_. int (freq_table_num s) - 1), opt_idx_sum := (\<lambda>_. 0),
       stable_nums := (\<lambda>_. 0), non_overflow_nums := (\<lambda>_. 0),
       total_execs := (\<lambda>_. 0), total_overflow_execs := (\<lambda>_. 0),
       freq_interval := (if addr_only_mode s then MIN_FREQ_INTERVAL else FREQ_INTERVAL)\<rparr>"

definition freq_gov_init ::
  "sysfs_env \<Rightarrow> (int \<times> int) option \<Rightarrow> int \<Rightarrow> int \<Rightarrow> bool \<Rightarrow> freq_state \<Rightarrow> freq_state" where
  "freq_gov_init e pipe2_fds fork_pid cpu addr_only s =
     (let s = s\<lparr>g_cpu := cpu, addr_only_mode := addr_only\<rparr>
      in if env_var e ''AFLCS_FREQ_GOV'' = Some ''0'' then s\<lparr>g_enabled := False\<rparr>
         else
           let s = s\<lparr>system_max_cpufreq := read_sysfs e ''cpuinfo_max_freq'' s\<rparr>;
               s = s\<lparr>system_min_cpufreq := read_sysfs e ''cpuinfo_min_freq'' s\<rparr>;
               s = read_available_frequencies e s;
               s = s\<lparr>freq_diag := (env_var e ''AFLCS_FREQ_DIAG'' \<noteq> None)\<rparr>;
               s = save_governor e s;
               s = stage_restore_ops e s;
               s = freq_gov_spawn_guard pipe2_fds fork_pid s;
               s = s\<lparr>atexit_fns := atexit_fns s @ [Restore_System, Report]\<rparr>;
               s = freq_gov_hook_signal SIGTERM s;
               s = freq_gov_hook_signal SIGINT s;
               s = freq_gov_hook_signal SIGHUP s;
               s = write_sysfs_str e ''scaling_governor'' ''userspace'' s;
               s = s\<lparr>last_set_freq := 0\<rparr>
           in reset_modes s)"

text \<open>
  The calibration ramp. The callback gets the caller's context and the governor, which it may
  drive, and says whether its run overflowed; \<open>calibrate_ramp\<close> is the \<open>for\<close> loop with
  \<open>left\<close> rungs to go.
\<close>

type_synonym 'c one_shot = "'c \<Rightarrow> freq_state \<Rightarrow> bool \<times> 'c \<times> freq_state"

fun calibrate_ramp ::
  "sysfs_env \<Rightarrow> freq_mode \<Rightarrow> 'c one_shot \<Rightarrow> nat \<Rightarrow> nat \<Rightarrow> nat \<Rightarrow> 'c \<Rightarrow> freq_state
   \<Rightarrow> nat \<times> 'c \<times> freq_state" where
  "calibrate_ramp e mode run i 0 runs ctx s = (runs, ctx, s)"
| "calibrate_ramp e mode run i (Suc left) runs ctx s =
     (let s = set_freq e (freq_table s ! i) s;
          (stop, ctx, s) = run ctx s
      in if stop then (Suc runs, ctx, s)
         else calibrate_ramp e mode run (Suc i) left (Suc runs) ctx
                (s\<lparr>cur_idx := (cur_idx s)(mode := int i)\<rparr>))"

definition freq_gov_calibrate ::
  "sysfs_env \<Rightarrow> freq_mode \<Rightarrow> 'c one_shot \<Rightarrow> 'c \<Rightarrow> freq_state \<Rightarrow> nat \<times> 'c \<times> freq_state" where
  "freq_gov_calibrate e mode run ctx s =
     (if \<not> g_enabled s then (0, ctx, s)
      else calibrate_ramp e mode run 0 (freq_table_num s) 0 ctx
             (s\<lparr>cur_idx := (cur_idx s)(mode := 0)\<rparr>))"

section \<open>Per execution\<close>

definition freq_gov_apply :: "sysfs_env \<Rightarrow> freq_mode \<Rightarrow> freq_state \<Rightarrow> freq_state" where
  "freq_gov_apply e mode s =
     (if \<not> g_enabled s then s
      else if force_min_pending s
        then set_freq e (freq_table s ! 0) (s\<lparr>force_min_pending := False\<rparr>)
      else set_freq e (freq_table s ! nat (cur_idx s mode)) s)"

definition freq_gov_restore_max :: "sysfs_env \<Rightarrow> freq_state \<Rightarrow> freq_state" where
  "freq_gov_restore_max e s = (if \<not> g_enabled s then s else set_freq e (system_max_cpufreq s) s)"

definition freq_gov_force_min :: "freq_state \<Rightarrow> freq_state" where
  "freq_gov_force_min s = s\<lparr>force_min_pending := True\<rparr>"

text \<open>The two arms of \<open>freq_gov_on_result\<close> and the shared window update after them.\<close>

definition on_overflow :: "freq_mode \<Rightarrow> freq_state \<Rightarrow> freq_state" where
  "on_overflow mode s =
     (let s = s\<lparr>total_overflow_execs := (total_overflow_execs s)(mode := total_overflow_execs s mode + 1)\<rparr>;
          s = (if cur_idx s mode > 0
               then s\<lparr>cur_idx := (cur_idx s)(mode := cur_idx s mode - 1)\<rparr> else s)
      in s\<lparr>non_overflow_nums := (non_overflow_nums s)(mode := 0)\<rparr>)"

definition on_clean :: "freq_mode \<Rightarrow> freq_state \<Rightarrow> freq_state" where
  "on_clean mode s =
     (let s = s\<lparr>non_overflow_nums := (non_overflow_nums s)(mode := non_overflow_nums s mode + 1)\<rparr>
      in if non_overflow_nums s mode \<ge> freq_interval s
         then
           let s = s\<lparr>stable_nums := (stable_nums s)(mode := stable_nums s mode + 1)\<rparr>;
               s = s\<lparr>opt_idx_sum := (opt_idx_sum s)(mode := opt_idx_sum s mode + word_of_int (cur_idx s mode))\<rparr>;
               s = (if cur_idx s mode < int (freq_table_num s) - 1
                    then s\<lparr>cur_idx := (cur_idx s)(mode := cur_idx s mode + 1)\<rparr> else s)
           in s\<lparr>non_overflow_nums := (non_overflow_nums s)(mode := 0)\<rparr>
         else s)"

definition adapt_interval :: "freq_state \<Rightarrow> freq_state" where
  "adapt_interval s =
     (if \<not> addr_only_mode s \<and> total_overflow_execs s FREQ_MODE_ATOM > 0
      then
        let fi = (total_execs s FREQ_MODE_ATOM div total_overflow_execs s FREQ_MODE_ATOM) div 5;
            fi = (if fi < MIN_FREQ_INTERVAL then MIN_FREQ_INTERVAL
                  else if fi > MAX_FREQ_INTERVAL then MAX_FREQ_INTERVAL else fi)
        in s\<lparr>freq_interval := fi\<rparr>
      else s)"

definition freq_gov_on_result :: "freq_mode \<Rightarrow> bool \<Rightarrow> freq_state \<Rightarrow> freq_state" where
  "freq_gov_on_result mode overflowed s =
     (if \<not> g_enabled s then s
      else
        let s = s\<lparr>total_execs := (total_execs s)(mode := total_execs s mode + 1)\<rparr>
        in adapt_interval (if overflowed then on_overflow mode s else on_clean mode s))"

section \<open>Queries\<close>

definition freq_gov_should_retry :: "freq_mode \<Rightarrow> bool \<Rightarrow> int \<Rightarrow> freq_state \<Rightarrow> bool" where
  "freq_gov_should_retry mode overflowed cur_repetition_num s =
     (if \<not> g_enabled s then False
      else if \<not> overflowed then False
      else if mode \<noteq> FREQ_MODE_ADDR then False
      else if cur_idx s FREQ_MODE_ADDR \<le> 0 then False
      else if cur_repetition_num \<ge> FREQ_GOV_MAX_REPETITION_NUM then False
      else True)"

definition freq_gov_at_floor :: "freq_mode \<Rightarrow> freq_state \<Rightarrow> bool" where
  "freq_gov_at_floor mode s \<longleftrightarrow> \<not> g_enabled s \<or> cur_idx s mode = 0"

definition freq_gov_copy_start :: "freq_mode \<Rightarrow> freq_mode \<Rightarrow> freq_state \<Rightarrow> freq_state" where
  "freq_gov_copy_start dst src s = s\<lparr>cur_idx := (cur_idx s)(dst := cur_idx s src)\<rparr>"

section \<open>The table is sorted\<close>

lemma length_insert_key [simp]: "length (insert_key t h key) = length t"
  by (induction h arbitrary: t) auto

lemma drop_insert_key [simp]: "drop (Suc h) (insert_key t h key) = drop (Suc h) t"
proof (induction h arbitrary: t)
  case (Suc j)
  have "drop (Suc (Suc j)) (insert_key u j key) = drop (Suc (Suc j)) u" for u
    using Suc.IH [of u] by (metis drop_drop add_Suc add_0)
  then show ?case by simp
qed simp

lemma insort_snoc_less: "key < (y :: 'a::linorder) \<Longrightarrow> insort key (xs @ [y]) = insort key xs @ [y]"
  by (induction xs) auto

lemma insort_snoc_ge:
  assumes "sorted (xs @ [y :: 'a::linorder])" and "y \<le> key"
  shows "insort key (xs @ [y]) = xs @ [y, key]"
proof -
  have "sorted (xs @ [y, key])" using assms by (auto simp: sorted_append)
  moreover have "mset (xs @ [y, key]) = mset (insort key (xs @ [y]))" by simp
  ultimately show ?thesis
    using assms(1) by (metis properties_for_sort sorted_insort)
qed

text \<open>The inner loop is insertion into a sorted prefix.\<close>

lemma take_insert_key:
  "h < length t \<Longrightarrow> sorted (take h t) \<Longrightarrow>
   take (Suc h) (insert_key t h key) = insort key (take h t)"
proof (induction h arbitrary: t)
  case 0
  then show ?case by (cases t) auto
next
  case (Suc j)
  have split: "take (Suc j) t = take j t @ [t ! j]"
    using Suc.prems(1) by (simp add: take_Suc_conv_app_nth)
  show ?case
  proof (cases "t ! j > key")
    case True
    let ?u = "t[Suc j := t ! j]"
    have "sorted (take j t)" using Suc.prems(2) split by (simp add: sorted_append)
    then have "take (Suc j) (insert_key ?u j key) = insort key (take j t)"
      using Suc.IH [of ?u] Suc.prems(1) by simp
    moreover have "insert_key ?u j key ! Suc j = t ! j"
    proof -
      have "insert_key ?u j key ! Suc j = drop (Suc j) (insert_key ?u j key) ! 0"
        using Suc.prems(1) by (subst nth_drop) auto
      also have "\<dots> = ?u ! Suc j" using Suc.prems(1) by (simp add: nth_drop)
      finally show ?thesis using Suc.prems(1) by simp
    qed
    ultimately show ?thesis
      using True Suc.prems(1) split
      by (simp add: take_Suc_conv_app_nth [of "Suc j"] insort_snoc_less)
  next
    case False
    then show ?thesis
      using Suc.prems split insort_snoc_ge [of "take j t" "t ! j" key]
      by (simp add: take_Suc_update_snoc)
  qed
qed

lemma length_insertion_sort [simp]: "length (insertion_sort t i left) = length t"
  by (induction left arbitrary: t i) auto

lemma drop_insertion_sort: "drop (i + left) (insertion_sort t i left) = drop (i + left) t"
proof (induction left arbitrary: t i)
  case (Suc left)
  have "drop (Suc i + left) (insert_key t i key) = drop (Suc i + left) t" for key
    using drop_insert_key [of i t key] by (metis drop_drop add.commute)
  with Suc [where t = "insert_key t i (t ! i)" and i = "Suc i"] show ?case by simp
qed simp

lemma insertion_sort_prefix:
  "i + left \<le> length t \<Longrightarrow> sorted (take i t) \<Longrightarrow>
   sorted (take (i + left) (insertion_sort t i left)) \<and>
   mset (take (i + left) (insertion_sort t i left)) = mset (take (i + left) t)"
proof (induction left arbitrary: t i)
  case (Suc left)
  let ?u = "insert_key t i (t ! i)"
  have i: "i < length t" using Suc.prems by simp
  have tk: "take (Suc i) ?u = insort (t ! i) (take i t)"
    using take_insert_key [OF i Suc.prems(2)] .
  then have "sorted (take (Suc i) ?u)"
    using Suc.prems(2) by (simp add: sorted_insort)
  then have ih: "sorted (take (Suc i + left) (insertion_sort ?u (Suc i) left))"
    "mset (take (Suc i + left) (insertion_sort ?u (Suc i) left)) = mset (take (Suc i + left) ?u)"
    using Suc.IH [of "Suc i" ?u] Suc.prems(1) by simp_all
  have "take (Suc i + left) ?u = take (Suc i) ?u @ take left (drop (Suc i) ?u)"
    by (rule take_add)
  also have "mset \<dots> = mset (take (Suc i) t) + mset (take left (drop (Suc i) t))"
    using i by (simp add: tk mset_take_Suc_nth)
  also have "\<dots> = mset (take (Suc i + left) t)" by (subst take_add) simp
  finally show ?case using ih by simp
qed simp

lemma sorted_take_1: "sorted (take (Suc 0) xs)"
  by (cases xs) auto

lemma insertion_sort_sorts:
  assumes "0 < n" and "n \<le> length t"
  shows "sorted (take n (insertion_sort t 1 (n - 1)))"
    and "mset (take n (insertion_sort t 1 (n - 1))) = mset (take n t)"
  using insertion_sort_prefix [of 1 "n - 1" t] assms by (simp_all add: sorted_take_1)

section \<open>Parsing the table\<close>

definition within :: "u64 \<Rightarrow> u64 \<Rightarrow> u64 \<Rightarrow> bool" where
  "within mn mx f \<longleftrightarrow> mn \<le> f \<and> f \<le> mx"

lemma read_freqs_props:
  assumes "length t = FREQ_TABLE_MAX" and "k \<le> FREQ_TABLE_MAX"
    and "\<forall>f \<in> set (take k t). within mn mx f"
    and "read_freqs mn mx t k inp = (t', n)"
  shows "length t' = FREQ_TABLE_MAX \<and> k \<le> n \<and> n \<le> FREQ_TABLE_MAX \<and>
    (\<forall>f \<in> set (take n t'). within mn mx f)"
  using assms
proof (induction mn mx t k inp rule: read_freqs.induct)
  case (1 mn mx t k inp)
  show ?case
  proof (cases "k < FREQ_TABLE_MAX \<and> scan_ull inp \<noteq> None")
    case False
    with "1"(3-) show ?thesis
      by (auto simp: read_freqs.simps [of mn mx t k inp] split: if_splits option.splits)
  next
    case True
    then obtain f rest where sc: "scan_ull inp = Some (f, rest)" and k: "k < 64" by auto
    show ?thesis
    proof (cases "f < mn \<or> f > mx")
      case True
      with "1" k sc show ?thesis
        by (simp add: read_freqs.simps [of mn mx t k inp])
    next
      case False
      then have "within mn mx f" by (auto simp: within_def)
      then have "\<forall>g \<in> set (take (Suc k) (t[k := f])). within mn mx g"
        using "1"(3,5) k by (simp add: take_Suc_update_snoc)
      with "1"(2) [OF k sc refl False] "1"(3,6) k False sc show ?thesis
        by (simp add: read_freqs.simps [of mn mx t k inp])
    qed
  qed
qed

section \<open>Paths\<close>

lemma cpufreq_path_full:
  assumes "length (int_string cpu) + length f + 37 \<le> n"
  shows "cpufreq_path n cpu f = ''/sys/devices/system/cpu/cpu'' @ int_string cpu @ ''/cpufreq/'' @ f"
  using assms by (simp add: cpufreq_path_def snprintf_str_def)

lemma cpufreq_path_inj:
  assumes "length (int_string cpu) + length f + 37 \<le> n" "length (int_string cpu) + length g + 37 \<le> m"
  shows "cpufreq_path n cpu f = cpufreq_path m cpu g \<longleftrightarrow> f = g"
  using assms by (simp add: cpufreq_path_full)

lemma length_int_string: "0 \<le> cpu \<Longrightarrow> cpu < 10000 \<Longrightarrow> length (int_string cpu) \<le> 4"
  by (simp add: int_string_def length_dec_string nat_less_iff)

text \<open>Every CPU number of up to four digits leaves room for every file name used here.\<close>

lemma cpufreq_path_eq_iff:
  assumes "0 \<le> cpu" "cpu < 10000" "length f \<le> 30" "length g \<le> 30"
  shows "cpufreq_path 128 cpu f = cpufreq_path 128 cpu g \<longleftrightarrow> f = g"
  using assms length_int_string [OF assms(1,2)] by (intro cpufreq_path_inj) auto

section \<open>Frame and invariant\<close>

lemma write_sysfs_eq:
  "write_sysfs e f v s =
     s\<lparr>sysfs_log := sysfs_log s @
         filter (\<lambda>(p, _). wr_open e p) [(cpufreq_path 128 (g_cpu s) f, dec_string (unat v))]\<rparr>"
  by (simp add: write_sysfs_def Let_def)

text \<open>The four writes of one frequency change, in order.\<close>

definition pin_writes :: "int \<Rightarrow> u64 \<Rightarrow> u64 \<Rightarrow> (string \<times> string) list" where
  "pin_writes cpu mn target =
     [(cpufreq_path 128 cpu ''scaling_min_freq'', dec_string (unat mn)),
      (cpufreq_path 128 cpu ''scaling_max_freq'', dec_string (unat target)),
      (cpufreq_path 128 cpu ''scaling_min_freq'', dec_string (unat target)),
      (cpufreq_path 128 cpu ''scaling_setspeed'', dec_string (unat target))]"

lemma set_freq_eq:
  "set_freq e target s =
     (if target = last_set_freq s then s
      else s\<lparr>sysfs_log := sysfs_log s @
               filter (\<lambda>(p, _). wr_open e p) (pin_writes (g_cpu s) (system_min_cpufreq s) target),
             last_set_freq := target\<rparr>)"
  by (simp add: set_freq_def write_sysfs_eq pin_writes_def Let_def)

lemma set_freq_frame [frame_simps]:
  "g_cpu (set_freq e t s) = g_cpu s"
  "system_min_cpufreq (set_freq e t s) = system_min_cpufreq s"
  "system_max_cpufreq (set_freq e t s) = system_max_cpufreq s"
  "freq_table (set_freq e t s) = freq_table s"
  "freq_table_num (set_freq e t s) = freq_table_num s"
  "cur_idx (set_freq e t s) = cur_idx s"
  "freq_interval (set_freq e t s) = freq_interval s"
  "g_enabled (set_freq e t s) = g_enabled s"
  "force_min_pending (set_freq e t s) = force_min_pending s"
  "restore_ops (set_freq e t s) = restore_ops s"
  "last_set_freq (set_freq e t s) = t"
  by (simp_all add: set_freq_eq)

definition gov_inv :: "freq_state \<Rightarrow> bool" where
  "gov_inv s \<longleftrightarrow>
     length (freq_table s) = FREQ_TABLE_MAX \<and>
     0 < freq_table_num s \<and> freq_table_num s \<le> FREQ_TABLE_MAX \<and>
     sorted (take (freq_table_num s) (freq_table s)) \<and>
     (\<forall>f \<in> set (take (freq_table_num s) (freq_table s)).
        within (system_min_cpufreq s) (system_max_cpufreq s) f) \<and>
     system_min_cpufreq s \<le> system_max_cpufreq s \<and>
     (\<forall>m. 0 \<le> cur_idx s m \<and> cur_idx s m < int (freq_table_num s)) \<and>
     MIN_FREQ_INTERVAL \<le> freq_interval s \<and> freq_interval s \<le> MAX_FREQ_INTERVAL"

text \<open>Every index the governor reads with is in the table, and its entry in bounds.\<close>

lemma gov_inv_entry:
  assumes "gov_inv s" and "i < freq_table_num s"
  shows "within (system_min_cpufreq s) (system_max_cpufreq s) (freq_table s ! i)"
proof -
  have "freq_table s ! i \<in> set (take (freq_table_num s) (freq_table s))"
    using assms by (force simp: gov_inv_def in_set_conv_nth)
  with assms(1) show ?thesis by (auto simp: gov_inv_def)
qed

lemma gov_inv_cur_entry:
  "gov_inv s \<Longrightarrow>
   within (system_min_cpufreq s) (system_max_cpufreq s) (freq_table s ! nat (cur_idx s m))"
  by (rule gov_inv_entry) (auto simp: gov_inv_def nat_less_iff)

lemma gov_inv_set_freq [inv_intros]: "gov_inv s \<Longrightarrow> gov_inv (set_freq e t s)"
  by (simp add: gov_inv_def frame_simps)

lemma gov_inv_apply [inv_intros]: "gov_inv s \<Longrightarrow> gov_inv (freq_gov_apply e m s)"
  by (auto simp: freq_gov_apply_def gov_inv_def frame_simps)

lemma gov_inv_restore_max [inv_intros]: "gov_inv s \<Longrightarrow> gov_inv (freq_gov_restore_max e s)"
  by (simp add: freq_gov_restore_max_def gov_inv_set_freq)

lemma gov_inv_force_min [inv_intros]: "gov_inv s \<Longrightarrow> gov_inv (freq_gov_force_min s)"
  by (simp add: freq_gov_force_min_def gov_inv_def)

lemma gov_inv_copy_start [inv_intros]: "gov_inv s \<Longrightarrow> gov_inv (freq_gov_copy_start d c s)"
  by (simp add: freq_gov_copy_start_def gov_inv_def)

lemma gov_inv_restore_system [inv_intros]: "gov_inv s \<Longrightarrow> gov_inv (freq_gov_restore_system e s)"
  by (simp add: freq_gov_restore_system_def gov_inv_def)

lemma gov_inv_on_overflow [inv_intros]: "gov_inv s \<Longrightarrow> gov_inv (on_overflow m s)"
  by (auto simp: on_overflow_def gov_inv_def Let_def dest: spec [of _ m])

lemma gov_inv_on_clean [inv_intros]: "gov_inv s \<Longrightarrow> gov_inv (on_clean m s)"
  by (simp add: on_clean_def gov_inv_def Let_def)

lemma gov_inv_adapt_interval [inv_intros]: "gov_inv s \<Longrightarrow> gov_inv (adapt_interval s)"
  by (auto simp: adapt_interval_def gov_inv_def Let_def not_less)

lemma gov_inv_on_result [inv_intros]: "gov_inv s \<Longrightarrow> gov_inv (freq_gov_on_result m b s)"
proof -
  assume inv: "gov_inv s"
  then have "gov_inv (s\<lparr>total_execs := (total_execs s)(m := total_execs s m + 1)\<rparr>)"
    by (simp add: gov_inv_def)
  with inv show ?thesis by (simp add: freq_gov_on_result_def Let_def inv_intros)
qed

lemma gov_inv_set_idx [inv_intros]:
  "gov_inv s \<Longrightarrow> i < freq_table_num s \<Longrightarrow> gov_inv (s\<lparr>cur_idx := (cur_idx s)(m := int i)\<rparr>)"
  by (simp add: gov_inv_def)

section \<open>Initialisation establishes the invariant\<close>

lemma read_sysfs_cong: "g_cpu s = g_cpu s' \<Longrightarrow> read_sysfs e f s = read_sysfs e f s'"
  by (simp add: read_sysfs_def)

definition table_ok :: "freq_state \<Rightarrow> bool" where
  "table_ok s \<longleftrightarrow>
     length (freq_table s) = FREQ_TABLE_MAX \<and>
     0 < freq_table_num s \<and> freq_table_num s \<le> FREQ_TABLE_MAX \<and>
     sorted (take (freq_table_num s) (freq_table s)) \<and>
     (\<forall>f \<in> set (take (freq_table_num s) (freq_table s)).
        within (system_min_cpufreq s) (system_max_cpufreq s) f)"

lemma table_ok_sort:
  assumes "length t = FREQ_TABLE_MAX" and "0 < n" and "n \<le> FREQ_TABLE_MAX"
    and "\<forall>f \<in> set (take n t). within (system_min_cpufreq s) (system_max_cpufreq s) f"
  shows "table_ok (s\<lparr>freq_table := insertion_sort t 1 (n - 1), freq_table_num := n\<rparr>)"
proof -
  have "set (take n (insertion_sort t 1 (n - 1))) = set (take n t)"
    using insertion_sort_sorts(2) [of n t] assms by (metis set_mset_mset)
  then show ?thesis
    using assms insertion_sort_sorts(1) [of n t] by (simp add: table_ok_def)
qed

lemma table_ok_read_available:
  assumes "length (freq_table s) = FREQ_TABLE_MAX"
    and "system_min_cpufreq s \<le> system_max_cpufreq s"
  shows "table_ok (read_available_frequencies e s)"
proof -
  define tn where "tn =
    (case rd_file e (cpufreq_path 128 (g_cpu s) ''scaling_available_frequencies'') of
       None \<Rightarrow> (freq_table s, 0)
     | Some inp \<Rightarrow> read_freqs (system_min_cpufreq s) (system_max_cpufreq s) (freq_table s) 0 inp)"
  obtain t n where tn: "tn = (t, n)" by (cases tn)
  have t: "length t = FREQ_TABLE_MAX \<and> n \<le> FREQ_TABLE_MAX \<and>
    (\<forall>f \<in> set (take n t). within (system_min_cpufreq s) (system_max_cpufreq s) f)"
    using read_freqs_props [of "freq_table s" 0] assms(1) tn
    by (auto simp: tn_def split: option.splits)
  show ?thesis
  proof (cases "n = 0")
    case True
    have "take 2 (t[0 := system_min_cpufreq s, 1 := system_max_cpufreq s]) =
      [system_min_cpufreq s, system_max_cpufreq s]"
      using t by (simp add: take_Suc_conv_app_nth numeral_2_eq_2)
    then show ?thesis
      using True t tn assms(2) table_ok_sort [of "t[0 := system_min_cpufreq s, 1 := system_max_cpufreq s]" 2 s]
      by (simp add: read_available_frequencies_def tn_def [symmetric] Let_def within_def)
  next
    case False
    then show ?thesis
      using t tn table_ok_sort [of t n s]
      by (simp add: read_available_frequencies_def tn_def [symmetric] Let_def)
  qed
qed

lemma add_restore_op_frame [frame_simps]:
  "freq_table (add_restore_op f v s) = freq_table s"
  "freq_table_num (add_restore_op f v s) = freq_table_num s"
  "system_min_cpufreq (add_restore_op f v s) = system_min_cpufreq s"
  "system_max_cpufreq (add_restore_op f v s) = system_max_cpufreq s"
  "sysfs_log (add_restore_op f v s) = sysfs_log s"
  "g_cpu (add_restore_op f v s) = g_cpu s"
  "g_enabled (add_restore_op f v s) = g_enabled s"
  "addr_only_mode (add_restore_op f v s) = addr_only_mode s"
  "saved_governor (add_restore_op f v s) = saved_governor s"
  by (simp_all add: add_restore_op_def)

lemma init_helpers_frame [frame_simps]:
  "freq_table (save_governor e s) = freq_table s"
  "freq_table_num (save_governor e s) = freq_table_num s"
  "system_min_cpufreq (save_governor e s) = system_min_cpufreq s"
  "system_max_cpufreq (save_governor e s) = system_max_cpufreq s"
  "sysfs_log (save_governor e s) = sysfs_log s"
  "g_cpu (save_governor e s) = g_cpu s"
  "g_enabled (save_governor e s) = g_enabled s"
  "restore_ops (save_governor e s) = restore_ops s"
  "freq_table (freq_gov_spawn_guard p k s) = freq_table s"
  "freq_table_num (freq_gov_spawn_guard p k s) = freq_table_num s"
  "system_min_cpufreq (freq_gov_spawn_guard p k s) = system_min_cpufreq s"
  "system_max_cpufreq (freq_gov_spawn_guard p k s) = system_max_cpufreq s"
  "sysfs_log (freq_gov_spawn_guard p k s) = sysfs_log s"
  "g_cpu (freq_gov_spawn_guard p k s) = g_cpu s"
  "g_enabled (freq_gov_spawn_guard p k s) = g_enabled s"
  "restore_ops (freq_gov_spawn_guard p k s) = restore_ops s"
  "freq_table (freq_gov_hook_signal g s) = freq_table s"
  "freq_table_num (freq_gov_hook_signal g s) = freq_table_num s"
  "system_min_cpufreq (freq_gov_hook_signal g s) = system_min_cpufreq s"
  "system_max_cpufreq (freq_gov_hook_signal g s) = system_max_cpufreq s"
  "sysfs_log (freq_gov_hook_signal g s) = sysfs_log s"
  "g_cpu (freq_gov_hook_signal g s) = g_cpu s"
  "g_enabled (freq_gov_hook_signal g s) = g_enabled s"
  "restore_ops (freq_gov_hook_signal g s) = restore_ops s"
  by (simp_all add: save_governor_def freq_gov_spawn_guard_def freq_gov_hook_signal_def
      split: option.split)

lemma stage_restore_frame [frame_simps]:
  "freq_table (stage_restore_ops e s) = freq_table s"
  "freq_table_num (stage_restore_ops e s) = freq_table_num s"
  "system_min_cpufreq (stage_restore_ops e s) = system_min_cpufreq s"
  "system_max_cpufreq (stage_restore_ops e s) = system_max_cpufreq s"
  "sysfs_log (stage_restore_ops e s) = sysfs_log s"
  "g_cpu (stage_restore_ops e s) = g_cpu s"
  "g_enabled (stage_restore_ops e s) = g_enabled s"
  by (simp_all add: stage_restore_ops_def stage_restore_value_def Let_def frame_simps)

lemma read_available_frame [frame_simps]:
  "system_min_cpufreq (read_available_frequencies e s) = system_min_cpufreq s"
  "system_max_cpufreq (read_available_frequencies e s) = system_max_cpufreq s"
  "g_cpu (read_available_frequencies e s) = g_cpu s"
  "sysfs_log (read_available_frequencies e s) = sysfs_log s"
  "g_enabled (read_available_frequencies e s) = g_enabled s"
  "restore_ops (read_available_frequencies e s) = restore_ops s"
  by (simp_all add: read_available_frequencies_def Let_def split: prod.splits)

lemma write_sysfs_str_frame [frame_simps]:
  "freq_table (write_sysfs_str e f v s) = freq_table s"
  "freq_table_num (write_sysfs_str e f v s) = freq_table_num s"
  "system_min_cpufreq (write_sysfs_str e f v s) = system_min_cpufreq s"
  "system_max_cpufreq (write_sysfs_str e f v s) = system_max_cpufreq s"
  "g_cpu (write_sysfs_str e f v s) = g_cpu s"
  "g_enabled (write_sysfs_str e f v s) = g_enabled s"
  "restore_ops (write_sysfs_str e f v s) = restore_ops s"
  by (simp_all add: write_sysfs_str_def Let_def)

lemma table_ok_cong:
  "freq_table s = freq_table s' \<Longrightarrow> freq_table_num s = freq_table_num s' \<Longrightarrow>
   system_min_cpufreq s = system_min_cpufreq s' \<Longrightarrow> system_max_cpufreq s = system_max_cpufreq s' \<Longrightarrow>
   table_ok s \<longleftrightarrow> table_ok s'"
  by (simp add: table_ok_def)

lemma gov_inv_reset_modes:
  "table_ok s \<Longrightarrow> system_min_cpufreq s \<le> system_max_cpufreq s \<Longrightarrow> gov_inv (reset_modes s)"
  by (simp add: reset_modes_def table_ok_def gov_inv_def)

lemma freq_gov_init_enabled:
  fixes e s
  defines "mx \<equiv> \<lambda>cpu. read_sysfs e ''cpuinfo_max_freq'' (s\<lparr>g_cpu := cpu\<rparr>)"
    and "mn \<equiv> \<lambda>cpu. read_sysfs e ''cpuinfo_min_freq'' (s\<lparr>g_cpu := cpu\<rparr>)"
  assumes "env_var e ''AFLCS_FREQ_GOV'' \<noteq> Some ''0''"
    and "length (freq_table s) = FREQ_TABLE_MAX" and "mn cpu \<le> mx cpu"
  shows "gov_inv (freq_gov_init e fds pid cpu addr_only s)"
    and "system_min_cpufreq (freq_gov_init e fds pid cpu addr_only s) = mn cpu"
    and "system_max_cpufreq (freq_gov_init e fds pid cpu addr_only s) = mx cpu"
    and "g_cpu (freq_gov_init e fds pid cpu addr_only s) = cpu"
    and "sysfs_log (freq_gov_init e fds pid cpu addr_only s) = sysfs_log s @
      filter (\<lambda>(p, _). wr_open e p) [(cpufreq_path 128 cpu ''scaling_governor'', ''userspace'')]"
proof -
  let ?s2 = "s\<lparr>g_cpu := cpu, addr_only_mode := addr_only, system_max_cpufreq := mx cpu,
     system_min_cpufreq := mn cpu\<rparr>"
  have "table_ok (read_available_frequencies e ?s2)"
    using assms(4,5) by (intro table_ok_read_available) simp_all
  moreover have rd: "read_sysfs e f (s\<lparr>g_cpu := cpu, addr_only_mode := a, system_max_cpufreq := b\<rparr>) =
    read_sysfs e f (s\<lparr>g_cpu := cpu\<rparr>)" "read_sysfs e f (s\<lparr>g_cpu := cpu, addr_only_mode := a\<rparr>) =
    read_sysfs e f (s\<lparr>g_cpu := cpu\<rparr>)" for f a b
    by (rule read_sysfs_cong; simp)+
  ultimately show "gov_inv (freq_gov_init e fds pid cpu addr_only s)"
    using assms(3,5)
    by (simp add: freq_gov_init_def Let_def mn_def mx_def frame_simps,
        intro gov_inv_reset_modes) (auto simp: frame_simps table_ok_def)
  show "system_min_cpufreq (freq_gov_init e fds pid cpu addr_only s) = mn cpu"
    "system_max_cpufreq (freq_gov_init e fds pid cpu addr_only s) = mx cpu"
    "g_cpu (freq_gov_init e fds pid cpu addr_only s) = cpu"
    "sysfs_log (freq_gov_init e fds pid cpu addr_only s) = sysfs_log s @
      filter (\<lambda>(p, _). wr_open e p) [(cpufreq_path 128 cpu ''scaling_governor'', ''userspace'')]"
    using assms(3)
    by (simp_all add: freq_gov_init_def Let_def mn_def mx_def frame_simps reset_modes_def rd
        write_sysfs_str_def)
qed

section \<open>Runs of the governor\<close>

text \<open>
  A run is any sequence of the calls the proxy makes after initialisation. A calibration with
  \<open>n\<close> clean rungs uses the proxy's callback as the governor sees it: it restores the
  maximum frequency and reports an overflow after \<open>n\<close> clean runs.
\<close>

datatype gov_op =
    Op_Apply freq_mode
  | Op_Restore_Max
  | Op_Force_Min
  | Op_On_Result freq_mode bool
  | Op_Copy_Start freq_mode freq_mode
  | Op_Calibrate freq_mode nat

definition ramp_callback :: "sysfs_env \<Rightarrow> nat one_shot" where
  "ramp_callback e n s = (n = 0, n - 1, freq_gov_restore_max e s)"

fun gov_exec :: "sysfs_env \<Rightarrow> gov_op \<Rightarrow> freq_state \<Rightarrow> freq_state" where
  "gov_exec e (Op_Apply m) s = freq_gov_apply e m s"
| "gov_exec e Op_Restore_Max s = freq_gov_restore_max e s"
| "gov_exec e Op_Force_Min s = freq_gov_force_min s"
| "gov_exec e (Op_On_Result m b) s = freq_gov_on_result m b s"
| "gov_exec e (Op_Copy_Start d c) s = freq_gov_copy_start d c s"
| "gov_exec e (Op_Calibrate m n) s = snd (snd (freq_gov_calibrate e m (ramp_callback e) n s))"

definition gov_run :: "sysfs_env \<Rightarrow> gov_op list \<Rightarrow> freq_state \<Rightarrow> freq_state" where
  "gov_run e ops s = fold (gov_exec e) ops s"

text \<open>
  A governor that has been driven from \<open>s\<close> to \<open>t\<close>: the bounds are those of \<open>s\<close>,
  and what was logged in between pins frequencies inside them.
\<close>

definition pins_within :: "freq_state \<Rightarrow> (string \<times> string) list \<Rightarrow> bool" where
  "pins_within s ws \<longleftrightarrow>
     (\<forall>(p, v) \<in> set ws.
        \<exists>f. within (system_min_cpufreq s) (system_max_cpufreq s) f \<and> v = dec_string (unat f))"

definition gov_evolves :: "freq_state \<Rightarrow> freq_state \<Rightarrow> bool" where
  "gov_evolves s t \<longleftrightarrow>
     gov_inv t \<and> g_cpu t = g_cpu s \<and>
     system_min_cpufreq t = system_min_cpufreq s \<and> system_max_cpufreq t = system_max_cpufreq s \<and>
     freq_table t = freq_table s \<and> freq_table_num t = freq_table_num s \<and>
     restore_ops t = restore_ops s \<and>
     (\<exists>ws. sysfs_log t = sysfs_log s @ ws \<and> pins_within s ws)"

lemma gov_evolves_refl: "gov_inv s \<Longrightarrow> gov_evolves s s"
  by (auto simp: gov_evolves_def pins_within_def)

lemma gov_evolves_trans: "gov_evolves s t \<Longrightarrow> gov_evolves t u \<Longrightarrow> gov_evolves s u"
  by (fastforce simp: gov_evolves_def pins_within_def)

lemma gov_evolves_quiet:
  "gov_inv t \<Longrightarrow> g_cpu t = g_cpu s \<Longrightarrow>
   system_min_cpufreq t = system_min_cpufreq s \<Longrightarrow> system_max_cpufreq t = system_max_cpufreq s \<Longrightarrow>
   freq_table t = freq_table s \<Longrightarrow> freq_table_num t = freq_table_num s \<Longrightarrow>
   restore_ops t = restore_ops s \<Longrightarrow> sysfs_log t = sysfs_log s \<Longrightarrow> gov_evolves s t"
  by (simp add: gov_evolves_def pins_within_def)

lemma gov_evolves_set_freq:
  assumes "gov_inv s" and "within (system_min_cpufreq s) (system_max_cpufreq s) f"
  shows "gov_evolves s (set_freq e f s)"
proof -
  have "pins_within s (filter (\<lambda>(p, _). wr_open e p) (pin_writes (g_cpu s) (system_min_cpufreq s) f))"
    using assms by (auto simp: pins_within_def pin_writes_def gov_inv_def within_def)
  with gov_inv_set_freq [OF assms(1), of e f] show ?thesis
    by (auto simp: gov_evolves_def set_freq_eq pins_within_def split: if_splits)
qed

lemma gov_evolves_apply:
  assumes "gov_inv s"
  shows "gov_evolves s (freq_gov_apply e m s)"
proof (cases "g_enabled s \<and> force_min_pending s")
  case True
  let ?u = "s\<lparr>force_min_pending := False\<rparr>"
  have u: "gov_inv ?u" "gov_evolves s ?u"
    using assms by (auto simp: gov_inv_def intro!: gov_evolves_quiet)
  have "within (system_min_cpufreq ?u) (system_max_cpufreq ?u) (freq_table ?u ! 0)"
    using u(1) by (rule gov_inv_entry) (use u(1) in \<open>simp add: gov_inv_def\<close>)
  with u True show ?thesis
    using gov_evolves_trans [OF u(2) gov_evolves_set_freq [OF u(1)]]
    by (simp add: freq_gov_apply_def)
next
  case False
  then show ?thesis
    using assms gov_evolves_set_freq [OF assms gov_inv_cur_entry [OF assms]]
    by (auto simp: freq_gov_apply_def gov_evolves_refl)
qed

lemma gov_evolves_restore_max:
  assumes "gov_inv s"
  shows "gov_evolves s (freq_gov_restore_max e s)"
  using assms gov_evolves_set_freq [OF assms, of "system_max_cpufreq s" e]
  by (auto simp: freq_gov_restore_max_def gov_evolves_refl within_def gov_inv_def)

lemma on_result_frame [frame_simps]:
  "g_cpu (freq_gov_on_result m b s) = g_cpu s"
  "system_min_cpufreq (freq_gov_on_result m b s) = system_min_cpufreq s"
  "system_max_cpufreq (freq_gov_on_result m b s) = system_max_cpufreq s"
  "freq_table (freq_gov_on_result m b s) = freq_table s"
  "freq_table_num (freq_gov_on_result m b s) = freq_table_num s"
  "sysfs_log (freq_gov_on_result m b s) = sysfs_log s"
  "restore_ops (freq_gov_on_result m b s) = restore_ops s"
  "g_enabled (freq_gov_on_result m b s) = g_enabled s"
  "force_min_pending (freq_gov_on_result m b s) = force_min_pending s"
  by (simp_all add: freq_gov_on_result_def on_overflow_def on_clean_def adapt_interval_def Let_def)

lemma gov_evolves_on_result: "gov_inv s \<Longrightarrow> gov_evolves s (freq_gov_on_result m b s)"
  by (intro gov_evolves_quiet) (auto simp: frame_simps intro: inv_intros)

lemma gov_evolves_copy_start: "gov_inv s \<Longrightarrow> gov_evolves s (freq_gov_copy_start d c s)"
  using gov_inv_copy_start [of s d c]
  by (intro gov_evolves_quiet) (auto simp: freq_gov_copy_start_def)

lemma gov_evolves_force_min: "gov_inv s \<Longrightarrow> gov_evolves s (freq_gov_force_min s)"
  using gov_inv_force_min [of s] by (intro gov_evolves_quiet) (auto simp: freq_gov_force_min_def)

lemma gov_evolves_set_idx:
  "gov_inv s \<Longrightarrow> i < freq_table_num s \<Longrightarrow>
   gov_evolves s (s\<lparr>cur_idx := (cur_idx s)(m := int i)\<rparr>)"
  using gov_inv_set_idx [of s i m] by (intro gov_evolves_quiet) auto

text \<open>A callback that only evolves the governor keeps the whole ramp an evolution.\<close>

lemma gov_evolves_calibrate_ramp:
  assumes cb: "\<And>ctx s. gov_inv s \<Longrightarrow> gov_evolves s (snd (snd (run ctx s)))"
  shows "gov_inv s \<Longrightarrow> i + left \<le> freq_table_num s \<Longrightarrow>
    gov_evolves s (snd (snd (calibrate_ramp e m run i left runs ctx s)))"
proof (induction left arbitrary: i runs ctx s)
  case (Suc left)
  let ?s = "set_freq e (freq_table s ! i) s"
  obtain b c u where r: "run ctx ?s = (b, c, u)" by (cases "run ctx ?s")
  have s: "gov_evolves s ?s"
    using Suc.prems by (intro gov_evolves_set_freq gov_inv_entry) auto
  moreover have "gov_evolves ?s u"
    using cb [of ?s ctx] s r by (simp add: gov_evolves_def)
  ultimately have su: "gov_evolves s u" by (rule gov_evolves_trans)
  let ?v = "u\<lparr>cur_idx := (cur_idx u)(m := int i)\<rparr>"
  have uv: "gov_evolves u ?v"
    using su Suc.prems(2) by (intro gov_evolves_set_idx) (auto simp: gov_evolves_def)
  have "gov_evolves ?v (snd (snd (calibrate_ramp e m run (Suc i) left (Suc runs) c ?v)))"
    using uv su Suc.prems(2) by (intro Suc.IH) (auto simp: gov_evolves_def)
  with su uv r show ?case by (auto simp: Let_def intro: gov_evolves_trans)
qed (simp add: gov_evolves_refl)

lemma gov_evolves_calibrate:
  assumes "\<And>ctx s. gov_inv s \<Longrightarrow> gov_evolves s (snd (snd (run ctx s)))" and "gov_inv s"
  shows "gov_evolves s (snd (snd (freq_gov_calibrate e m run ctx s)))"
proof -
  let ?u = "s\<lparr>cur_idx := (cur_idx s)(m := int 0)\<rparr>"
  have u: "gov_evolves s ?u"
    using assms(2) by (intro gov_evolves_set_idx) (auto simp: gov_inv_def)
  then have "gov_evolves ?u (snd (snd (calibrate_ramp e m run 0 (freq_table_num s) 0 ctx ?u)))"
    using assms(1) by (intro gov_evolves_calibrate_ramp) (auto simp: gov_evolves_def)
  with u assms(2) show ?thesis
    by (auto simp: freq_gov_calibrate_def gov_evolves_refl intro: gov_evolves_trans)
qed

lemma gov_evolves_exec: "gov_inv s \<Longrightarrow> gov_evolves s (gov_exec e op s)"
proof (cases op)
  case (Op_Calibrate m n)
  assume "gov_inv s"
  then have "gov_evolves s (snd (snd (freq_gov_calibrate e m (ramp_callback e) n s)))"
    by (rule gov_evolves_calibrate [rotated]) (simp add: ramp_callback_def gov_evolves_restore_max)
  with Op_Calibrate show ?thesis by simp
qed (simp_all add: gov_evolves_apply gov_evolves_restore_max gov_evolves_force_min
    gov_evolves_on_result gov_evolves_copy_start)

lemma gov_evolves_run: "gov_inv s \<Longrightarrow> gov_evolves s (gov_run e ops s)"
  unfolding gov_run_def
proof (induction ops arbitrary: s)
  case (Cons op ops)
  have one: "gov_evolves s (gov_exec e op s)" using Cons.prems by (rule gov_evolves_exec)
  then have "gov_evolves (gov_exec e op s) (fold (gov_exec e) ops (gov_exec e op s))"
    using Cons.IH by (simp add: gov_evolves_def)
  with one show ?case by (simp add: gov_evolves_trans)
qed (simp add: gov_evolves_refl)

section \<open>The table against a reference\<close>

text \<open>All the numbers of the file, in order.\<close>

function scan_all :: "string \<Rightarrow> u64 list" where
  "scan_all inp = (case scan_ull inp of None \<Rightarrow> [] | Some (v, rest) \<Rightarrow> v # scan_all rest)"
  by pat_completeness auto
termination
  by (relation "measure length") (auto dest: scan_ull_shrinks)

declare scan_all.simps [simp del]

lemma read_freqs_prefix:
  assumes "length t = FREQ_TABLE_MAX" and "k \<le> FREQ_TABLE_MAX"
  shows "take (snd (read_freqs mn mx t k inp)) (fst (read_freqs mn mx t k inp)) =
    take k t @ take (FREQ_TABLE_MAX - k) (filter (within mn mx) (scan_all inp))"
  using assms
proof (induction mn mx t k inp rule: read_freqs.induct)
  case (1 mn mx t k inp)
  show ?case
  proof (cases "k < FREQ_TABLE_MAX \<and> scan_ull inp \<noteq> None")
    case False
    with "1.prems" show ?thesis
      by (auto simp: read_freqs.simps [of mn mx t k inp] scan_all.simps [of inp] split: option.splits)
  next
    case True
    then obtain f rest where sc: "scan_ull inp = Some (f, rest)" and k: "k < FREQ_TABLE_MAX" by auto
    then have sa: "scan_all inp = f # scan_all rest" by (subst scan_all.simps) simp
    show ?thesis
    proof (cases "f < mn \<or> f > mx")
      case out: True
      then show ?thesis
        using "1.IH"(1) [OF k sc refl out] "1.prems" k sc sa
        by (auto simp: read_freqs.simps [of mn mx t k inp] within_def)
    next
      case inside: False
      moreover have "64 - k = Suc (64 - Suc k)" using k by simp
      ultimately show ?thesis
        using "1.IH"(2) [OF k sc refl inside] "1.prems" k sc sa
        by (simp add: read_freqs.simps [of mn mx t k inp] within_def take_Suc_update_snoc not_less
            flip: not_le)
    qed
  qed
qed

text \<open>
  C28: the table the governor works on is the sorted list of the in-bounds frequencies of
  \<open>scaling_available_frequencies\<close>, the first 64 of them, whatever the driver's order; with
  no usable entry it is the two hardware bounds.
\<close>

theorem read_available_frequencies_reference:
  assumes "length (freq_table s) = FREQ_TABLE_MAX"
  shows "let t = read_available_frequencies e s;
             avail = (case rd_file e (cpufreq_path 128 (g_cpu s) ''scaling_available_frequencies'') of
                        None \<Rightarrow> []
                      | Some inp \<Rightarrow> take FREQ_TABLE_MAX
                          (filter (within (system_min_cpufreq s) (system_max_cpufreq s)) (scan_all inp)))
         in take (freq_table_num t) (freq_table t) =
              sort (if avail = [] then [system_min_cpufreq s, system_max_cpufreq s] else avail)"
proof -
  define content where "content = rd_file e (cpufreq_path 128 (g_cpu s) ''scaling_available_frequencies'')"
  define avail where "avail = (case content of None \<Rightarrow> [] | Some inp \<Rightarrow>
    take FREQ_TABLE_MAX (filter (within (system_min_cpufreq s) (system_max_cpufreq s)) (scan_all inp)))"
  define tn where "tn = (case content of None \<Rightarrow> (freq_table s, 0) | Some inp \<Rightarrow>
     read_freqs (system_min_cpufreq s) (system_max_cpufreq s) (freq_table s) 0 inp)"
  obtain t n where tn: "tn = (t, n)" by (cases tn)
  have "take (snd tn) (fst tn) = avail"
    using read_freqs_prefix [of "freq_table s" 0] assms
    by (cases content) (simp_all add: tn_def avail_def)
  then have pre: "take n t = avail" using tn by simp
  have t: "length t = FREQ_TABLE_MAX \<and> n \<le> FREQ_TABLE_MAX"
    using read_freqs_props [of "freq_table s" 0] assms tn
    by (auto simp: tn_def split: option.splits)
  have srt: "take m (insertion_sort u 1 (m - 1)) = sort (take m u)"
    if "0 < m" "m \<le> length u" for m u
    using insertion_sort_sorts [OF that] by (metis properties_for_sort)
  let ?u = "t[0 := system_min_cpufreq s, 1 := system_max_cpufreq s]"
  have "take 2 ?u = [system_min_cpufreq s, system_max_cpufreq s]"
    using t by (simp add: take_Suc_conv_app_nth numeral_2_eq_2)
  then show ?thesis
    using srt [of 2 ?u] srt [of n t] t pre tn
    by (auto simp: read_available_frequencies_def Let_def content_def [symmetric] tn_def [symmetric]
        avail_def [symmetric] simp del: insertion_sort.simps split: if_splits)
qed

text \<open>An Arm board's policy directory, as the witnesses read it.\<close>

definition freq_line :: "u64 list \<Rightarrow> string" where
  "freq_line vs = concat (map (\<lambda>v. dec_string (unat v) @ '' '') vs)"

lemma scan_ull_skip_space: "scan_ull (CHR '' '' # inp) = scan_ull inp"
  by (simp add: scan_ull_def isspace_def)

lemma scan_all_skip_space: "scan_all (CHR '' '' # inp) = scan_all inp"
  by (subst (1 2) scan_all.simps) (simp add: scan_ull_skip_space)

lemma scan_ull_freq_line: "scan_ull (freq_line (v # vs)) = Some (v, CHR '' '' # freq_line vs)"
  using scan_ull_dec_string [of "unat v" "CHR '' '' # freq_line vs"]
    unsigned_less [of v, where ?'a = nat]
  by (simp add: freq_line_def isdigit_def)

lemma scan_all_freq_line: "scan_all (freq_line vs) = vs"
proof (induction vs)
  case Nil
  show ?case by (subst scan_all.simps) (simp add: freq_line_def scan_ull_def)
next
  case (Cons v vs)
  then show ?case
    by (subst scan_all.simps) (simp add: scan_ull_freq_line scan_all_skip_space)
qed

definition zcu_files :: "(string \<times> string) list" where
  "zcu_files =
     [(''cpuinfo_max_freq'', freq_line [1199999]), (''cpuinfo_min_freq'', freq_line [299999]),
      (''scaling_available_frequencies'', freq_line [1199999, 599999, 399999, 299999]),
      (''scaling_governor'', ''schedutil''),
      (''scaling_min_freq'', freq_line [399999]), (''scaling_max_freq'', freq_line [599999])]"

definition zcu_env :: sysfs_env where
  "zcu_env =
     \<lparr>rd_file = map_of (map (\<lambda>(f, v). (cpufreq_path 128 0 f, v)) zcu_files),
      wr_open = (\<lambda>_. True), env_var = (\<lambda>_. None)\<rparr>"

definition zcu_state :: freq_state where
  "zcu_state = freq_state0\<lparr>system_min_cpufreq := 299999, system_max_cpufreq := 1199999\<rparr>"

lemma length_zcu_state: "length (freq_table zcu_state) = FREQ_TABLE_MAX"
  by (simp add: zcu_state_def freq_state0_def)

lemma zcu_available:
  "rd_file zcu_env (cpufreq_path 128 0 ''scaling_available_frequencies'') =
     Some (freq_line [1199999, 599999, 399999, 299999])"
  by (simp add: zcu_env_def zcu_files_def cpufreq_path_eq_iff)

theorem read_available_frequencies_reference_witness:
  "length (freq_table zcu_state) = FREQ_TABLE_MAX \<and>
   take (freq_table_num (read_available_frequencies zcu_env zcu_state))
     (freq_table (read_available_frequencies zcu_env zcu_state)) = [299999, 399999, 599999, 1199999]"
proof -
  have "g_cpu zcu_state = 0" "system_min_cpufreq zcu_state = 299999"
    "system_max_cpufreq zcu_state = 1199999"
    by (simp_all add: zcu_state_def freq_state0_def)
  then show ?thesis
    using read_available_frequencies_reference [OF length_zcu_state, of zcu_env] length_zcu_state
    by (simp add: zcu_available scan_all_freq_line within_def Let_def)
qed

lemma zcu_read_sysfs:
  assumes "(f, freq_line [v]) \<in> set zcu_files" and "g_cpu s = 0"
  shows "read_sysfs zcu_env f s = v"
proof -
  have "map_of (map (\<lambda>(f, v). (cpufreq_path 128 0 f, v)) zcu_files) (cpufreq_path 128 0 f) =
    Some (freq_line [v])"
    using assms(1) by (auto simp: zcu_files_def cpufreq_path_eq_iff)
  then show ?thesis
    using assms(2) by (simp add: read_sysfs_def zcu_env_def scan_ull_freq_line)
qed

lemma zcu_bounds:
  "g_cpu s = 0 \<Longrightarrow> read_sysfs zcu_env ''cpuinfo_min_freq'' s = 299999"
  "g_cpu s = 0 \<Longrightarrow> read_sysfs zcu_env ''cpuinfo_max_freq'' s = 1199999"
  by (rule zcu_read_sysfs; simp add: zcu_files_def)+

section \<open>Properties of the governor\<close>

text \<open>
  C8: after a successful initialisation the governor's invariant survives every sequence of
  calls (applications, results, calibrations, forced-minimum requests, copies between modes):
  both modes' positions stay inside the sorted table, the adaptive window stays between 100 and
  1000, and apart from the switch to the userspace governor every value ever written to sysfs
  is a frequency between the hardware minimum and maximum.
\<close>

theorem governor_stays_in_bounds:
  assumes "env_var e ''AFLCS_FREQ_GOV'' \<noteq> Some ''0''"
    and "length (freq_table s) = FREQ_TABLE_MAX"
    and "read_sysfs e ''cpuinfo_min_freq'' (s\<lparr>g_cpu := cpu\<rparr>) \<le>
         read_sysfs e ''cpuinfo_max_freq'' (s\<lparr>g_cpu := cpu\<rparr>)"
  shows "let t = gov_run e ops (freq_gov_init e fds pid cpu addr_only s)
         in gov_inv t \<and>
            (\<exists>ws. sysfs_log t = sysfs_log s @
                 filter (\<lambda>(p, _). wr_open e p)
                   [(cpufreq_path 128 cpu ''scaling_governor'', ''userspace'')] @ ws \<and>
               (\<forall>(p, v) \<in> set ws. \<exists>f.
                  read_sysfs e ''cpuinfo_min_freq'' (s\<lparr>g_cpu := cpu\<rparr>) \<le> f \<and>
                  f \<le> read_sysfs e ''cpuinfo_max_freq'' (s\<lparr>g_cpu := cpu\<rparr>) \<and>
                  v = dec_string (unat f)))"
proof -
  let ?i = "freq_gov_init e fds pid cpu addr_only s"
  note init = freq_gov_init_enabled [where fds = fds and pid = pid and addr_only = addr_only, OF assms]
  have "gov_evolves ?i (gov_run e ops ?i)" by (rule gov_evolves_run [OF init(1)])
  then show ?thesis
    by (auto simp: gov_evolves_def pins_within_def within_def init(2-5) Let_def)
qed

theorem governor_stays_in_bounds_witness:
  "env_var zcu_env ''AFLCS_FREQ_GOV'' \<noteq> Some ''0'' \<and>
   length (freq_table freq_state0) = FREQ_TABLE_MAX \<and>
   gov_inv (gov_run zcu_env [Op_Calibrate FREQ_MODE_ADDR 2, Op_Apply FREQ_MODE_ADDR,
     Op_On_Result FREQ_MODE_ADDR True] (freq_gov_init zcu_env None 0 0 True freq_state0))"
proof -
  have h: "env_var zcu_env ''AFLCS_FREQ_GOV'' \<noteq> Some ''0''" by (simp add: zcu_env_def)
  have l: "length (freq_table freq_state0) = FREQ_TABLE_MAX" by (simp add: freq_state0_def)
  have b: "read_sysfs zcu_env ''cpuinfo_min_freq'' (freq_state0\<lparr>g_cpu := 0\<rparr>) \<le>
    read_sysfs zcu_env ''cpuinfo_max_freq'' (freq_state0\<lparr>g_cpu := 0\<rparr>)"
    by (simp add: zcu_bounds)
  show ?thesis
    using governor_stays_in_bounds [OF h l b, of "[Op_Calibrate FREQ_MODE_ADDR 2,
      Op_Apply FREQ_MODE_ADDR, Op_On_Result FREQ_MODE_ADDR True]" None 0 True] h l
    by (simp add: Let_def)
qed

text \<open>The state after \<open>n\<close> clean results of an unfinished window.\<close>

definition in_window :: "freq_mode \<Rightarrow> nat \<Rightarrow> freq_state \<Rightarrow> freq_state \<Rightarrow> bool" where
  "in_window m n s t \<longleftrightarrow>
     g_enabled t \<and> addr_only_mode t \<and> non_overflow_nums t m = of_nat n \<and>
     cur_idx t = cur_idx s \<and> freq_interval t = freq_interval s \<and>
     freq_table_num t = freq_table_num s \<and> stable_nums t = stable_nums s"

lemma on_result_clean_step:
  assumes "in_window m n s t" and "Suc n < unat (freq_interval s)"
  shows "in_window m (Suc n) s (freq_gov_on_result m False t)"
proof -
  have "unat (of_nat (Suc n) :: u64) = Suc n"
    using assms(2) unsigned_less [of "freq_interval s", where ?'a = nat]
    by (intro unat_of_nat_small) simp
  then have "\<not> freq_interval s \<le> of_nat (Suc n)"
    using assms(2) by (simp only: word_le_nat_alt)
  with assms(1) show ?thesis
    by (simp add: in_window_def freq_gov_on_result_def on_clean_def adapt_interval_def Let_def
        add.commute)
qed

lemma on_result_clean_run:
  assumes "g_enabled s" and "addr_only_mode s" and "non_overflow_nums s m = 0"
  shows "n < unat (freq_interval s) \<Longrightarrow> in_window m n s ((freq_gov_on_result m False ^^ n) s)"
proof (induction n)
  case 0
  from assms show ?case by (simp add: in_window_def)
next
  case (Suc n)
  then show ?case by (simp add: on_result_clean_step)
qed

text \<open>
  with the fixed window of edge mode, a mode steps up by one position (capped at the top of
  the table) after exactly \<open>freq_interval\<close> consecutive clean executions and not before, and
  the window then starts again.
\<close>

theorem clean_window_steps_up:
  assumes "g_enabled s" and "addr_only_mode s" and "gov_inv s" and "non_overflow_nums s m = 0"
  shows "(\<forall>n < unat (freq_interval s).
            cur_idx ((freq_gov_on_result m False ^^ n) s) m = cur_idx s m) \<and>
         (let t = (freq_gov_on_result m False ^^ unat (freq_interval s)) s
          in cur_idx t m = min (cur_idx s m + 1) (int (freq_table_num s) - 1) \<and>
             stable_nums t m = stable_nums s m + 1 \<and> non_overflow_nums t m = 0)"
proof -
  have before: "in_window m n s ((freq_gov_on_result m False ^^ n) s)"
    if "n < unat (freq_interval s)" for n
    using on_result_clean_run [OF assms(1,2,4) that] .
  have "MIN_FREQ_INTERVAL \<le> freq_interval s" using assms(3) by (simp add: gov_inv_def)
  then obtain n where n: "unat (freq_interval s) = Suc n"
    by (cases "unat (freq_interval s)") (simp_all add: word_le_nat_alt)
  have "of_nat (Suc n) = freq_interval s" using n by (rule of_nat_unat_eq)
  then have "freq_interval s \<le> of_nat n + 1" by (simp add: add.commute)
  moreover have "cur_idx s m < int (freq_table_num s)" using assms(3) by (simp add: gov_inv_def)
  ultimately have "let t = (freq_gov_on_result m False ^^ unat (freq_interval s)) s
         in cur_idx t m = min (cur_idx s m + 1) (int (freq_table_num s) - 1) \<and>
            stable_nums t m = stable_nums s m + 1 \<and> non_overflow_nums t m = 0"
    using before [of n] n
    by (simp add: in_window_def freq_gov_on_result_def on_clean_def adapt_interval_def Let_def)
  with before show ?thesis by (simp add: in_window_def)
qed

text \<open>A governor in the middle of a run, at the second rung of four.\<close>

definition mid_gov :: freq_state where
  "mid_gov = freq_state0\<lparr>freq_table := [299999, 399999, 599999, 1199999] @ replicate 60 0,
     freq_table_num := 4, cur_idx := (\<lambda>_. 1), system_min_cpufreq := 299999,
     system_max_cpufreq := 1199999, addr_only_mode := True\<rparr>"

lemma gov_inv_mid_gov: "gov_inv mid_gov"
  by (simp add: gov_inv_def mid_gov_def freq_state0_def within_def)

theorem clean_window_steps_up_witness:
  "gov_inv mid_gov \<and> g_enabled mid_gov \<and> addr_only_mode mid_gov \<and>
   cur_idx ((freq_gov_on_result FREQ_MODE_ADDR False ^^ 99) mid_gov) FREQ_MODE_ADDR = 1 \<and>
   cur_idx ((freq_gov_on_result FREQ_MODE_ADDR False ^^ 100) mid_gov) FREQ_MODE_ADDR = 2"
proof -
  have h: "g_enabled mid_gov" "addr_only_mode mid_gov" "non_overflow_nums mid_gov FREQ_MODE_ADDR = 0"
    "freq_interval mid_gov = 100" "cur_idx mid_gov FREQ_MODE_ADDR = 1" "freq_table_num mid_gov = 4"
    by (simp_all add: mid_gov_def freq_state0_def)
  from clean_window_steps_up [OF h(1,2) gov_inv_mid_gov h(3)] h gov_inv_mid_gov
  show ?thesis by (simp add: Let_def)
qed

lemma calibrate_ramp_stops:
  assumes cb: "\<And>ctx u. fst (run ctx u) = P (last_set_freq u) \<and>
      freq_table (snd (snd (run ctx u))) = freq_table u \<and> cur_idx (snd (snd (run ctx u))) = cur_idx u"
    and clean: "\<And>j. i \<le> j \<Longrightarrow> j < i + d \<Longrightarrow> \<not> P (freq_table s ! j)"
    and first: "d < left \<Longrightarrow> P (freq_table s ! (i + d))" and "d \<le> left"
  shows "fst (calibrate_ramp e m run i left runs ctx s) = runs + (if d < left then Suc d else d) \<and>
    cur_idx (snd (snd (calibrate_ramp e m run i left runs ctx s))) m =
      (if d = 0 then cur_idx s m else int (i + d - 1))"
  using clean first assms(4)
proof (induction left arbitrary: i d runs ctx s)
  case 0
  then show ?case by simp
next
  case (Suc left)
  let ?s = "set_freq e (freq_table s ! i) s"
  obtain b c u where r: "run ctx ?s = (b, c, u)" by (cases "run ctx ?s")
  from cb [of ctx ?s] r have b: "b = P (freq_table s ! i)" and u: "freq_table u = freq_table s"
    "cur_idx u = cur_idx s" by (simp_all add: frame_simps)
  show ?case
  proof (cases d)
    case 0
    with Suc.prems(2) b r u show ?thesis by (simp add: Let_def)
  next
    case (Suc d')
    let ?v = "u\<lparr>cur_idx := (cur_idx u)(m := int i)\<rparr>"
    have "\<not> b" using Suc.prems(1) [of i] b Suc by simp
    have "fst (calibrate_ramp e m run (Suc i) left (Suc runs) c ?v) =
        Suc runs + (if d' < left then Suc d' else d') \<and>
      cur_idx (snd (snd (calibrate_ramp e m run (Suc i) left (Suc runs) c ?v))) m =
        (if d' = 0 then cur_idx ?v m else int (Suc i + d' - 1))"
      using Suc.prems Suc u by (intro Suc.IH) auto
    with \<open>\<not> b\<close> r Suc show ?thesis by (auto simp: Let_def)
  qed
qed

text \<open>
  C29: when whether a run overflows depends on the frequency it runs at, the ramp stops at the
  first rung that overflows: it has made one execution per rung up to and including that one,
  and the mode settles on the rung just below (the lowest when even that one overflows, the
  highest when none does).
\<close>

theorem calibrate_settles_below_first_overflow:
  assumes "g_enabled s" and "k \<le> freq_table_num s"
    and "\<And>ctx u. fst (run ctx u) = P (last_set_freq u) \<and>
      freq_table (snd (snd (run ctx u))) = freq_table u \<and> cur_idx (snd (snd (run ctx u))) = cur_idx u"
    and "\<And>j. j < k \<Longrightarrow> \<not> P (freq_table s ! j)"
    and "k < freq_table_num s \<Longrightarrow> P (freq_table s ! k)"
  shows "fst (freq_gov_calibrate e m run ctx s) = (if k < freq_table_num s then Suc k else k) \<and>
    cur_idx (snd (snd (freq_gov_calibrate e m run ctx s))) m = int (k - 1)"
proof -
  let ?u = "s\<lparr>cur_idx := (cur_idx s)(m := 0)\<rparr>"
  have "fst (calibrate_ramp e m run 0 (freq_table_num s) 0 ctx ?u) =
      0 + (if k < freq_table_num s then Suc k else k) \<and>
    cur_idx (snd (snd (calibrate_ramp e m run 0 (freq_table_num s) 0 ctx ?u))) m =
      (if k = 0 then cur_idx ?u m else int (0 + k - 1))"
    by (rule calibrate_ramp_stops [where P = P]) (use assms in auto)
  with assms(1) show ?thesis by (simp add: freq_gov_calibrate_def)
qed

theorem calibrate_settles_below_first_overflow_witness:
  "fst (freq_gov_calibrate zcu_env FREQ_MODE_ADDR
      (\<lambda>u s. (last_set_freq s > 500000, u, freq_gov_restore_max zcu_env s)) () mid_gov) = 3 \<and>
   cur_idx (snd (snd (freq_gov_calibrate zcu_env FREQ_MODE_ADDR
      (\<lambda>u s. (last_set_freq s > 500000, u, freq_gov_restore_max zcu_env s)) () mid_gov)))
     FREQ_MODE_ADDR = 1"
proof -
  have t: "freq_table mid_gov ! 0 = 299999" "freq_table mid_gov ! Suc 0 = 399999"
    "freq_table mid_gov ! 2 = 599999" "freq_table_num mid_gov = 4" "g_enabled mid_gov"
    by (simp_all add: mid_gov_def freq_state0_def)
  let ?run = "\<lambda>u s. (last_set_freq s > 500000, u, freq_gov_restore_max zcu_env s)"
  have "fst (freq_gov_calibrate zcu_env FREQ_MODE_ADDR ?run () mid_gov) =
      (if 2 < freq_table_num mid_gov then Suc 2 else 2) \<and>
    cur_idx (snd (snd (freq_gov_calibrate zcu_env FREQ_MODE_ADDR ?run () mid_gov))) FREQ_MODE_ADDR =
      int (2 - 1)"
    by (rule calibrate_settles_below_first_overflow [where P = "\<lambda>f. f > 500000"])
      (use t in \<open>auto simp: freq_gov_restore_max_def frame_simps less_2_cases_iff\<close>)
  with t show ?thesis by simp
qed

text \<open>
  The kernel's side of the policy directory is a parameter: \<open>kw\<close> is the effect of one
  write, \<open>kmin\<close>, \<open>kmax\<close> and \<open>kgov\<close> read the policy back. The law is the
  documented behaviour the code's write order is made for: a minimum is taken when it is not
  above the current maximum, a maximum when it is not below the current minimum, a governor
  name selects that governor, and \<open>scaling_setspeed\<close> moves no bound.
\<close>

definition cpufreq_law ::
  "int \<Rightarrow> ('k \<Rightarrow> string \<times> string \<Rightarrow> 'k) \<Rightarrow> ('k \<Rightarrow> u64) \<Rightarrow> ('k \<Rightarrow> u64) \<Rightarrow> ('k \<Rightarrow> string) \<Rightarrow> bool" where
  "cpufreq_law cpu kw kmin kmax kgov \<longleftrightarrow>
     (\<forall>k v. v \<le> kmax k \<longrightarrow>
        (let k' = kw k (cpufreq_path 128 cpu ''scaling_min_freq'', dec_string (unat v))
         in kmin k' = v \<and> kmax k' = kmax k \<and> kgov k' = kgov k)) \<and>
     (\<forall>k v. kmin k \<le> v \<longrightarrow>
        (let k' = kw k (cpufreq_path 128 cpu ''scaling_max_freq'', dec_string (unat v))
         in kmax k' = v \<and> kmin k' = kmin k \<and> kgov k' = kgov k)) \<and>
     (\<forall>k g. let k' = kw k (cpufreq_path 128 cpu ''scaling_governor'', g)
            in kgov k' = g \<and> kmin k' = kmin k \<and> kmax k' = kmax k) \<and>
     (\<forall>k c. let k' = kw k (cpufreq_path 128 cpu ''scaling_setspeed'', c)
            in kgov k' = kgov k \<and> kmin k' = kmin k \<and> kmax k' = kmax k)"

text \<open>
  one frequency change leaves the policy pinned: starting from any policy whose maximum is
  not below the hardware minimum, the writes \<open>set_freq\<close> issues, in their order, end with
  both bounds at the target.
\<close>

theorem set_freq_pins_policy:
  assumes "cpufreq_law (g_cpu s) kw kmin kmax kgov" and "\<And>p. wr_open e p"
    and "target \<noteq> last_set_freq s"
    and "system_min_cpufreq s \<le> target" and "system_min_cpufreq s \<le> kmax k"
  shows "let k' = foldl kw k (drop (length (sysfs_log s)) (sysfs_log (set_freq e target s)))
         in kmin k' = target \<and> kmax k' = target \<and> kgov k' = kgov k"
  using assms by (simp add: set_freq_eq pin_writes_def cpufreq_law_def Let_def)

text \<open>A policy as a triple, for the witnesses: bounds are checked as the law says.\<close>

definition toy_policy_write :: "u64 \<times> u64 \<times> string \<Rightarrow> string \<times> string \<Rightarrow> u64 \<times> u64 \<times> string" where
  "toy_policy_write k w =
     (let (mn, mx, g) = k; (p, v) = w; n = (case scan_ull v of None \<Rightarrow> 0 | Some (x, _) \<Rightarrow> x)
      in if p = cpufreq_path 128 0 ''scaling_min_freq'' then (if n \<le> mx then (n, mx, g) else k)
         else if p = cpufreq_path 128 0 ''scaling_max_freq'' then (if mn \<le> n then (mn, n, g) else k)
         else if p = cpufreq_path 128 0 ''scaling_governor'' then (mn, mx, v)
         else k)"

lemma toy_policy_law:
  "cpufreq_law 0 toy_policy_write fst (\<lambda>k. fst (snd k)) (\<lambda>k. snd (snd k))"
  by (auto simp: cpufreq_law_def toy_policy_write_def cpufreq_path_eq_iff Let_def split: prod.splits)

theorem set_freq_pins_policy_witness:
  "foldl toy_policy_write (299999, 599999, ''userspace'')
     (drop (length (sysfs_log mid_gov)) (sysfs_log (set_freq zcu_env 1199999 mid_gov))) =
   (1199999, 1199999, ''userspace'')"
proof -
  have c: "g_cpu mid_gov = 0" "system_min_cpufreq mid_gov = 299999" "last_set_freq mid_gov = 0"
    by (simp_all add: mid_gov_def freq_state0_def)
  have w: "\<And>p. wr_open zcu_env p" by (simp add: zcu_env_def)
  have "let k' = foldl toy_policy_write (299999, 599999, ''userspace'')
      (drop (length (sysfs_log mid_gov)) (sysfs_log (set_freq zcu_env 1199999 mid_gov)))
    in fst k' = 1199999 \<and> fst (snd k') = 1199999 \<and>
      snd (snd k') = snd (snd (299999 :: u64, 599999 :: u64, ''userspace''))"
    by (rule set_freq_pins_policy) (use c w toy_policy_law in simp_all)
  then show ?thesis by (simp add: Let_def prod_eq_iff)
qed

lemma restore_ops_stage_value:
  "v \<noteq> 0 \<Longrightarrow> length (restore_ops s) < RESTORE_OPS_MAX \<Longrightarrow>
   restore_ops (stage_restore_value f v s) =
     restore_ops s @ [(cpufreq_path 160 (g_cpu s) f, dec_string (unat v))]"
  by (simp add: stage_restore_value_def add_restore_op_def)

lemma stage_value_frame [frame_simps]:
  "g_cpu (stage_restore_value f v s) = g_cpu s"
  "saved_governor (stage_restore_value f v s) = saved_governor s"
  "system_min_cpufreq (stage_restore_value f v s) = system_min_cpufreq s"
  by (simp_all add: stage_restore_value_def frame_simps)

text \<open>The staged list when the policy could be read: bounds in the safe order, then governor.\<close>

lemma restore_ops_staged:
  assumes "restore_ops s = []" and "system_min_cpufreq s \<noteq> 0"
    and "read_sysfs e ''scaling_min_freq'' s \<noteq> 0" and "read_sysfs e ''scaling_max_freq'' s \<noteq> 0"
    and "saved_governor s \<noteq> []" and "length (saved_governor s) \<le> 31"
  shows "\<exists>rest. set rest \<subseteq> {cpufreq_path 160 (g_cpu s) ''scaling_setspeed''} \<times> UNIV \<and>
    restore_ops (stage_restore_ops e s) =
      [(cpufreq_path 160 (g_cpu s) ''scaling_min_freq'', dec_string (unat (system_min_cpufreq s))),
       (cpufreq_path 160 (g_cpu s) ''scaling_max_freq'', dec_string (unat (read_sysfs e ''scaling_max_freq'' s))),
       (cpufreq_path 160 (g_cpu s) ''scaling_min_freq'', dec_string (unat (read_sysfs e ''scaling_min_freq'' s))),
       (cpufreq_path 160 (g_cpu s) ''scaling_governor'', saved_governor s)] @ rest"
  using assms
  by (simp add: stage_restore_ops_def Let_def restore_ops_stage_value frame_simps add_restore_op_def
      snprintf_str_def, simp add: stage_restore_value_def add_restore_op_def)

text \<open>Initialisation up to the point where the restore list is staged.\<close>

lemma freq_gov_init_restore_ops:
  assumes "env_var e ''AFLCS_FREQ_GOV'' \<noteq> Some ''0''"
  shows "\<exists>u. restore_ops (freq_gov_init e fds pid cpu addr_only s) = restore_ops (stage_restore_ops e (save_governor e u)) \<and>
    g_cpu u = cpu \<and> restore_ops u = restore_ops s \<and>
    system_min_cpufreq u = read_sysfs e ''cpuinfo_min_freq'' (s\<lparr>g_cpu := cpu\<rparr>)"
proof -
  define u where "u = (let s = s\<lparr>g_cpu := cpu, addr_only_mode := addr_only\<rparr>;
      s = s\<lparr>system_max_cpufreq := read_sysfs e ''cpuinfo_max_freq'' s\<rparr>;
      s = s\<lparr>system_min_cpufreq := read_sysfs e ''cpuinfo_min_freq'' s\<rparr>;
      s = read_available_frequencies e s
    in s\<lparr>freq_diag := (env_var e ''AFLCS_FREQ_DIAG'' \<noteq> None)\<rparr>)"
  have "restore_ops (freq_gov_init e fds pid cpu addr_only s) =
    restore_ops (stage_restore_ops e (save_governor e u))"
    using assms by (simp add: freq_gov_init_def u_def Let_def reset_modes_def frame_simps)
  moreover have "g_cpu u = cpu" "restore_ops u = restore_ops s"
    "system_min_cpufreq u = read_sysfs e ''cpuinfo_min_freq'' (s\<lparr>g_cpu := cpu\<rparr>)"
    by (auto simp: u_def Let_def frame_simps intro: read_sysfs_cong)
  ultimately show ?thesis by blast
qed

lemma foldl_setspeed_writes:
  assumes "cpufreq_law cpu kw kmin kmax kgov"
    and "set ws \<subseteq> {cpufreq_path 128 cpu ''scaling_setspeed''} \<times> UNIV"
  shows "kmin (foldl kw k ws) = kmin k \<and> kmax (foldl kw k ws) = kmax k \<and> kgov (foldl kw k ws) = kgov k"
  using assms(2)
proof (induction ws arbitrary: k)
  case (Cons w ws)
  then show ?case using assms(1) by (auto simp: cpufreq_law_def Let_def)
qed simp

text \<open>
  C9: whatever the governor did during the run, the restore that the exit handler, the signal
  handlers and the guard process all perform puts the policy back: after it the kernel's
  minimum, maximum and governor are the ones \<open>freq_gov_init\<close> found.
\<close>

theorem restore_puts_policy_back:
  assumes law: "cpufreq_law cpu kw kmin kmax kgov" and "\<And>p. wr_open e p"
    and "env_var e ''AFLCS_FREQ_GOV'' \<noteq> Some ''0''"
    and "0 \<le> cpu" and "cpu < 10000"
    and "length (freq_table s) = FREQ_TABLE_MAX" and "restore_ops s = []"
    and "0 < mn" and "mn \<le> saved_min" and "saved_min \<le> saved_max"
    and "read_sysfs e ''cpuinfo_min_freq'' (s\<lparr>g_cpu := cpu\<rparr>) = mn"
    and "mn \<le> read_sysfs e ''cpuinfo_max_freq'' (s\<lparr>g_cpu := cpu\<rparr>)"
    and "read_sysfs e ''scaling_min_freq'' (s\<lparr>g_cpu := cpu\<rparr>) = saved_min"
    and "read_sysfs e ''scaling_max_freq'' (s\<lparr>g_cpu := cpu\<rparr>) = saved_max"
    and "rd_file e (cpufreq_path 128 cpu ''scaling_governor'') = Some inp"
    and "scan_word 31 inp = Some gov"
    and "mn \<le> kmax k"
  shows "let t = gov_run e ops (freq_gov_init e fds pid cpu addr_only s);
             k' = foldl kw k (drop (length (sysfs_log t)) (sysfs_log (freq_gov_restore_system e t)))
         in kmin k' = saved_min \<and> kmax k' = saved_max \<and> kgov k' = gov"
proof -
  let ?i = "freq_gov_init e fds pid cpu addr_only s"
  let ?t = "gov_run e ops ?i"
  obtain u where u: "restore_ops ?i = restore_ops (stage_restore_ops e (save_governor e u))"
    "g_cpu u = cpu" "restore_ops u = []" "system_min_cpufreq u = mn"
    using freq_gov_init_restore_ops [OF assms(3)] assms(7,11) by metis
  let ?v = "save_governor e u"
  have g: "gov \<noteq> []" "length gov \<le> 31" and "saved_governor ?v = gov"
    using assms(15,16) u(2)
    by (auto simp: scan_word_def Let_def save_governor_def split: if_splits)
  have rd: "read_sysfs e f ?v = read_sysfs e f (s\<lparr>g_cpu := cpu\<rparr>)" for f
    using u(2) by (intro read_sysfs_cong) (simp add: frame_simps)
  have pos: "mn \<noteq> 0" "saved_min \<noteq> 0" "saved_max \<noteq> 0"
    using assms(8-10) by (auto simp: word_pos_iff)
  have path: "cpufreq_path 160 cpu f = cpufreq_path 128 cpu f" if "length f \<le> 30" for f
    using that length_int_string [OF assms(4,5)] by (simp add: cpufreq_path_full)
  have "\<exists>rest. set rest \<subseteq> {cpufreq_path 160 (g_cpu ?v) ''scaling_setspeed''} \<times> UNIV \<and>
    restore_ops (stage_restore_ops e ?v) =
      [(cpufreq_path 160 (g_cpu ?v) ''scaling_min_freq'', dec_string (unat (system_min_cpufreq ?v))),
       (cpufreq_path 160 (g_cpu ?v) ''scaling_max_freq'', dec_string (unat (read_sysfs e ''scaling_max_freq'' ?v))),
       (cpufreq_path 160 (g_cpu ?v) ''scaling_min_freq'', dec_string (unat (read_sysfs e ''scaling_min_freq'' ?v))),
       (cpufreq_path 160 (g_cpu ?v) ''scaling_governor'', saved_governor ?v)] @ rest"
    by (rule restore_ops_staged)
      (use u pos g \<open>saved_governor ?v = gov\<close> rd assms(13,14) in \<open>simp_all add: frame_simps\<close>)
  then obtain rest where rest: "set rest \<subseteq> {cpufreq_path 128 cpu ''scaling_setspeed''} \<times> UNIV"
    and ops: "restore_ops ?i =
      [(cpufreq_path 128 cpu ''scaling_min_freq'', dec_string (unat mn)),
       (cpufreq_path 128 cpu ''scaling_max_freq'', dec_string (unat saved_max)),
       (cpufreq_path 128 cpu ''scaling_min_freq'', dec_string (unat saved_min)),
       (cpufreq_path 128 cpu ''scaling_governor'', gov)] @ rest"
    using u rd assms(13,14) \<open>saved_governor ?v = gov\<close> by (auto simp: path frame_simps)
  have "gov_inv ?i"
    by (rule freq_gov_init_enabled) (use assms in simp_all)
  then have "restore_ops ?t = restore_ops ?i"
    using gov_evolves_run by (auto simp: gov_evolves_def)
  then have "drop (length (sysfs_log ?t)) (sysfs_log (freq_gov_restore_system e ?t)) = restore_ops ?i"
    using assms(2) by (simp add: freq_gov_restore_system_def)
  then show ?thesis
    using ops law assms(9,10,17) foldl_setspeed_writes [OF law rest]
    by (simp add: Let_def cpufreq_law_def)
qed

theorem restore_puts_policy_back_witness:
  "let t = gov_run zcu_env [Op_Apply FREQ_MODE_ADDR, Op_Restore_Max]
             (freq_gov_init zcu_env None 0 0 True freq_state0)
   in foldl toy_policy_write (299999, 1199999, ''userspace'')
        (drop (length (sysfs_log t)) (sysfs_log (freq_gov_restore_system zcu_env t))) =
      (399999, 599999, ''schedutil'')"
proof -
  have r: "read_sysfs zcu_env ''scaling_min_freq'' (freq_state0\<lparr>g_cpu := 0\<rparr>) = 399999"
    "read_sysfs zcu_env ''scaling_max_freq'' (freq_state0\<lparr>g_cpu := 0\<rparr>) = 599999"
    by (rule zcu_read_sysfs; simp add: zcu_files_def)+
  have g: "rd_file zcu_env (cpufreq_path 128 0 ''scaling_governor'') = Some ''schedutil''"
    by (simp add: zcu_env_def zcu_files_def cpufreq_path_eq_iff)
  have w: "scan_word 31 ''schedutil'' = Some ''schedutil''"
    by (simp add: scan_word_def isspace_def)
  have "let t = gov_run zcu_env [Op_Apply FREQ_MODE_ADDR, Op_Restore_Max]
             (freq_gov_init zcu_env None 0 0 True freq_state0);
       k' = foldl toy_policy_write (299999, 1199999, ''userspace'')
        (drop (length (sysfs_log t)) (sysfs_log (freq_gov_restore_system zcu_env t)))
    in fst k' = 399999 \<and> fst (snd k') = 599999 \<and> snd (snd k') = ''schedutil''"
    by (rule restore_puts_policy_back [OF toy_policy_law, where mn = 299999 and inp = "''schedutil''"])
      (use r g w in \<open>simp_all add: zcu_bounds\<close>,
        simp_all add: zcu_env_def freq_state0_def)
  then show ?thesis by (simp add: Let_def prod_eq_iff)
qed

end
