(* ===== verification/C_Double.thy ===== *)
theory C_Double
  imports Complex_Main CS_Prelude
begin

text \<open>
  The little of C's \<open>double\<close> arithmetic the sources use (comparisons and scalings of
  counters): a finite non-negative double is the rational it denotes, and every operation is
  the exact one followed by \<open>rnd53\<close>, rounding to the nearest 53-bit significand with ties
  to even. The counters stay far from the exponent range, which is left unbounded.
\<close>

section \<open>Rounding\<close>

definition scale2 :: "int \<Rightarrow> rat \<Rightarrow> rat" where
  "scale2 k x = (if k \<ge> 0 then x * 2 ^ nat k else x / 2 ^ nat (- k))"

fun bitlen :: "nat \<Rightarrow> nat" where
  "bitlen n = (if n = 0 then 0 else Suc (bitlen (n div 2)))"

declare bitlen.simps [simp del]

text \<open>The exponent of a positive value, and the integer nearest to a rational.\<close>

definition expo :: "rat \<Rightarrow> int" where
  "expo x =
     (let (a, b) = quotient_of x; e = int (bitlen (nat a)) - int (bitlen (nat b))
      in if scale2 (- e) x < 1 then e - 1 else e)"

definition round_even :: "rat \<Rightarrow> int" where
  "round_even y =
     (let f = \<lfloor>y\<rfloor>; r = y - of_int f
      in if r < 1 / 2 then f else if r > 1 / 2 then f + 1 else if even f then f else f + 1)"

definition rnd53 :: "rat \<Rightarrow> rat" where
  "rnd53 x =
     (if x \<le> 0 then 0
      else let e = expo x in scale2 (e - 52) (of_int (round_even (scale2 (52 - e) x))))"

section \<open>Operations\<close>

definition dbl :: "u64 \<Rightarrow> rat" where
  "dbl n = rnd53 (of_nat (unat n))"

definition dbl_mul :: "rat \<Rightarrow> rat \<Rightarrow> rat" where
  "dbl_mul x y = rnd53 (x * y)"

definition dbl_div :: "rat \<Rightarrow> rat \<Rightarrow> rat" where
  "dbl_div x y = rnd53 (x / y)"

text \<open>Conversion to \<open>unsigned long long\<close> truncates.\<close>

definition ull_of_dbl :: "rat \<Rightarrow> u64" where
  "ull_of_dbl x = of_int \<lfloor>x\<rfloor>"

section \<open>The rounding error\<close>

lemma scale2_0 [simp]: "scale2 k 0 = 0"
  by (simp add: scale2_def)

lemma scale2_inverse [simp]: "scale2 k (scale2 (- k) x) = x"
  by (simp add: scale2_def)

lemma scale2_mono: "x \<le> y \<Longrightarrow> scale2 k x \<le> scale2 k y"
  by (simp add: scale2_def divide_right_mono)

lemma scale2_diff: "scale2 k x - scale2 k y = scale2 k (x - y)"
  by (simp add: scale2_def algebra_simps diff_divide_distrib)

lemma scale2_abs: "\<bar>scale2 k x\<bar> = scale2 k \<bar>x\<bar>"
  by (simp add: scale2_def abs_mult)

lemma scale2_mult_const: "scale2 k (x * c) = scale2 k x * c"
  by (simp add: scale2_def)

lemma bitlen_le: "0 < n \<Longrightarrow> 2 ^ (bitlen n - 1) \<le> n"
proof (induction n rule: bitlen.induct)
  case (1 n)
  then have b: "bitlen n = Suc (bitlen (n div 2))" by (subst bitlen.simps) simp
  show ?case
  proof (cases "n div 2 = 0")
    case True
    then have "bitlen (n div 2) = 0" by (simp add: bitlen.simps)
    with b "1.prems" show ?thesis by simp
  next
    case False
    with "1.IH" "1.prems" have ih: "2 ^ (bitlen (n div 2) - 1) \<le> n div 2" by simp
    have "bitlen (n div 2) \<noteq> 0" using False by (subst bitlen.simps) simp
    then have "(2::nat) ^ bitlen (n div 2) = 2 * 2 ^ (bitlen (n div 2) - 1)"
      by (metis power_eq_if)
    with ih b show ?thesis by simp
  qed
qed

lemma bitlen_less: "n < 2 ^ bitlen n"
proof (induction n rule: bitlen.induct)
  case (1 n)
  show ?case
  proof (cases "n = 0")
    case False
    with 1 have "n div 2 < 2 ^ bitlen (n div 2)" by simp
    with False show ?thesis by (subst bitlen.simps) simp
  qed simp
qed

lemma scale2_le_iff: "scale2 (- e) x < 1 \<longleftrightarrow> x < scale2 e 1"
  by (auto simp: scale2_def field_simps)

lemma expo_lower: "0 < x \<Longrightarrow> scale2 (expo x) 1 \<le> x"
proof -
  assume x: "0 < x"
  obtain a b where q: "quotient_of x = (a, b)" by (cases "quotient_of x")
  then have b: "0 < b" and xab: "x = of_int a / of_int b"
    by (auto dest: quotient_of_denom_pos quotient_of_div)
  with x have a: "0 < a" by (simp add: zero_less_divide_iff)
  let ?la = "bitlen (nat a)" and ?lb = "bitlen (nat b)"
  let ?e = "int ?la - int ?lb"
  show ?thesis
  proof (cases "scale2 (- ?e) x < 1")
    case False
    then show ?thesis using q scale2_le_iff [of ?e x] by (simp add: expo_def Let_def)
  next
    case True
    have "(of_nat (2 ^ (?la - 1)) :: rat) \<le> of_nat (nat a)"
      using bitlen_le [of "nat a"] a by (simp only: of_nat_le_iff)
    then have la: "2 ^ (?la - 1) \<le> (of_int a :: rat)" using a by simp
    have "(of_nat (nat b) :: rat) \<le> of_nat (2 ^ ?lb)"
      using bitlen_less [of "nat b"] by (simp only: of_nat_le_iff less_imp_le)
    then have lb: "(of_int b :: rat) \<le> 2 ^ ?lb" using b by simp
    have "?la \<noteq> 0" using a by (subst bitlen.simps) simp
    then have "scale2 (?e - 1) 1 = 2 ^ (?la - 1) / (2 ^ ?lb :: rat)"
      by (auto simp: scale2_def power_diff nat_diff_distrib' field_simps
          simp flip: power_add) (simp_all add: nat_diff_distrib nat_add_distrib)
    also have "\<dots> \<le> of_int a / of_int b"
      using la lb a b by (intro frac_le) simp_all
    finally show ?thesis using q True xab by (simp add: expo_def Let_def)
  qed
qed

lemma scale2_powi: "scale2 k x = x * 2 powi k"
  by (simp add: scale2_def power_int_def field_simps)

lemma scale2_scale2: "scale2 j (scale2 k x) = scale2 (j + k) x"
  by (simp add: scale2_powi power_int_add)

lemma scale2_zero [simp]: "scale2 0 x = x"
  by (simp add: scale2_def)

lemma scale2_nat: "scale2 52 1 = 2 ^ 52"
  by (simp add: scale2_def)

lemma round_even_error: "\<bar>of_int (round_even y) - y\<bar> \<le> 1 / 2"
proof -
  have "of_int \<lfloor>y\<rfloor> \<le> y" "y < of_int \<lfloor>y\<rfloor> + 1" by linarith+
  then show ?thesis by (auto simp: round_even_def Let_def abs_le_iff)
qed

text \<open>The usual model of rounding: a relative error of at most \<open>2\<^sup>-\<^sup>5\<^sup>3\<close>.\<close>

lemma rnd53_error:
  assumes "0 < x"
  shows "\<bar>rnd53 x - x\<bar> \<le> x / 2 ^ 53"
proof -
  let ?e = "expo x"
  let ?y = "scale2 (52 - ?e) x"
  have "2 ^ 52 \<le> ?y"
    using scale2_mono [OF expo_lower [OF assms], of "52 - ?e"]
    by (simp add: scale2_scale2 scale2_nat)
  then have "(1 :: rat) / 2 \<le> ?y / 2 ^ 53" by simp
  with round_even_error [of ?y] have "\<bar>of_int (round_even ?y) - ?y\<bar> \<le> ?y / 2 ^ 53" by linarith
  then have "scale2 (?e - 52) \<bar>of_int (round_even ?y) - ?y\<bar> \<le> scale2 (?e - 52) (?y / 2 ^ 53)"
    by (rule scale2_mono)
  moreover have "scale2 (?e - 52) ?y = x" by (simp add: scale2_scale2)
  moreover have "scale2 (?e - 52) (?y / 2 ^ 53) = scale2 (?e - 52) ?y / 2 ^ 53"
    by (simp add: scale2_powi)
  ultimately show ?thesis
    using assms by (simp add: rnd53_def Let_def flip: scale2_abs scale2_diff)
qed

lemma rnd53_0 [simp]: "rnd53 0 = 0"
  by (simp add: rnd53_def)

lemma rnd53_lower:
  assumes "0 \<le> x"
  shows "x * (1 - 1 / 2 ^ 53) \<le> rnd53 x"
proof (cases "x = 0")
  case False
  with assms rnd53_error [of x] have "x - rnd53 x \<le> x / 2 ^ 53" by linarith
  then show ?thesis by (simp add: field_simps)
qed simp

lemma rnd53_nonneg: "0 \<le> x \<Longrightarrow> 0 \<le> rnd53 x"
  by (rule order_trans [OF _ rnd53_lower]) simp_all

lemma rnd53_upper:
  assumes "0 \<le> x"
  shows "rnd53 x \<le> x * (1 + 1 / 2 ^ 53)"
proof (cases "x = 0")
  case False
  with assms rnd53_error [of x] have "rnd53 x - x \<le> x / 2 ^ 53" by linarith
  then show ?thesis by (simp add: field_simps)
qed simp

lemma rnd53_ge: "0 \<le> y \<Longrightarrow> y \<le> x \<Longrightarrow> y * (1 - 1 / 2 ^ 53) \<le> rnd53 x"
  by (rule order_trans [OF mult_right_mono rnd53_lower]) simp_all

lemma rnd53_le: "0 \<le> x \<Longrightarrow> x \<le> y \<Longrightarrow> rnd53 x \<le> y * (1 + 1 / 2 ^ 53)"
  by (rule order_trans [OF rnd53_upper mult_right_mono]) simp_all

end
