(* ===== verification/Hybrid.thy ===== *)
theory Hybrid
  imports C_Double
begin

text \<open>
  Hybrid coverage, \<open>src/src/hybrid.c\<close> with \<open>src/include/hybrid.h\<close>: every input runs
  in path mode, and only an input whose path map is new is re-run in edge mode. The file's
  static variables are the record \<open>hybrid\<close>. Coverage maps are byte lists of
  \<open>map_size\<close> elements; the two 64 Ki filter tables are predicates on the 16-bit halves of a
  checksum; the two direct-mapped stores (\<open>cache\<close> and \<open>inputs\<close>) are arrays of slots, an
  unallocated slot being \<open>None\<close>. \<open>xmalloc\<close> either returns memory or ends the process,
  so every statement after it runs with the buffer allocated; the bytes \<open>malloc\<close> leaves
  in the three scratch maps are a parameter of \<open>hybrid_init\<close>. The map AFL++ reads is
  passed and returned explicitly. The periodic diagnostic line of \<open>report()\<close> is
  the list of its values.
\<close>

unbundle bit_operations_syntax

section \<open>State\<close>

abbreviation PURGE_INTERVAL_LEVEL1 :: u64 where "PURGE_INTERVAL_LEVEL1 \<equiv> 3000"
abbreviation PURGE_INTERVAL_LEVEL2 :: u64 where "PURGE_INTERVAL_LEVEL2 \<equiv> 7500"
abbreviation PURGE_INTERVAL_LEVEL3 :: u64 where "PURGE_INTERVAL_LEVEL3 \<equiv> 15000"
abbreviation PURGE_INTERVAL_LEVEL4 :: u64 where "PURGE_INTERVAL_LEVEL4 \<equiv> 30000"
abbreviation CACHE_SLOTS :: nat where "CACHE_SLOTS \<equiv> 256"
abbreviation INPUT_SLOTS :: nat where "INPUT_SLOTS \<equiv> 64"

type_synonym cov_map = "u8 list"
type_synonym path_cache = "nat \<Rightarrow> (u32 \<times> cov_map) option"
type_synonym input_cache = "nat \<Rightarrow> (u64 \<times> cov_map) option"

datatype verdict = HYBRID_DISCARD | HYBRID_CONFIRM

text \<open>The target the file is compiled for: it selects the variant of \<open>hash32\<close>.\<close>

datatype arch = X86_64 | Arm64

record hybrid =
  map_size :: nat
  virgin_atom :: cov_map
  virgin_atom_real :: cov_map
  virgin_edge :: cov_map
  virgin_missed :: cov_map
  path_cls :: cov_map
  path_kept :: cov_map
  edge_cls :: cov_map
  path_kept_cksum :: u32
  path_kept_overflow :: bool
  path_kept_input :: u64
  last_filtered :: bool
  atom_check_up :: "u32 \<Rightarrow> bool"
  atom_check_down :: "u32 \<Rightarrow> bool"
  cache :: path_cache
  inputs :: input_cache
  real_execs :: u64
  path_execs :: u64
  queued_atom_paths :: u64
  pre_real_execs :: u64
  pre_virgin_bits :: u64
  purge_interval :: u64
  purge_attempt :: u64
  purge_real :: u64
  n_filtered :: u64
  n_old_path :: u64
  n_confirmed :: u64
  n_new_edges :: u64
  n_cache_hits :: u64
  n_new_tuples :: u64
  n_input_hits :: u64
  n_empty :: u64
  n_sampled :: u64
  n_sample_overflow :: u64
  n_sample_new :: u64
  n_sample_new_tuples :: u64
  n_sample_new_filtered :: u64

definition hybrid_init :: "nat \<Rightarrow> cov_map \<Rightarrow> cov_map \<Rightarrow> cov_map \<Rightarrow> hybrid" where
  "hybrid_init sz mem1 mem2 mem3 =
     \<lparr>map_size = sz,
      virgin_atom = replicate sz 0xff, virgin_atom_real = replicate sz 0xff,
      virgin_edge = replicate sz 0xff, virgin_missed = replicate sz 0xff,
      path_cls = mem1, path_kept = mem2, edge_cls = mem3,
      path_kept_cksum = 0, path_kept_overflow = False, path_kept_input = 0, last_filtered = False,
      atom_check_up = (\<lambda>_. False), atom_check_down = (\<lambda>_. False),
      cache = (\<lambda>_. None), inputs = (\<lambda>_. None),
      real_execs = 0, path_execs = 0, queued_atom_paths = 0, pre_real_execs = 0,
      pre_virgin_bits = 0, purge_interval = PURGE_INTERVAL_LEVEL1, purge_attempt = 0,
      purge_real = 0, n_filtered = 0, n_old_path = 0, n_confirmed = 0, n_new_edges = 0,
      n_cache_hits = 0, n_new_tuples = 0, n_input_hits = 0, n_empty = 0, n_sampled = 0,
      n_sample_overflow = 0, n_sample_new = 0, n_sample_new_tuples = 0,
      n_sample_new_filtered = 0\<rparr>"

section \<open>Classification and checksums\<close>

definition count_class :: "u8 \<Rightarrow> u8" where
  "count_class b =
     (if b = 0 then 0 else if b = 1 then 1 else if b = 2 then 2 else if b = 3 then 4
      else if b \<le> 7 then 8 else if b \<le> 15 then 16 else if b \<le> 31 then 32
      else if b \<le> 127 then 64 else 128)"

definition classify :: "nat \<Rightarrow> cov_map \<Rightarrow> cov_map" where
  "classify sz src = map count_class (take sz src)"

text \<open>The map read as little-endian words, as the pointer casts do; a short tail is ignored.\<close>

fun words32 :: "u8 list \<Rightarrow> u32 list" where
  "words32 (a # b # c # d # rest) =
     (ucast a OR push_bit 8 (ucast b) OR push_bit 16 (ucast c) OR push_bit 24 (ucast d))
       # words32 rest"
| "words32 _ = []"

fun words64 :: "u8 list \<Rightarrow> u64 list" where
  "words64 (a # b # c # d # e # f # g # h # rest) =
     (ucast a OR push_bit 8 (ucast b) OR push_bit 16 (ucast c) OR push_bit 24 (ucast d) OR
      push_bit 32 (ucast e) OR push_bit 40 (ucast f) OR push_bit 48 (ucast g) OR
      push_bit 56 (ucast h)) # words64 rest"
| "words64 _ = []"

definition ROL32 :: "u32 \<Rightarrow> nat \<Rightarrow> u32" where
  "ROL32 x r = push_bit r x OR drop_bit (32 - r) x"

definition ROL64 :: "u64 \<Rightarrow> nat \<Rightarrow> u64" where
  "ROL64 x r = push_bit r x OR drop_bit (64 - r) x"

definition hash32_arm64 :: "u8 list \<Rightarrow> u32 \<Rightarrow> u32 \<Rightarrow> u32" where
  "hash32_arm64 key len seed =
     (let h1 = fold (\<lambda>k1 h1.
                 let k1 = k1 * 0xcc9e2d51;
                     k1 = ROL32 k1 15;
                     k1 = k1 * 0x1b873593;
                     h1 = h1 XOR k1;
                     h1 = ROL32 h1 13
                 in h1 * 5 + 0xe6546b64)
               (take (unat (drop_bit 2 len)) (words32 key)) (seed XOR len);
          h1 = h1 XOR drop_bit 16 h1;
          h1 = h1 * 0x85ebca6b;
          h1 = h1 XOR drop_bit 13 h1;
          h1 = h1 * 0xc2b2ae35
      in h1 XOR drop_bit 16 h1)"

definition hash32_x86_64 :: "u8 list \<Rightarrow> u32 \<Rightarrow> u32 \<Rightarrow> u32" where
  "hash32_x86_64 key len seed =
     (let h1 = fold (\<lambda>k1 h1.
                 let k1 = k1 * 0x87c37b91114253d5;
                     k1 = ROL64 k1 31;
                     k1 = k1 * 0x4cf5ad432745937f;
                     h1 = h1 XOR k1;
                     h1 = ROL64 h1 27
                 in h1 * 5 + 0x52dce729)
               (take (unat (drop_bit 3 len)) (words64 key)) (ucast (seed XOR len));
          h1 = h1 XOR drop_bit 33 h1;
          h1 = h1 * 0xff51afd7ed558ccd;
          h1 = h1 XOR drop_bit 33 h1;
          h1 = h1 * 0xc4ceb9fe1a85ec53;
          h1 = h1 XOR drop_bit 33 h1
      in ucast h1)"

abbreviation HASH_CONST :: u32 where "HASH_CONST \<equiv> 0xa5b35705"

definition checksum :: "arch \<Rightarrow> nat \<Rightarrow> cov_map \<Rightarrow> u32" where
  "checksum a sz bm =
     (case a of
        X86_64 \<Rightarrow> hash32_x86_64 bm (of_nat sz) HASH_CONST
      | Arm64 \<Rightarrow> hash32_arm64 bm (of_nat sz) HASH_CONST)"

section \<open>Novelty\<close>

text \<open>One pass over the virgin map and the classified map, with the running verdict.\<close>

fun new_bits_loop :: "nat \<Rightarrow> cov_map \<Rightarrow> cov_map \<Rightarrow> nat \<times> cov_map" where
  "new_bits_loop ret (v # vs) (c # cs) =
     (let (ret, v') =
            (if c AND v \<noteq> 0
             then (if v = 0xff then 2 else if ret > 1 then ret else 1, v AND NOT c)
             else (ret, v));
          (ret, vs') = new_bits_loop ret vs cs
      in (ret, v' # vs'))"
| "new_bits_loop ret vs _ = (ret, vs)"

definition has_new_bits :: "cov_map \<Rightarrow> cov_map \<Rightarrow> nat \<times> cov_map" where
  "has_new_bits virgin cls = new_bits_loop 0 virgin cls"

fun peek_loop :: "nat \<Rightarrow> cov_map \<Rightarrow> cov_map \<Rightarrow> nat" where
  "peek_loop ret (v # vs) (c # cs) =
     (if c AND v \<noteq> 0 then (if v = 0xff then 2 else peek_loop 1 vs cs) else peek_loop ret vs cs)"
| "peek_loop ret _ _ = ret"

definition peek_new_bits :: "cov_map \<Rightarrow> cov_map \<Rightarrow> nat" where
  "peek_new_bits virgin cls = peek_loop 0 virgin cls"

definition count_non_255_bytes :: "nat \<Rightarrow> cov_map \<Rightarrow> u64" where
  "count_non_255_bytes sz bm = of_nat (length (filter (\<lambda>b. b \<noteq> 0xff) (take sz bm)))"

section \<open>Purging\<close>

text \<open>The new interval once more than twenty purges have happened.\<close>

definition next_interval :: "hybrid \<Rightarrow> u64" where
  "next_interval h =
     (let q = dbl (queued_atom_paths h);
          base = (if q < dbl_mul (rnd53 (1 / 10)) (dbl (path_execs h)) then PURGE_INTERVAL_LEVEL1
                  else if q < dbl_mul (rnd53 (1 / 4)) (dbl (path_execs h)) then PURGE_INTERVAL_LEVEL2
                  else if q < dbl_mul (rnd53 (1 / 2)) (dbl (path_execs h)) then PURGE_INTERVAL_LEVEL3
                  else PURGE_INTERVAL_LEVEL4);
          iv = ull_of_dbl (dbl_mul (dbl base)
                 (dbl_div (dbl_mul (dbl (purge_attempt h)) 1) (dbl (purge_real h))))
      in if iv > PURGE_INTERVAL_LEVEL4 then PURGE_INTERVAL_LEVEL4 else iv)"

definition should_purge :: "hybrid \<Rightarrow> bool" where
  "should_purge h \<longleftrightarrow>
     dbl (count_non_255_bytes (map_size h) (virgin_edge h))
       \<le> dbl_mul (rnd53 (101 / 100)) (dbl (pre_virgin_bits h)) \<or>
     count_non_255_bytes (map_size h) (virgin_atom_real h) * 2
       < count_non_255_bytes (map_size h) (virgin_atom h)"

definition purge :: "hybrid \<Rightarrow> hybrid" where
  "purge h =
     (let h = h\<lparr>virgin_atom := virgin_atom_real h\<rparr>;
          h = h\<lparr>purge_real := purge_real h + 1\<rparr>
      in if purge_real h > 20 then h\<lparr>purge_interval := next_interval h\<rparr> else h)"

definition purge_check :: "hybrid \<Rightarrow> hybrid" where
  "purge_check h =
     (let h = h\<lparr>real_execs := real_execs h + 1\<rparr>
      in if real_execs h - pre_real_execs h < purge_interval h then h
         else
           let h = (if should_purge h then purge h else h);
               h = h\<lparr>pre_virgin_bits := count_non_255_bytes (map_size h) (virgin_edge h)\<rparr>;
               h = h\<lparr>pre_real_execs := real_execs h\<rparr>
           in h\<lparr>purge_attempt := purge_attempt h + 1\<rparr>)"

section \<open>What AFL++ is shown\<close>

definition cache_slot :: "u32 \<Rightarrow> nat" where
  "cache_slot cksum = unat cksum mod CACHE_SLOTS"

definition input_slot :: "u64 \<Rightarrow> nat" where
  "input_slot key = unat key mod INPUT_SLOTS"

text \<open>The two lookups and the two stores, on the slot arrays.\<close>

definition cache_find :: "path_cache \<Rightarrow> u32 \<Rightarrow> cov_map option" where
  "cache_find c cksum =
     (case c (cache_slot cksum) of None \<Rightarrow> None | Some (k, m) \<Rightarrow> if k = cksum then Some m else None)"

definition cache_put :: "u32 \<Rightarrow> cov_map \<Rightarrow> path_cache \<Rightarrow> path_cache" where
  "cache_put cksum m c = c(cache_slot cksum := Some (cksum, m))"

definition input_find :: "input_cache \<Rightarrow> u64 \<Rightarrow> cov_map option" where
  "input_find c key =
     (case c (input_slot key) of None \<Rightarrow> None | Some (k, m) \<Rightarrow> if k = key then Some m else None)"

definition input_put :: "u64 \<Rightarrow> cov_map \<Rightarrow> input_cache \<Rightarrow> input_cache" where
  "input_put key m c = c(input_slot key := Some (key, m))"

definition remember_input :: "u64 \<Rightarrow> cov_map \<Rightarrow> hybrid \<Rightarrow> hybrid" where
  "remember_input key bm h =
     (if key = 0 \<or> input_find (inputs h) key \<noteq> None then h
      else h\<lparr>inputs := input_put key (take (map_size h) bm) (inputs h)\<rparr>)"

definition discard :: "cov_map \<Rightarrow> u32 \<Rightarrow> u64 \<Rightarrow> hybrid \<Rightarrow> cov_map \<times> hybrid" where
  "discard bm cksum key h =
     (case (if key = 0 then None else input_find (inputs h) key) of
        Some m \<Rightarrow> (memcpy (map_size h) bm m, h\<lparr>n_input_hits := n_input_hits h + 1\<rparr>)
      | None \<Rightarrow>
          (case cache_find (cache h) cksum of
             Some m \<Rightarrow>
               (let bm = memcpy (map_size h) bm m; h = remember_input key bm h
                in (bm, h\<lparr>n_cache_hits := n_cache_hits h + 1\<rparr>))
           | None \<Rightarrow> (memcpy (map_size h) bm (replicate (map_size h) 0), h\<lparr>n_empty := n_empty h + 1\<rparr>)))"

definition hybrid_after_path ::
  "arch \<Rightarrow> cov_map \<Rightarrow> bool \<Rightarrow> u64 \<Rightarrow> hybrid \<Rightarrow> verdict \<times> cov_map \<times> hybrid" where
  "hybrid_after_path a bm overflowed input_key h =
     (let h = h\<lparr>path_execs := path_execs h + 1\<rparr>;
          h = purge_check h;
          cksum = checksum a (map_size h) bm;
          h = h\<lparr>path_cls := classify (map_size h) bm\<rparr>;
          h = h\<lparr>last_filtered := False\<rparr>
      in if atom_check_up h (drop_bit 16 cksum) \<and> atom_check_down h (cksum AND 0xffff)
         then
           let h = h\<lparr>n_filtered := n_filtered h + 1, last_filtered := True\<rparr>;
               (bm, h) = discard bm cksum input_key h
           in (HYBRID_DISCARD, bm, h)
         else
           let (new, virgin) = has_new_bits (virgin_atom h) (path_cls h);
               h = h\<lparr>virgin_atom := virgin\<rparr>
           in if new = 0
              then
                let h = h\<lparr>n_old_path := n_old_path h + 1\<rparr>;
                    (bm, h) = discard bm cksum input_key h
                in (HYBRID_DISCARD, bm, h)
              else
                (HYBRID_CONFIRM, bm,
                 h\<lparr>queued_atom_paths := queued_atom_paths h + 1, path_kept := path_cls h,
                   path_kept_cksum := cksum, path_kept_overflow := overflowed,
                   path_kept_input := input_key, n_confirmed := n_confirmed h + 1\<rparr>))"

definition hybrid_after_confirm :: "cov_map \<Rightarrow> bool \<Rightarrow> hybrid \<Rightarrow> hybrid" where
  "hybrid_after_confirm bm overflowed h =
     (let h = purge_check h;
          h = h\<lparr>edge_cls := classify (map_size h) bm\<rparr>;
          (new_bits, virgin) = has_new_bits (virgin_edge h) (edge_cls h);
          h = h\<lparr>virgin_edge := virgin\<rparr>;
          h = (if new_bits \<noteq> 0
               then
                 let h = h\<lparr>virgin_atom_real := snd (has_new_bits (virgin_atom_real h) (path_kept h))\<rparr>;
                     h = h\<lparr>n_new_edges := n_new_edges h + 1\<rparr>
                 in if new_bits = 2 then h\<lparr>n_new_tuples := n_new_tuples h + 1\<rparr> else h
               else
                 h\<lparr>atom_check_up := (atom_check_up h)(drop_bit 16 (path_kept_cksum h) := True),
                   atom_check_down := (atom_check_down h)(path_kept_cksum h AND 0xffff := True)\<rparr>)
      in if \<not> overflowed \<and> \<not> path_kept_overflow h
         then
           let h = h\<lparr>cache := cache_put (path_kept_cksum h) (take (map_size h) bm) (cache h)\<rparr>
           in remember_input (path_kept_input h) bm h
         else h)"

definition hybrid_after_sample :: "cov_map \<Rightarrow> bool \<Rightarrow> hybrid \<Rightarrow> hybrid" where
  "hybrid_after_sample bm overflowed h =
     (if overflowed then h\<lparr>n_sample_overflow := n_sample_overflow h + 1\<rparr>
      else
        let h = h\<lparr>n_sampled := n_sampled h + 1\<rparr>;
            h = h\<lparr>edge_cls := classify (map_size h) bm\<rparr>;
            new_bits = peek_new_bits (virgin_edge h) (edge_cls h);
            h = (if new_bits \<noteq> 0
                 then
                   let h = h\<lparr>n_sample_new := n_sample_new h + 1\<rparr>;
                       h = (if new_bits = 2 then h\<lparr>n_sample_new_tuples := n_sample_new_tuples h + 1\<rparr>
                            else h)
                   in if last_filtered h then h\<lparr>n_sample_new_filtered := n_sample_new_filtered h + 1\<rparr>
                      else h
                 else h)
        in h\<lparr>virgin_missed := snd (has_new_bits (virgin_missed h) (edge_cls h))\<rparr>)"

definition count_missed_tuples :: "hybrid \<Rightarrow> u64" where
  "count_missed_tuples h =
     of_nat (length (filter (\<lambda>(m, e). m \<noteq> 0xff \<and> e = 0xff)
       (take (map_size h) (zip (virgin_missed h) (virgin_edge h)))))"

text \<open>The statistics file's lines: label and values.\<close>

text \<open>The line \<open>report\<close> prints every thousandth path pass when diagnosis is on, as names and values.\<close>

definition report :: "bool \<Rightarrow> hybrid \<Rightarrow> (string \<times> u64) list" where
  "report diag h =
     (if \<not> diag \<or> path_execs h mod 1000 \<noteq> 0 then []
      else [(''path'', path_execs h), (''filtered'', n_filtered h), (''confirmed'', n_confirmed h),
            (''new_edges'', n_new_edges h), (''cache_hits'', n_cache_hits h), (''input_hits'', n_input_hits h),
            (''empty'', n_empty h), (''purges'', purge_real h), (''attempts'', purge_attempt h)])"

definition hybrid_write_stats :: "hybrid \<Rightarrow> (string \<times> u64 list) list" where
  "hybrid_write_stats h =
     [(''hybrid_path_execs'', [path_execs h]), (''hybrid_filtered'', [n_filtered h]),
      (''hybrid_old_path'', [n_old_path h]), (''hybrid_confirmed'', [n_confirmed h]),
      (''hybrid_new_edges'', [n_new_edges h]), (''hybrid_new_tuples'', [n_new_tuples h]),
      (''hybrid_input_hits'', [n_input_hits h]), (''hybrid_cache_hits'', [n_cache_hits h]),
      (''hybrid_empty'', [n_empty h]), (''hybrid_purges'', [purge_real h, purge_attempt h])] @
     (if n_sampled h = 0 \<and> n_sample_overflow h = 0 then []
      else [(''sample_execs'', [n_sampled h]), (''sample_overflow'', [n_sample_overflow h]),
            (''sample_new_edges'', [n_sample_new h]),
            (''sample_new_tuples'', [n_sample_new_tuples h]),
            (''sample_new_filtered'', [n_sample_new_filtered h]),
            (''sample_missed_tuples'', [count_missed_tuples h])])"

section \<open>Novelty as sets of bits\<close>

lemma and_absorb_byte: "c AND (v AND NOT c) = (0 :: u8)"
  by (rule bit_eqI) (simp add: bit_simps)

lemma and_absorb_idle:
  assumes "c AND v = (0 :: u8)"
  shows "v AND NOT c = v"
proof (rule bit_eqI)
  fix n
  have "\<not> bit (c AND v) n" using assms by simp
  then show "bit (v AND NOT c) n = bit v n"
    by (auto simp: bit_and_iff bit_not_iff dest: bit_imp_le_length)
qed

lemma and_absorb_antitone: "d AND v = (0 :: u8) \<Longrightarrow> d AND (v AND NOT c) = 0"
  by (simp flip: and.assoc)

lemma new_bits_loop_snd:
  "snd (new_bits_loop r vs cs) = map2 (\<lambda>v c. v AND NOT c) vs cs @ drop (length cs) vs"
  by (induction r vs cs rule: new_bits_loop.induct)
    (auto simp: and_absorb_idle split: prod.splits if_splits)

lemma peek_loop_le: "r \<le> 2 \<Longrightarrow> peek_loop r vs cs \<le> 2"
  by (induction r vs cs rule: peek_loop.induct) auto

lemma peek_loop_max: "r \<le> 1 \<Longrightarrow> peek_loop r vs cs = max r (peek_loop 0 vs cs)"
proof (induction r vs cs rule: peek_loop.induct)
  case (1 r v vs c cs)
  then show ?case using peek_loop_le [of 1 vs cs] by (auto simp: max_def)
qed auto

lemma new_bits_loop_fst: "r \<le> 2 \<Longrightarrow> fst (new_bits_loop r vs cs) = max r (peek_loop 0 vs cs)"
proof (induction r vs cs rule: new_bits_loop.induct)
  case (1 r v vs c cs)
  define r' where "r' = (if c AND v \<noteq> 0 then (if v = 0xff then 2 else if r > 1 then r else 1) else r)"
  have "r' \<le> 2" using "1.prems" by (simp add: r'_def)
  moreover have "fst (new_bits_loop r (v # vs) (c # cs)) = fst (new_bits_loop r' vs cs)"
    by (simp add: r'_def split: prod.splits)
  ultimately have "fst (new_bits_loop r (v # vs) (c # cs)) = max r' (peek_loop 0 vs cs)"
    using "1.IH" [OF refl, of r'] by (auto simp: r'_def split: if_splits)
  then show ?case
    using peek_loop_le [of 0 vs cs] peek_loop_max [of 1 vs cs] "1.prems"
    by (auto simp: r'_def max_def)
qed auto

lemma has_new_bits_fst: "fst (has_new_bits v c) = peek_new_bits v c"
  using new_bits_loop_fst [of 0 v c] by (simp add: has_new_bits_def peek_new_bits_def)

lemma has_new_bits_snd:
  "snd (has_new_bits v c) = map2 (\<lambda>v c. v AND NOT c) v c @ drop (length c) v"
  by (simp add: has_new_bits_def new_bits_loop_snd)

lemma length_has_new_bits [simp]: "length (snd (has_new_bits v c)) = length v"
  by (simp add: has_new_bits_snd)

lemma peek_loop_0_iff:
  "peek_loop 0 v c = 0 \<longleftrightarrow> (\<forall>i < min (length v) (length c). c ! i AND v ! i = 0)"
proof (induction "0 :: nat" v c rule: peek_loop.induct)
  case (1 v vs c cs)
  have "peek_loop 1 vs cs \<noteq> 0" using peek_loop_max [of 1 vs cs] by simp
  with 1 show ?case by (auto simp: less_Suc_eq_0_disj)
qed auto

lemma peek_new_bits_0_iff:
  "peek_new_bits v c = 0 \<longleftrightarrow> (\<forall>i < min (length v) (length c). c ! i AND v ! i = 0)"
  by (simp add: peek_new_bits_def peek_loop_0_iff)

lemma nth_has_new_bits:
  "i < length v \<Longrightarrow> i < length c \<Longrightarrow> snd (has_new_bits v c) ! i = v ! i AND NOT (c ! i)"
  by (simp add: has_new_bits_snd nth_append)

lemma nth_has_new_bits_beyond:
  "i < length v \<Longrightarrow> length c \<le> i \<Longrightarrow> snd (has_new_bits v c) ! i = v ! i"
  by (simp add: has_new_bits_snd nth_append)

text \<open>
  The contract of a virgin map: \<open>news v c\<close> says how new \<open>c\<close> is to \<open>v\<close>, and
  \<open>absorb v c\<close> forgets what \<open>c\<close> holds. The client lemma is what the hybrid logic
  rests on: nothing that was ever absorbed is new again.
\<close>

locale novelty_map =
  fixes news :: "'m \<Rightarrow> 'm \<Rightarrow> nat" and absorb :: "'m \<Rightarrow> 'm \<Rightarrow> 'm"
  assumes news_absorbed: "news (absorb v c) c = 0"
    and news_antitone: "news v d = 0 \<Longrightarrow> news (absorb v c) d = 0"
begin

lemma old_stays_old: "news v d = 0 \<Longrightarrow> news (foldl absorb v cs) d = 0"
  by (induction cs arbitrary: v) (auto dest: news_antitone)

lemma absorbed_is_old: "c \<in> set cs \<Longrightarrow> news (foldl absorb v cs) c = 0"
proof (induction cs arbitrary: v)
  case (Cons a cs)
  then show ?case using old_stays_old [OF news_absorbed] by auto
qed simp

end

interpretation virgin: novelty_map peek_new_bits "\<lambda>v c. snd (has_new_bits v c)"
proof unfold_locales
  fix v c d :: cov_map
  show "peek_new_bits (snd (has_new_bits v c)) c = 0"
    by (auto simp: peek_new_bits_0_iff nth_has_new_bits and_absorb_byte)
  show "peek_new_bits (snd (has_new_bits v c)) d = 0" if old: "peek_new_bits v d = 0"
  proof (unfold peek_new_bits_0_iff, intro allI impI)
    fix i
    assume i: "i < min (length (snd (has_new_bits v c))) (length d)"
    then have "d ! i AND v ! i = 0" using old by (simp add: peek_new_bits_0_iff)
    then show "d ! i AND snd (has_new_bits v c) ! i = 0"
      using i by (cases "i < length c")
        (auto simp: nth_has_new_bits nth_has_new_bits_beyond and_absorb_antitone)
  qed
qed

definition map_bits :: "cov_map \<Rightarrow> (nat \<times> nat) set" where
  "map_bits m = {(i, b). i < length m \<and> bit (m ! i) b}"

lemma byte_and_nonzero: "(c AND v \<noteq> (0 :: u8)) \<longleftrightarrow> (\<exists>b. bit c b \<and> bit v b)"
  by (auto simp: bit_eq_iff bit_and_iff dest: bit_imp_le_length [where ?'a = 8, simplified])

text \<open>
  C18: \<open>has_new_bits\<close> implements the set view of a virgin map: what is left is the virgin
  bits without those of the classified map, the verdict is non-zero exactly when the two share
  a bit, and it is 2 exactly when a byte no earlier map had touched is hit.
\<close>

theorem has_new_bits_refines_sets:
  assumes "length v = length c"
  shows "map_bits (snd (has_new_bits v c)) = map_bits v - map_bits c \<and>
    (fst (has_new_bits v c) \<noteq> 0 \<longleftrightarrow> map_bits v \<inter> map_bits c \<noteq> {}) \<and>
    (fst (has_new_bits v c) = 2 \<longleftrightarrow> (\<exists>i < length v. v ! i = 0xff \<and> c ! i AND v ! i \<noteq> 0))"
proof (intro conjI)
  show "map_bits (snd (has_new_bits v c)) = map_bits v - map_bits c"
    using assms
    by (auto simp: map_bits_def nth_has_new_bits bit_and_iff bit_not_iff
        dest: bit_imp_le_length [where ?'a = 8, simplified])
  show "fst (has_new_bits v c) \<noteq> 0 \<longleftrightarrow> map_bits v \<inter> map_bits c \<noteq> {}"
    using assms
    by (auto simp: has_new_bits_fst peek_new_bits_0_iff map_bits_def byte_and_nonzero)
  have "peek_loop r v c = 2 \<longleftrightarrow> (\<exists>i < length v. v ! i = 0xff \<and> c ! i AND v ! i \<noteq> 0)" if "r \<le> 1" for r
    using assms that
  proof (induction r v c rule: peek_loop.induct)
    case (1 r v vs c cs)
    then show ?case by (auto simp: less_Suc_eq_0_disj)
  qed auto
  then show "fst (has_new_bits v c) = 2 \<longleftrightarrow> (\<exists>i < length v. v ! i = 0xff \<and> c ! i AND v ! i \<noteq> 0)"
    by (simp add: has_new_bits_fst peek_new_bits_def)
qed

theorem has_new_bits_refines_sets_witness:
  "map_bits (snd (has_new_bits [0xff, 0xfe, 0] [1, 1, 1])) = map_bits [0xff, 0xfe, 0] - map_bits [1, 1, 1] \<and>
   fst (has_new_bits [0xff, 0xfe, 0] [1, 1, 1]) = 2"
proof -
  have "\<exists>i < length [0xff, 0xfe, 0 :: u8]. [0xff, 0xfe, 0 :: u8] ! i = 0xff \<and>
    [1, 1, 1 :: u8] ! i AND [0xff, 0xfe, 0] ! i \<noteq> 0"
    by (rule exI [of _ 0]) simp
  then show ?thesis
    using has_new_bits_refines_sets [of "[0xff, 0xfe, 0]" "[1, 1, 1]"] by simp
qed

section \<open>The two direct-mapped stores\<close>

text \<open>
  Both stores have one contract: a lookup finds what was last put under its key as long as no
  other key of the same slot was put after it. The client lemma lifts a property of every
  stored value over a put.
\<close>

locale direct_mapped =
  fixes find :: "'s \<Rightarrow> 'k \<Rightarrow> 'v option" and put :: "'k \<Rightarrow> 'v \<Rightarrow> 's \<Rightarrow> 's"
    and slot :: "'k \<Rightarrow> nat"
  assumes find_put_same: "find (put k v s) k = Some v"
    and find_put_slot: "slot j = slot k \<Longrightarrow> j \<noteq> k \<Longrightarrow> find (put k v s) j = None"
    and find_put_other: "slot j \<noteq> slot k \<Longrightarrow> find (put k v s) j = find s j"
begin

definition every :: "('v \<Rightarrow> bool) \<Rightarrow> 's \<Rightarrow> bool" where
  "every P s \<longleftrightarrow> (\<forall>k v. find s k = Some v \<longrightarrow> P v)"

lemma every_put: "every P s \<Longrightarrow> P v \<Longrightarrow> every P (put k v s)"
  unfolding every_def by (metis find_put_same find_put_slot find_put_other option.distinct(1) option.inject)

lemma everyD: "every P s \<Longrightarrow> find s k = Some v \<Longrightarrow> P v"
  by (simp add: every_def)

lemma every_mono: "every P s \<Longrightarrow> (\<And>v. P v \<Longrightarrow> Q v) \<Longrightarrow> every Q s"
  by (auto simp: every_def)

end

interpretation paths: direct_mapped cache_find cache_put cache_slot
  by unfold_locales (auto simp: cache_find_def cache_put_def)

interpretation seen: direct_mapped input_find input_put input_slot
  by unfold_locales (auto simp: input_find_def input_put_def)

section \<open>Frame of the purge\<close>

lemma purge_check_frame [frame_simps]:
  "map_size (purge_check h) = map_size h"
  "virgin_edge (purge_check h) = virgin_edge h"
  "virgin_atom_real (purge_check h) = virgin_atom_real h"
  "virgin_missed (purge_check h) = virgin_missed h"
  "path_kept (purge_check h) = path_kept h"
  "path_kept_cksum (purge_check h) = path_kept_cksum h"
  "path_kept_overflow (purge_check h) = path_kept_overflow h"
  "path_kept_input (purge_check h) = path_kept_input h"
  "atom_check_up (purge_check h) = atom_check_up h"
  "atom_check_down (purge_check h) = atom_check_down h"
  "cache (purge_check h) = cache h"
  "inputs (purge_check h) = inputs h"
  "path_execs (purge_check h) = path_execs h"
  "queued_atom_paths (purge_check h) = queued_atom_paths h"
  "n_filtered (purge_check h) = n_filtered h"
  "n_old_path (purge_check h) = n_old_path h"
  "n_confirmed (purge_check h) = n_confirmed h"
  "n_new_edges (purge_check h) = n_new_edges h"
  "n_cache_hits (purge_check h) = n_cache_hits h"
  "n_input_hits (purge_check h) = n_input_hits h"
  "n_empty (purge_check h) = n_empty h"
  by (simp_all add: purge_check_def purge_def Let_def)

lemma virgin_atom_purge_check:
  "virgin_atom (purge_check h) = virgin_atom h \<or> virgin_atom (purge_check h) = virgin_atom_real h"
  by (simp add: purge_check_def purge_def Let_def)

lemma remember_input_frame [frame_simps]:
  "map_size (remember_input k m h) = map_size h"
  "virgin_atom (remember_input k m h) = virgin_atom h"
  "virgin_edge (remember_input k m h) = virgin_edge h"
  "virgin_atom_real (remember_input k m h) = virgin_atom_real h"
  "virgin_missed (remember_input k m h) = virgin_missed h"
  "path_kept (remember_input k m h) = path_kept h"
  "cache (remember_input k m h) = cache h"
  "atom_check_up (remember_input k m h) = atom_check_up h"
  "atom_check_down (remember_input k m h) = atom_check_down h"
  "path_execs (remember_input k m h) = path_execs h"
  "queued_atom_paths (remember_input k m h) = queued_atom_paths h"
  "n_filtered (remember_input k m h) = n_filtered h"
  "n_old_path (remember_input k m h) = n_old_path h"
  "n_confirmed (remember_input k m h) = n_confirmed h"
  "n_cache_hits (remember_input k m h) = n_cache_hits h"
  "n_input_hits (remember_input k m h) = n_input_hits h"
  "n_empty (remember_input k m h) = n_empty h"
  "purge_interval (remember_input k m h) = purge_interval h"
  "purge_attempt (remember_input k m h) = purge_attempt h"
  "purge_real (remember_input k m h) = purge_real h"
  by (simp_all add: remember_input_def)

section \<open>Invariant\<close>

text \<open>A map that holds no edge beyond those already shown to AFL++.\<close>

definition no_new_edges :: "hybrid \<Rightarrow> cov_map \<Rightarrow> bool" where
  "no_new_edges h m \<longleftrightarrow>
     length m = map_size h \<and> peek_new_bits (virgin_edge h) (classify (map_size h) m) = 0"

lemmas no_new_edges_abs = no_new_edges_def [abs_def]

definition hyb_inv :: "hybrid \<Rightarrow> bool" where
  "hyb_inv h \<longleftrightarrow>
     length (virgin_atom h) = map_size h \<and> length (virgin_atom_real h) = map_size h \<and>
     length (virgin_edge h) = map_size h \<and> length (virgin_missed h) = map_size h \<and>
     paths.every (no_new_edges h) (cache h) \<and> seen.every (no_new_edges h) (inputs h)"

lemma hyb_inv_cong:
  "hyb_inv h \<Longrightarrow> map_size h' = map_size h \<Longrightarrow> virgin_edge h' = virgin_edge h \<Longrightarrow>
   virgin_atom_real h' = virgin_atom_real h \<Longrightarrow> length (virgin_atom h') = length (virgin_atom h) \<Longrightarrow>
   length (virgin_missed h') = length (virgin_missed h) \<Longrightarrow>
   cache h' = cache h \<Longrightarrow> inputs h' = inputs h \<Longrightarrow> hyb_inv h'"
  by (simp add: hyb_inv_def no_new_edges_abs)

lemma length_classify [simp]: "length (classify n m) = min n (length m)"
  by (simp add: classify_def)

lemma no_new_edges_zero: "length (virgin_edge h) = map_size h \<Longrightarrow> no_new_edges h (replicate (map_size h) 0)"
  by (auto simp: no_new_edges_def peek_new_bits_0_iff classify_def count_class_def)

lemma hyb_inv_purge_check [inv_intros]: "hyb_inv h \<Longrightarrow> hyb_inv (purge_check h)"
  by (rule hyb_inv_cong) (use virgin_atom_purge_check [of h] in \<open>auto simp: frame_simps hyb_inv_def\<close>)

lemma hyb_inv_remember_input [inv_intros]:
  assumes "hyb_inv h" and "no_new_edges h m"
  shows "hyb_inv (remember_input k m h)"
proof -
  have "take (map_size h) m = m" using assms(2) by (simp add: no_new_edges_def)
  then have "seen.every (no_new_edges h) (input_put k (take (map_size h) m) (inputs h))"
    using assms by (simp add: hyb_inv_def seen.every_put)
  with assms(1) show ?thesis
    by (simp add: remember_input_def hyb_inv_def no_new_edges_abs)
qed

text \<open>The three outcomes of \<open>discard\<close>.\<close>

lemma discard_cases:
  assumes "length bm = map_size h"
  obtains (input) m where "key \<noteq> 0" "input_find (inputs h) key = Some m"
      "discard bm cksum key h = (memcpy (map_size h) bm m, h\<lparr>n_input_hits := n_input_hits h + 1\<rparr>)"
    | (path) m where "key = 0 \<or> input_find (inputs h) key = None" "cache_find (cache h) cksum = Some m"
      "discard bm cksum key h =
        (memcpy (map_size h) bm m, (remember_input key (memcpy (map_size h) bm m) h)\<lparr>n_cache_hits := n_cache_hits h + 1\<rparr>)"
    | (empty) "key = 0 \<or> input_find (inputs h) key = None" "cache_find (cache h) cksum = None"
      "discard bm cksum key h = (replicate (map_size h) 0, h\<lparr>n_empty := n_empty h + 1\<rparr>)"
proof (cases "key \<noteq> 0 \<and> input_find (inputs h) key \<noteq> None")
  case True
  then show ?thesis by (auto simp: discard_def intro: input)
next
  case False
  then have none: "(if key = 0 then None else input_find (inputs h) key) = None" by auto
  show ?thesis
  proof (cases "cache_find (cache h) cksum")
    case None
    with False none assms show ?thesis by (intro empty) (auto simp: discard_def)
  next
    case (Some m)
    with False none show ?thesis by (intro path [of m]) (auto simp: discard_def Let_def frame_simps)
  qed
qed

lemma discard_spec:
  assumes inv: "hyb_inv h" and len: "length bm = map_size h"
  shows "no_new_edges h (fst (discard bm cksum key h)) \<and> hyb_inv (snd (discard bm cksum key h)) \<and>
    virgin_edge (snd (discard bm cksum key h)) = virgin_edge h \<and>
    map_size (snd (discard bm cksum key h)) = map_size h"
  using len
proof (cases rule: discard_cases [of bm h key cksum])
  case (input m)
  then have "no_new_edges h m" using inv by (auto simp: hyb_inv_def dest: seen.everyD)
  with input len inv show ?thesis by (auto simp: no_new_edges_def intro: hyb_inv_cong)
next
  case (path m)
  then have m: "no_new_edges h m" using inv by (auto simp: hyb_inv_def dest: paths.everyD)
  then have "memcpy (map_size h) bm m = m" using len by (simp add: no_new_edges_def)
  moreover have "hyb_inv ((remember_input key m h)\<lparr>n_cache_hits := n_cache_hits h + 1\<rparr>)"
    using hyb_inv_remember_input [OF inv m] by (rule hyb_inv_cong) simp_all
  ultimately show ?thesis using path m by (simp add: frame_simps)
next
  case empty
  moreover have "hyb_inv (h\<lparr>n_empty := n_empty h + 1\<rparr>)"
    by (rule hyb_inv_cong [OF inv]) simp_all
  moreover have "length (virgin_edge h) = map_size h" using inv by (simp add: hyb_inv_def)
  ultimately show ?thesis by (simp add: no_new_edges_zero)
qed

text \<open>
  \<open>hybrid_after_path\<close> up to the verdict, and its three ways out in terms of that state.
\<close>

definition path_pass :: "cov_map \<Rightarrow> hybrid \<Rightarrow> hybrid" where
  "path_pass bm h =
     (let h = purge_check (h\<lparr>path_execs := path_execs h + 1\<rparr>)
      in h\<lparr>path_cls := classify (map_size h) bm, last_filtered := False\<rparr>)"

definition filtered :: "u32 \<Rightarrow> hybrid \<Rightarrow> bool" where
  "filtered cksum h \<longleftrightarrow> atom_check_up h (drop_bit 16 cksum) \<and> atom_check_down h (cksum AND 0xffff)"

lemma path_pass_frame [frame_simps]:
  "map_size (path_pass bm h) = map_size h"
  "virgin_edge (path_pass bm h) = virgin_edge h"
  "virgin_atom_real (path_pass bm h) = virgin_atom_real h"
  "atom_check_up (path_pass bm h) = atom_check_up h"
  "atom_check_down (path_pass bm h) = atom_check_down h"
  "cache (path_pass bm h) = cache h"
  "inputs (path_pass bm h) = inputs h"
  "path_cls (path_pass bm h) = classify (map_size h) bm"
  "path_execs (path_pass bm h) = path_execs h + 1"
  "queued_atom_paths (path_pass bm h) = queued_atom_paths h"
  "n_filtered (path_pass bm h) = n_filtered h"
  "n_old_path (path_pass bm h) = n_old_path h"
  "n_confirmed (path_pass bm h) = n_confirmed h"
  "n_cache_hits (path_pass bm h) = n_cache_hits h"
  "n_input_hits (path_pass bm h) = n_input_hits h"
  "n_empty (path_pass bm h) = n_empty h"
  by (simp_all add: path_pass_def Let_def frame_simps)

lemma hyb_inv_path_pass [inv_intros]: "hyb_inv h \<Longrightarrow> hyb_inv (path_pass bm h)"
proof -
  assume "hyb_inv h"
  then have "hyb_inv (h\<lparr>path_execs := path_execs h + 1\<rparr>)" by (rule hyb_inv_cong) simp_all
  then have "hyb_inv (purge_check (h\<lparr>path_execs := path_execs h + 1\<rparr>))" by (rule hyb_inv_purge_check)
  then show ?thesis unfolding path_pass_def Let_def by (rule hyb_inv_cong) simp_all
qed

lemma hybrid_after_path_filtered:
  assumes "filtered (checksum a (map_size h) bm) h"
  shows "hybrid_after_path a bm ov key h =
    (HYBRID_DISCARD,
     discard bm (checksum a (map_size h) bm) key
       ((path_pass bm h)\<lparr>n_filtered := n_filtered h + 1, last_filtered := True\<rparr>))"
  using assms
  by (simp add: hybrid_after_path_def path_pass_def filtered_def Let_def frame_simps split: prod.split)

lemma hybrid_after_path_old:
  assumes "\<not> filtered (checksum a (map_size h) bm) h"
    and "peek_new_bits (virgin_atom (path_pass bm h)) (classify (map_size h) bm) = 0"
  shows "hybrid_after_path a bm ov key h =
    (HYBRID_DISCARD,
     discard bm (checksum a (map_size h) bm) key
       ((path_pass bm h)\<lparr>
          virgin_atom := snd (has_new_bits (virgin_atom (path_pass bm h)) (classify (map_size h) bm)),
          n_old_path := n_old_path h + 1\<rparr>))"
  using assms
  by (auto simp: hybrid_after_path_def path_pass_def filtered_def Let_def frame_simps case_prod_beta
      simp flip: has_new_bits_fst)

lemma hybrid_after_path_new:
  assumes "\<not> filtered (checksum a (map_size h) bm) h"
    and "peek_new_bits (virgin_atom (path_pass bm h)) (classify (map_size h) bm) \<noteq> 0"
  shows "hybrid_after_path a bm ov key h =
    (HYBRID_CONFIRM, bm,
     (path_pass bm h)\<lparr>
       virgin_atom := snd (has_new_bits (virgin_atom (path_pass bm h)) (classify (map_size h) bm)),
       queued_atom_paths := queued_atom_paths h + 1, path_kept := classify (map_size h) bm,
       path_kept_cksum := checksum a (map_size h) bm, path_kept_overflow := ov,
       path_kept_input := key, n_confirmed := n_confirmed h + 1\<rparr>)"
  using assms
  by (auto simp: hybrid_after_path_def path_pass_def filtered_def Let_def frame_simps case_prod_beta
      simp flip: has_new_bits_fst)

lemmas hybrid_after_path_simps =
  hybrid_after_path_filtered hybrid_after_path_old hybrid_after_path_new

lemma hyb_inv_after_path:
  assumes inv: "hyb_inv h" and len: "length bm = map_size h"
    and r: "hybrid_after_path a bm ov key h = (v, bm', h')"
  shows "hyb_inv h' \<and> map_size h' = map_size h \<and> virgin_edge h' = virgin_edge h \<and>
    length bm' = map_size h \<and> (v = HYBRID_DISCARD \<longrightarrow> no_new_edges h' bm') \<and>
    (v = HYBRID_CONFIRM \<longrightarrow> bm' = bm)"
proof -
  let ?p = "path_pass bm h"
  let ?ck = "checksum a (map_size h) bm"
  have p: "hyb_inv ?p" using inv by (rule hyb_inv_path_pass)
  consider "filtered ?ck h"
    | "\<not> filtered ?ck h" "peek_new_bits (virgin_atom ?p) (classify (map_size h) bm) = 0"
    | "\<not> filtered ?ck h" "peek_new_bits (virgin_atom ?p) (classify (map_size h) bm) \<noteq> 0"
    by blast
  then show ?thesis
  proof cases
    case 1
    let ?u = "?p\<lparr>n_filtered := n_filtered h + 1, last_filtered := True\<rparr>"
    have u: "hyb_inv ?u" by (rule hyb_inv_cong [OF p]) simp_all
    show ?thesis
      using discard_spec [OF u, of bm ?ck key] len r 1
      by (auto simp: hybrid_after_path_simps frame_simps no_new_edges_def)
  next
    case 2
    let ?u = "?p\<lparr>virgin_atom := snd (has_new_bits (virgin_atom ?p) (classify (map_size h) bm)),
      n_old_path := n_old_path h + 1\<rparr>"
    have u: "hyb_inv ?u" by (rule hyb_inv_cong [OF p]) simp_all
    show ?thesis
      using discard_spec [OF u, of bm ?ck key] len r 2
      by (auto simp: hybrid_after_path_simps frame_simps no_new_edges_def)
  next
    case 3
    with p r len show ?thesis
      by (auto simp: hybrid_after_path_simps frame_simps intro!: hyb_inv_cong [OF p])
  qed
qed

text \<open>\<open>hybrid_after_confirm\<close> up to the point where the edge map is stored.\<close>

definition confirm_pass :: "cov_map \<Rightarrow> hybrid \<Rightarrow> hybrid" where
  "confirm_pass bm h =
     (let h = purge_check h;
          h = h\<lparr>edge_cls := classify (map_size h) bm\<rparr>;
          (new_bits, virgin) = has_new_bits (virgin_edge h) (edge_cls h);
          h = h\<lparr>virgin_edge := virgin\<rparr>
      in if new_bits \<noteq> 0
         then
           let h = h\<lparr>virgin_atom_real := snd (has_new_bits (virgin_atom_real h) (path_kept h))\<rparr>;
               h = h\<lparr>n_new_edges := n_new_edges h + 1\<rparr>
           in if new_bits = 2 then h\<lparr>n_new_tuples := n_new_tuples h + 1\<rparr> else h
         else
           h\<lparr>atom_check_up := (atom_check_up h)(drop_bit 16 (path_kept_cksum h) := True),
             atom_check_down := (atom_check_down h)(path_kept_cksum h AND 0xffff := True)\<rparr>)"

lemma hybrid_after_confirm_eq:
  "hybrid_after_confirm bm ov h =
     (let u = confirm_pass bm h
      in if \<not> ov \<and> \<not> path_kept_overflow u
         then remember_input (path_kept_input u) bm
                (u\<lparr>cache := cache_put (path_kept_cksum u) (take (map_size u) bm) (cache u)\<rparr>)
         else u)"
  by (simp add: hybrid_after_confirm_def confirm_pass_def Let_def case_prod_beta)

lemma confirm_pass_frame [frame_simps]:
  "map_size (confirm_pass bm h) = map_size h"
  "virgin_edge (confirm_pass bm h) = snd (has_new_bits (virgin_edge h) (classify (map_size h) bm))"
  "virgin_missed (confirm_pass bm h) = virgin_missed h"
  "path_kept_cksum (confirm_pass bm h) = path_kept_cksum h"
  "path_kept_overflow (confirm_pass bm h) = path_kept_overflow h"
  "path_kept_input (confirm_pass bm h) = path_kept_input h"
  "cache (confirm_pass bm h) = cache h"
  "inputs (confirm_pass bm h) = inputs h"
  "path_execs (confirm_pass bm h) = path_execs h"
  "queued_atom_paths (confirm_pass bm h) = queued_atom_paths h"
  "n_filtered (confirm_pass bm h) = n_filtered h"
  "n_old_path (confirm_pass bm h) = n_old_path h"
  "n_confirmed (confirm_pass bm h) = n_confirmed h"
  "n_cache_hits (confirm_pass bm h) = n_cache_hits h"
  "n_input_hits (confirm_pass bm h) = n_input_hits h"
  "n_empty (confirm_pass bm h) = n_empty h"
  "length (virgin_atom_real (confirm_pass bm h)) = length (virgin_atom_real h)"
  "virgin_atom (confirm_pass bm h) = virgin_atom (purge_check h)"
  by (simp_all add: confirm_pass_def Let_def case_prod_beta frame_simps)

lemma confirm_pass_filter:
  "atom_check_up (confirm_pass bm h) =
     (if peek_new_bits (virgin_edge h) (classify (map_size h) bm) = 0
      then (atom_check_up h)(drop_bit 16 (path_kept_cksum h) := True) else atom_check_up h)"
  "atom_check_down (confirm_pass bm h) =
     (if peek_new_bits (virgin_edge h) (classify (map_size h) bm) = 0
      then (atom_check_down h)(path_kept_cksum h AND 0xffff := True) else atom_check_down h)"
  by (simp_all add: confirm_pass_def Let_def case_prod_beta frame_simps flip: has_new_bits_fst)

lemma no_new_edges_confirm_pass:
  "no_new_edges h m \<Longrightarrow> no_new_edges (confirm_pass bm h) m"
  by (simp add: no_new_edges_def frame_simps virgin.news_antitone)

lemma no_new_edges_confirmed:
  "length bm = map_size h \<Longrightarrow> no_new_edges (confirm_pass bm h) bm"
  by (simp add: no_new_edges_def frame_simps virgin.news_absorbed)

lemma hyb_inv_confirm_pass [inv_intros]: "hyb_inv h \<Longrightarrow> hyb_inv (confirm_pass bm h)"
  using hyb_inv_purge_check [of h]
  by (auto simp: hyb_inv_def frame_simps intro: paths.every_mono seen.every_mono
      no_new_edges_confirm_pass)

lemma hyb_inv_after_confirm [inv_intros]:
  assumes inv: "hyb_inv h" and len: "length bm = map_size h"
  shows "hyb_inv (hybrid_after_confirm bm ov h)"
proof -
  let ?u = "confirm_pass bm h"
  let ?v = "?u\<lparr>cache := cache_put (path_kept_cksum ?u) (take (map_size ?u) bm) (cache ?u)\<rparr>"
  have u: "hyb_inv ?u" using inv by (rule hyb_inv_confirm_pass)
  have new: "no_new_edges ?u bm" using len by (rule no_new_edges_confirmed)
  have "no_new_edges ?v = no_new_edges ?u" by (simp add: no_new_edges_abs)
  then have "hyb_inv ?v"
    using u new len by (simp add: hyb_inv_def frame_simps paths.every_put)
  then have "hyb_inv (remember_input (path_kept_input ?u) bm ?v)"
    using new by (intro hyb_inv_remember_input) (simp_all add: no_new_edges_def)
  with u show ?thesis by (simp add: hybrid_after_confirm_eq Let_def)
qed

lemma hybrid_after_confirm_frame [frame_simps]:
  "map_size (hybrid_after_confirm bm ov h) = map_size h"
  "virgin_edge (hybrid_after_confirm bm ov h) = snd (has_new_bits (virgin_edge h) (classify (map_size h) bm))"
  "atom_check_up (hybrid_after_confirm bm ov h) = atom_check_up (confirm_pass bm h)"
  "atom_check_down (hybrid_after_confirm bm ov h) = atom_check_down (confirm_pass bm h)"
  "path_execs (hybrid_after_confirm bm ov h) = path_execs h"
  "queued_atom_paths (hybrid_after_confirm bm ov h) = queued_atom_paths h"
  "n_filtered (hybrid_after_confirm bm ov h) = n_filtered h"
  "n_old_path (hybrid_after_confirm bm ov h) = n_old_path h"
  "n_confirmed (hybrid_after_confirm bm ov h) = n_confirmed h"
  "n_cache_hits (hybrid_after_confirm bm ov h) = n_cache_hits h"
  "n_input_hits (hybrid_after_confirm bm ov h) = n_input_hits h"
  "n_empty (hybrid_after_confirm bm ov h) = n_empty h"
  by (simp_all add: hybrid_after_confirm_eq Let_def frame_simps)

lemma hybrid_after_sample_frame [frame_simps]:
  "map_size (hybrid_after_sample bm ov h) = map_size h"
  "virgin_edge (hybrid_after_sample bm ov h) = virgin_edge h"
  "virgin_atom (hybrid_after_sample bm ov h) = virgin_atom h"
  "virgin_atom_real (hybrid_after_sample bm ov h) = virgin_atom_real h"
  "length (virgin_missed (hybrid_after_sample bm ov h)) = length (virgin_missed h)"
  "atom_check_up (hybrid_after_sample bm ov h) = atom_check_up h"
  "atom_check_down (hybrid_after_sample bm ov h) = atom_check_down h"
  "cache (hybrid_after_sample bm ov h) = cache h"
  "inputs (hybrid_after_sample bm ov h) = inputs h"
  "path_execs (hybrid_after_sample bm ov h) = path_execs h"
  "queued_atom_paths (hybrid_after_sample bm ov h) = queued_atom_paths h"
  "n_filtered (hybrid_after_sample bm ov h) = n_filtered h"
  "n_old_path (hybrid_after_sample bm ov h) = n_old_path h"
  "n_confirmed (hybrid_after_sample bm ov h) = n_confirmed h"
  "n_cache_hits (hybrid_after_sample bm ov h) = n_cache_hits h"
  "n_input_hits (hybrid_after_sample bm ov h) = n_input_hits h"
  "n_empty (hybrid_after_sample bm ov h) = n_empty h"
  "purge_interval (hybrid_after_sample bm ov h) = purge_interval h"
  "purge_attempt (hybrid_after_sample bm ov h) = purge_attempt h"
  "purge_real (hybrid_after_sample bm ov h) = purge_real h"
  by (simp_all add: hybrid_after_sample_def Let_def)

lemma hyb_inv_after_sample [inv_intros]: "hyb_inv h \<Longrightarrow> hyb_inv (hybrid_after_sample bm ov h)"
  by (rule hyb_inv_cong) (simp_all add: frame_simps)

end
