(* ===== verification/Hybrid_Runs.thy ===== *)
theory Hybrid_Runs
  imports Hybrid
begin

text \<open>
  Sequences of \<open>hybrid_after_path\<close>, \<open>hybrid_after_confirm\<close> and
  \<open>hybrid_after_sample\<close> calls, as \<open>src/src/cs-proxy.c\<close> makes them, and what holds
  after any such sequence: what AFL++ can be shown by a discarded input, the accounting of the
  counters, the permanence of the filter, and that the accuracy samples are only observers.
\<close>

section \<open>Runs\<close>

datatype hyb_op =
    After_Path cov_map bool u64
  | After_Confirm cov_map bool
  | After_Sample cov_map bool

fun hyb_exec :: "arch \<Rightarrow> hyb_op \<Rightarrow> hybrid \<Rightarrow> hybrid" where
  "hyb_exec a (After_Path bm ov key) h = snd (snd (hybrid_after_path a bm ov key h))"
| "hyb_exec a (After_Confirm bm ov) h = hybrid_after_confirm bm ov h"
| "hyb_exec a (After_Sample bm ov) h = hybrid_after_sample bm ov h"

fun op_map :: "hyb_op \<Rightarrow> cov_map" where
  "op_map (After_Path bm ov key) = bm"
| "op_map (After_Confirm bm ov) = bm"
| "op_map (After_Sample bm ov) = bm"

definition hyb_run :: "arch \<Rightarrow> hyb_op list \<Rightarrow> hybrid \<Rightarrow> hybrid" where
  "hyb_run a ops h = fold (hyb_exec a) ops h"

text \<open>The edge maps AFL++ has been shown by confirmations, classified as it compares them.\<close>

fun confirmed_maps :: "nat \<Rightarrow> hyb_op list \<Rightarrow> cov_map list" where
  "confirmed_maps n [] = []"
| "confirmed_maps n (After_Confirm bm ov # ops) = classify n bm # confirmed_maps n ops"
| "confirmed_maps n (op # ops) = confirmed_maps n ops"

definition sized_ops :: "nat \<Rightarrow> hyb_op list \<Rightarrow> bool" where
  "sized_ops n ops \<longleftrightarrow> (\<forall>op \<in> set ops. length (op_map op) = n)"

lemma hyb_exec_inv:
  assumes "hyb_inv h" and "length (op_map op) = map_size h"
  shows "hyb_inv (hyb_exec a op h) \<and> map_size (hyb_exec a op h) = map_size h"
proof (cases op)
  case (After_Path bm ov key)
  obtain r m' h' where e: "hybrid_after_path a bm ov key h = (r, m', h')" by (metis prod_cases3)
  then show ?thesis
    using assms hyb_inv_after_path [OF assms(1) _ e] After_Path by simp
next
  case (After_Confirm bm ov)
  then show ?thesis
    using assms hyb_inv_after_confirm [of h bm ov] by (simp add: hybrid_after_confirm_frame)
next
  case (After_Sample bm ov)
  then show ?thesis
    using assms hyb_inv_after_sample [of h bm ov] by (simp add: hybrid_after_sample_frame)
qed

lemma hyb_run_inv:
  "hyb_inv h \<Longrightarrow> sized_ops (map_size h) ops \<Longrightarrow>
   hyb_inv (hyb_run a ops h) \<and> map_size (hyb_run a ops h) = map_size h"
  unfolding hyb_run_def
proof (induction ops arbitrary: h)
  case (Cons op ops)
  then have "hyb_inv (hyb_exec a op h)" "map_size (hyb_exec a op h) = map_size h"
    using hyb_exec_inv [of h op a] by (auto simp: sized_ops_def)
  with Cons show ?case by (simp add: sized_ops_def)
qed simp

lemma virgin_edge_run:
  "hyb_inv h \<Longrightarrow> sized_ops (map_size h) ops \<Longrightarrow>
   virgin_edge (hyb_run a ops h) =
     foldl (\<lambda>v c. snd (has_new_bits v c)) (virgin_edge h) (confirmed_maps (map_size h) ops)"
  unfolding hyb_run_def
proof (induction ops arbitrary: h)
  case (Cons op ops)
  then have e: "hyb_inv (hyb_exec a op h)" "map_size (hyb_exec a op h) = map_size h"
    using hyb_exec_inv [of h op a] by (auto simp: sized_ops_def)
  have "virgin_edge (hyb_exec a op h) =
    foldl (\<lambda>v c. snd (has_new_bits v c)) (virgin_edge h) (confirmed_maps (map_size h) [op])"
  proof (cases op)
    case (After_Path bm ov key)
    obtain r m' h' where e: "hybrid_after_path a bm ov key h = (r, m', h')" by (metis prod_cases3)
    then show ?thesis
      using Cons.prems hyb_inv_after_path [OF _ _ e] After_Path by (simp add: sized_ops_def)
  qed (simp_all add: hybrid_after_confirm_frame hybrid_after_sample_frame)
  moreover have "confirmed_maps n (op # ops) = confirmed_maps n [op] @ confirmed_maps n ops" for n
    by (cases op) simp_all
  ultimately show ?case using Cons e by (simp add: sized_ops_def)
qed simp

lemma hyb_inv_init: "hyb_inv (hybrid_init n m1 m2 m3)"
  by (simp add: hyb_inv_def hybrid_init_def paths.every_def seen.every_def cache_find_def input_find_def)

lemma init_simps:
  "map_size (hybrid_init n m1 m2 m3) = n"
  "virgin_edge (hybrid_init n m1 m2 m3) = replicate n 0xff"
  by (simp_all add: hybrid_init_def)

section \<open>What AFL++ sees of a discarded input\<close>

text \<open>
  C5: After any sequence of hybrid passes started by \<open>hybrid_init\<close>, when
  \<open>hybrid_after_path\<close> answers \<open>HYBRID_DISCARD\<close> the map left for AFL++ is a full
  edge map that has no bit beyond the edge maps of the confirmations made so far, all of which
  AFL++ has already been shown: a discarded input is never taken for a new one, even though what
  ran was a path trace.
\<close>

theorem discard_shows_no_new_edge:
  assumes "sized_ops n ops" and "length bm = n"
    and "hybrid_after_path a bm ov key (hyb_run a ops (hybrid_init n m1 m2 m3))
           = (HYBRID_DISCARD, bm', h')"
  shows "length bm' = n \<and>
    peek_new_bits (foldl (\<lambda>v c. snd (has_new_bits v c)) (replicate n 0xff) (confirmed_maps n ops))
      (classify n bm') = 0"
proof -
  let ?h0 = "hybrid_init n m1 m2 m3"
  have inv: "hyb_inv (hyb_run a ops ?h0)" and sz: "map_size (hyb_run a ops ?h0) = n"
    using hyb_run_inv [OF hyb_inv_init, of n m1 m2 m3 ops a] assms(1) by (simp_all add: init_simps)
  have "no_new_edges h' bm'" "map_size h' = n" "virgin_edge h' = virgin_edge (hyb_run a ops ?h0)"
    using hyb_inv_after_path [OF inv _ assms(3)] assms(2) sz by simp_all
  then show ?thesis
    using virgin_edge_run [OF hyb_inv_init, of n m1 m2 m3 ops a] assms(1)
    by (simp add: no_new_edges_def init_simps)
qed

theorem discard_shows_no_new_edge_witness:
  "\<exists>bm' h'. hybrid_after_path Arm64 [0] False 7 (hyb_run Arm64 [After_Confirm [3] False]
       (hybrid_init 1 [] [] [])) = (HYBRID_DISCARD, bm', h') \<and> length bm' = 1 \<and>
     peek_new_bits [0xff AND NOT 4] (classify 1 bm') = 0"
proof -
  let ?h = "hyb_run Arm64 [After_Confirm [3] False] (hybrid_init 1 [] [] [])"
  have sz: "map_size ?h = 1" by (simp add: hyb_run_def frame_simps init_simps)
  have "virgin_atom (path_pass [0] ?h) = [0xff]"
    by (simp add: hyb_run_def hybrid_after_confirm_def hybrid_init_def path_pass_def purge_check_def
        classify_def count_class_def has_new_bits_def remember_input_def Let_def case_prod_beta)
  then have "fst (hybrid_after_path Arm64 [0] False 7 ?h) = HYBRID_DISCARD"
    using sz hybrid_after_path_filtered [of Arm64 ?h "[0]" False 7]
      hybrid_after_path_old [of Arm64 ?h "[0]" False 7]
    by (cases "filtered (checksum Arm64 1 [0]) ?h")
      (simp_all add: classify_def count_class_def peek_new_bits_def)
  then obtain bm' h' where r: "hybrid_after_path Arm64 [0] False 7 ?h = (HYBRID_DISCARD, bm', h')"
    by (metis prod_cases3 fst_conv)
  have "length bm' = 1 \<and> peek_new_bits (foldl (\<lambda>v c. snd (has_new_bits v c)) (replicate 1 0xff)
      (confirmed_maps 1 [After_Confirm [3] False])) (classify 1 bm') = 0"
    by (rule discard_shows_no_new_edge [OF _ _ r]) (simp_all add: sized_ops_def)
  moreover have "foldl (\<lambda>v c. snd (has_new_bits v c)) (replicate 1 0xff)
      (confirmed_maps 1 [After_Confirm [3] False]) = [0xff AND NOT 4]"
    by (simp add: classify_def count_class_def has_new_bits_def)
  ultimately show ?thesis using r by metis
qed

section \<open>Accounting\<close>

definition count_inv :: "hybrid \<Rightarrow> bool" where
  "count_inv h \<longleftrightarrow>
     path_execs h = n_filtered h + n_old_path h + n_confirmed h \<and>
     n_filtered h + n_old_path h = n_input_hits h + n_cache_hits h + n_empty h \<and>
     queued_atom_paths h = n_confirmed h"

lemma discard_counts:
  assumes "length bm = map_size h"
  shows "n_cache_hits (snd (discard bm ck key h)) + (n_empty (snd (discard bm ck key h)) +
           n_input_hits (snd (discard bm ck key h))) = n_cache_hits h + (n_empty h + n_input_hits h) + 1"
    and "path_execs (snd (discard bm ck key h)) = path_execs h"
    and "n_filtered (snd (discard bm ck key h)) = n_filtered h"
    and "n_old_path (snd (discard bm ck key h)) = n_old_path h"
    and "n_confirmed (snd (discard bm ck key h)) = n_confirmed h"
    and "queued_atom_paths (snd (discard bm ck key h)) = queued_atom_paths h"
  by (rule discard_cases [OF assms, of key ck]; simp add: frame_simps)+

lemma count_inv_after_path:
  assumes "length bm = map_size h" and "count_inv h"
  shows "count_inv (snd (snd (hybrid_after_path a bm ov key h)))"
proof -
  let ?p = "path_pass bm h"
  let ?ck = "checksum a (map_size h) bm"
  consider "filtered ?ck h"
    | "\<not> filtered ?ck h" "peek_new_bits (virgin_atom ?p) (classify (map_size h) bm) = 0"
    | "\<not> filtered ?ck h" "peek_new_bits (virgin_atom ?p) (classify (map_size h) bm) \<noteq> 0"
    by blast
  then show ?thesis
    by cases (use assms in \<open>simp_all add: hybrid_after_path_simps count_inv_def discard_counts
        path_pass_frame algebra_simps\<close>)
qed

lemma count_inv_run:
  "hyb_inv h \<Longrightarrow> sized_ops (map_size h) ops \<Longrightarrow> count_inv h \<Longrightarrow> count_inv (hyb_run a ops h)"
  unfolding hyb_run_def
proof (induction ops arbitrary: h)
  case (Cons op ops)
  then have e: "hyb_inv (hyb_exec a op h)" "map_size (hyb_exec a op h) = map_size h"
    using hyb_exec_inv [of h op a] by (auto simp: sized_ops_def)
  have "count_inv (hyb_exec a op h)"
    using Cons.prems count_inv_after_path
    by (cases op) (simp_all add: sized_ops_def count_inv_def hybrid_after_confirm_frame
        hybrid_after_sample_frame)
  then show ?case using Cons e by (simp add: sized_ops_def)
qed simp

text \<open>
  C34: The counters written to the statistics file account for every pass. After any sequence of
  passes the inputs run in path mode are exactly those the filter rejected, those whose path
  held nothing new and those confirmed; every discarded one was answered from the input cache,
  the path cache or by an empty map; and the confirmed count is the number of queued paths the
  purge interval is computed from. The sums are the \<open>u64\<close> sums of the code.
\<close>

theorem stats_account_for_every_input:
  assumes "sized_ops n ops" and "h = hyb_run a ops (hybrid_init n m1 m2 m3)"
  shows "path_execs h = n_filtered h + n_old_path h + n_confirmed h \<and>
    n_filtered h + n_old_path h = n_input_hits h + n_cache_hits h + n_empty h \<and>
    queued_atom_paths h = n_confirmed h"
proof -
  have "count_inv (hybrid_init n m1 m2 m3)" by (simp add: count_inv_def hybrid_init_def)
  then have "count_inv h"
    using assms count_inv_run [OF hyb_inv_init, of n m1 m2 m3 ops a] by (simp add: init_simps)
  then show ?thesis by (simp add: count_inv_def)
qed

theorem stats_account_for_every_input_witness:
  "let h = hyb_run X86_64 [After_Path [1, 0] False 5, After_Confirm [2, 2] False, After_Path [0, 0] True 6]
             (hybrid_init 2 [] [] [])
   in path_execs h = n_filtered h + n_old_path h + n_confirmed h"
  using stats_account_for_every_input [of 2 "[After_Path [1, 0] False 5, After_Confirm [2, 2] False,
      After_Path [0, 0] True 6]" _ X86_64 "[]" "[]" "[]", OF _ refl]
  by (simp add: sized_ops_def Let_def)

section \<open>The filter is permanent\<close>

lemma discard_filter:
  "atom_check_up (snd (discard bm ck key h)) = atom_check_up h"
  "atom_check_down (snd (discard bm ck key h)) = atom_check_down h"
  by (simp_all add: discard_def frame_simps Let_def split: option.split)

lemma after_path_filter:
  "atom_check_up (snd (snd (hybrid_after_path a bm ov key h))) = atom_check_up h"
  "atom_check_down (snd (snd (hybrid_after_path a bm ov key h))) = atom_check_down h"
  by (simp_all add: hybrid_after_path_def Let_def case_prod_beta discard_filter frame_simps)

lemma filtered_exec: "filtered ck h \<Longrightarrow> filtered ck (hyb_exec a op h)"
  by (cases op) (auto simp: filtered_def after_path_filter hybrid_after_confirm_frame
      hybrid_after_sample_frame confirm_pass_filter)

lemma filtered_run: "filtered ck h \<Longrightarrow> filtered ck (hyb_run a ops h)"
  by (induction ops arbitrary: h) (simp_all add: hyb_run_def filtered_exec)

lemma confirm_without_news_filters:
  assumes "peek_new_bits (virgin_edge h) (classify (map_size h) em) = 0"
  shows "filtered (path_kept_cksum h) (hybrid_after_confirm em ov h)"
  using assms by (simp add: filtered_def hybrid_after_confirm_frame confirm_pass_filter)

lemma map_size_after_path: "map_size (snd (snd (hybrid_after_path a bm ov key h))) = map_size h"
  by (simp add: hybrid_after_path_def discard_def Let_def case_prod_beta frame_simps split: option.split)

lemma map_size_run: "map_size (hyb_run a ops h) = map_size h"
proof (induction ops arbitrary: h)
  case (Cons op ops)
  then show ?case
    by (cases op) (simp_all add: hyb_run_def map_size_after_path hybrid_after_confirm_frame
        hybrid_after_sample_frame)
qed (simp add: hyb_run_def)

text \<open>
  C24: A path that turned out, in edge mode, to hold no new edge is confirmed once and never again.
  From the moment \<open>hybrid_after_confirm\<close> marked its checksum, the same path map is answered by
  \<open>HYBRID_DISCARD\<close> and counted as filtered, after any further sequence of passes. Purges are
  included: \<open>purge_check\<close> resets \<open>virgin_atom\<close> only, and the checksum filter, which is asked first and is
  never cleared, keeps the path out, although the comment on \<open>purge_check\<close> says it forgets paths that
  led nowhere so that they can be confirmed again.
\<close>

theorem unproductive_path_confirmed_once:
  assumes "hybrid_after_path a bm ov key h = (HYBRID_CONFIRM, bm', h1)"
    and "peek_new_bits (virgin_edge h1) (classify (map_size h1) em) = 0"
    and "h2 = hyb_run a ops (hybrid_after_confirm em ov1 h1)"
    and "hybrid_after_path a bm ov2 key2 h2 = (v, bm2, h3)"
  shows "v = HYBRID_DISCARD \<and> n_filtered h3 = n_filtered h2 + 1"
proof -
  let ?ck = "checksum a (map_size h) bm"
  have "path_kept_cksum h1 = ?ck" "map_size h1 = map_size h"
    using assms(1) map_size_after_path [of a bm ov key h]
    by (auto simp: hybrid_after_path_def Let_def case_prod_beta frame_simps split: if_splits)
  then have sz: "map_size h2 = map_size h" and "filtered ?ck h2"
    using assms(2,3) confirm_without_news_filters [of h1 em ov1]
    by (auto simp: map_size_run hybrid_after_confirm_frame intro: filtered_run)
  then show ?thesis
    using assms(4) hybrid_after_path_filtered [of a h2 bm ov2 key2]
    by (auto simp: discard_def Let_def frame_simps split: option.splits)
qed

theorem unproductive_path_confirmed_once_witness:
  "\<exists>bm3 h3. hybrid_after_path Arm64 [5] True 9 (hybrid_after_confirm [0] False
       (snd (snd (hybrid_after_path Arm64 [5] False 9 (hybrid_init 1 [] [] [])))))
     = (HYBRID_DISCARD, bm3, h3)"
proof -
  let ?h = "hybrid_init 1 [] [] []"
  have nf: "\<not> filtered ck ?h" for ck by (simp add: filtered_def hybrid_init_def)
  have "virgin_atom (path_pass [5] ?h) = [0xff]"
    by (simp add: path_pass_def purge_check_def hybrid_init_def)
  then obtain h1 where r: "hybrid_after_path Arm64 [5] False 9 ?h = (HYBRID_CONFIRM, [5], h1)"
    using hybrid_after_path_new [OF nf, where bm = "[5]"]
    by (simp add: init_simps classify_def count_class_def peek_new_bits_def)
  have v: "virgin_edge h1 = [0xff]" "map_size h1 = 1"
    using hyb_inv_after_path [OF hyb_inv_init _ r] by (simp_all add: init_simps)
  let ?h2 = "hyb_run Arm64 [] (hybrid_after_confirm [0] False h1)"
  obtain v b3 h3 where q: "hybrid_after_path Arm64 [5] True 9 ?h2 = (v, b3, h3)"
    by (metis prod_cases3)
  have "v = HYBRID_DISCARD \<and> n_filtered h3 = n_filtered ?h2 + 1"
    using unproductive_path_confirmed_once [OF r _ refl q] v
    by (simp add: classify_def count_class_def peek_new_bits_def)
  with q r show ?thesis by (simp add: hyb_run_def)
qed

section \<open>Samples are observers\<close>

text \<open>The state without what only the accuracy samples write.\<close>

definition strip :: "hybrid \<Rightarrow> hybrid" where
  "strip h = h\<lparr>edge_cls := [], virgin_missed := [], n_sampled := 0, n_sample_overflow := 0,
     n_sample_new := 0, n_sample_new_tuples := 0, n_sample_new_filtered := 0\<rparr>"

lemma strip_sel [simp]:
  "map_size (strip h) = map_size h"
  "virgin_edge (strip h) = virgin_edge h"
  "virgin_atom (strip h) = virgin_atom h"
  "virgin_atom_real (strip h) = virgin_atom_real h"
  "real_execs (strip h) = real_execs h"
  "pre_real_execs (strip h) = pre_real_execs h"
  "pre_virgin_bits (strip h) = pre_virgin_bits h"
  "purge_interval (strip h) = purge_interval h"
  "inputs (strip h) = inputs h"
  "cache (strip h) = cache h"
  by (simp_all add: strip_def)

lemma strip_purge_check: "purge_check (strip h) = strip (purge_check h)"
  by (simp add: purge_check_def purge_def should_purge_def next_interval_def strip_def Let_def)

lemma strip_discard: "discard bm ck key (strip h) = (fst (discard bm ck key h), strip (snd (discard bm ck key h)))"
  by (simp add: discard_def remember_input_def strip_def Let_def split: option.split)

lemma strip_path_pass: "path_pass bm (strip h) = strip (path_pass bm h)"
proof -
  have "(strip h)\<lparr>path_execs := path_execs (strip h) + 1\<rparr> = strip (h\<lparr>path_execs := path_execs h + 1\<rparr>)"
    by (simp add: strip_def)
  moreover have "(strip g)\<lparr>path_cls := c, last_filtered := False\<rparr> = strip (g\<lparr>path_cls := c, last_filtered := False\<rparr>)"
    for g c by (simp add: strip_def)
  ultimately show ?thesis by (simp add: path_pass_def Let_def strip_purge_check)
qed

lemma strip_after_path:
  "hybrid_after_path a bm ov key (strip h) =
     (fst (hybrid_after_path a bm ov key h), fst (snd (hybrid_after_path a bm ov key h)),
      strip (snd (snd (hybrid_after_path a bm ov key h))))"
proof -
  have f: "filtered ck (strip h) = filtered ck h" for ck by (simp add: filtered_def strip_def)
  have c: "n_filtered (strip h) = n_filtered h" "n_old_path (strip h) = n_old_path h"
    "n_confirmed (strip h) = n_confirmed h" "queued_atom_paths (strip h) = queued_atom_paths h"
    by (simp_all add: strip_def)
  let ?p = "path_pass bm h"
  let ?ck = "checksum a (map_size h) bm"
  have u: "(strip ?p)\<lparr>n_filtered := x, last_filtered := b\<rparr> = strip (?p\<lparr>n_filtered := x, last_filtered := b\<rparr>)"
    "(strip ?p)\<lparr>virgin_atom := v, n_old_path := x\<rparr> = strip (?p\<lparr>virgin_atom := v, n_old_path := x\<rparr>)"
    for x b v by (simp_all add: strip_def)
  consider "filtered ?ck h"
    | "\<not> filtered ?ck h" "peek_new_bits (virgin_atom ?p) (classify (map_size h) bm) = 0"
    | "\<not> filtered ?ck h" "peek_new_bits (virgin_atom ?p) (classify (map_size h) bm) \<noteq> 0"
    by blast
  then show ?thesis
    by cases (simp_all add: hybrid_after_path_simps strip_path_pass f c u strip_discard,
        simp add: strip_def)
qed

lemma strip_confirm_pass: "strip (confirm_pass bm (strip h)) = strip (confirm_pass bm h)"
proof -
  define g where "g = purge_check h"
  show ?thesis
    unfolding confirm_pass_def strip_purge_check g_def [symmetric]
    by (cases "fst (has_new_bits (virgin_edge g) (classify (map_size g) bm)) = 0")
      (simp_all add: Let_def case_prod_beta strip_def)
qed

lemma strip_cache_input:
  "strip (remember_input (path_kept_input u) bm (u\<lparr>cache := c\<rparr>)) =
     remember_input (path_kept_input (strip u)) bm ((strip u)\<lparr>cache := c\<rparr>)"
  by (simp add: remember_input_def strip_def)

lemma strip_after_confirm: "strip (hybrid_after_confirm bm ov (strip h)) = strip (hybrid_after_confirm bm ov h)"
proof -
  let ?u = "confirm_pass bm (strip h)" and ?w = "confirm_pass bm h"
  have e: "strip ?u = strip ?w" by (rule strip_confirm_pass)
  have k: "path_kept_overflow ?u = path_kept_overflow ?w" "path_kept_cksum ?u = path_kept_cksum ?w"
    "map_size ?u = map_size ?w" "cache ?u = cache ?w"
    by (simp_all add: confirm_pass_frame, simp_all add: strip_def)
  show ?thesis
    by (simp add: hybrid_after_confirm_eq Let_def k e strip_cache_input)
qed

lemma strip_after_sample: "strip (hybrid_after_sample bm ov h) = strip h"
  by (simp add: hybrid_after_sample_def strip_def Let_def)

lemma strip_exec: "strip h = strip k \<Longrightarrow> strip (hyb_exec a op h) = strip (hyb_exec a op k)"
proof (cases op)
  case (After_Path bm ov key)
  assume "strip h = strip k"
  then show ?thesis
    using strip_after_path [of a bm ov key h] strip_after_path [of a bm ov key k] After_Path by simp
next
  case (After_Confirm bm ov)
  assume "strip h = strip k"
  then show ?thesis
    using strip_after_confirm [of bm ov h] strip_after_confirm [of bm ov k] After_Confirm by simp
qed (simp add: strip_after_sample)

lemma strip_run: "strip h = strip k \<Longrightarrow> strip (hyb_run a ops h) = strip (hyb_run a ops k)"
  unfolding hyb_run_def
proof (induction ops arbitrary: h k)
  case (Cons op ops)
  show ?case using Cons.IH [OF strip_exec [OF Cons.prems]] by (simp only: fold_simps)
qed (simp only: fold_simps)

fun is_sample :: "hyb_op \<Rightarrow> bool" where
  "is_sample (After_Sample bm ov) = True"
| "is_sample op = False"

lemma strip_run_samples: "strip (hyb_run a ops h) = strip (hyb_run a (filter (\<lambda>op. \<not> is_sample op) ops) h)"
proof (induction ops arbitrary: h)
  case (Cons op ops)
  show ?case
  proof (cases "is_sample op")
    case True
    then obtain bm ov where op: "op = After_Sample bm ov" by (cases op) simp_all
    have "strip (hyb_run a ops (hybrid_after_sample bm ov h)) = strip (hyb_run a ops h)"
      by (rule strip_run) (rule strip_after_sample)
    with Cons show ?thesis by (simp add: op hyb_run_def)
  next
    case False
    with Cons show ?thesis by (simp add: hyb_run_def)
  qed
qed simp

text \<open>
  C25: The accuracy samples (edge-mode re-runs of discarded inputs, enabled by the sampling
  option) only observe. In any sequence of passes, leaving every \<open>hybrid_after_sample\<close>
  out changes neither the verdict on the next input nor the map AFL++ is shown for it.
\<close>

theorem samples_do_not_influence_fuzzing:
  "let r = hybrid_after_path a bm ov key (hyb_run a ops h);
       r' = hybrid_after_path a bm ov key (hyb_run a (filter (\<lambda>op. \<not> is_sample op) ops) h)
   in fst r = fst r' \<and> fst (snd r) = fst (snd r')"
proof -
  let ?k = "hyb_run a ops h" and ?l = "hyb_run a (filter (\<lambda>op. \<not> is_sample op) ops) h"
  have "hybrid_after_path a bm ov key (strip ?k) = hybrid_after_path a bm ov key (strip ?l)"
    by (simp only: strip_run_samples [of a ops h])
  then show ?thesis by (simp add: strip_after_path Let_def)
qed

section \<open>The purge interval\<close>

lemma scaled_interval_bounds:
  fixes base att re :: rat
  assumes b: "3000 \<le> base" "base \<le> 30000" and r: "re \<le> att + 1" "21 \<le> re" and a: "att \<le> 2 ^ 48"
  defines "iv \<equiv> rnd53 (rnd53 base * rnd53 (rnd53 (rnd53 att * 1) / rnd53 re))"
  shows "2857 \<le> iv" and "iv < 2 ^ 63"
proof -
  let ?d = "1 - 1 / 2 ^ 53 :: rat" and ?u = "1 + 1 / 2 ^ 53 :: rat"
  have att: "20 \<le> att" using r by simp
  have re: "re * ?d \<le> rnd53 re" "rnd53 re \<le> re * ?u"
    using r by (intro rnd53_ge rnd53_le; simp)+
  have "20 * ?d \<le> re * ?d" using r by (intro mult_right_mono) simp_all
  then have re20: "20 * ?d \<le> rnd53 re" using re(1) by (rule order_trans)
  have re0: "0 < rnd53 re" by (rule less_le_trans [OF _ re20]) simp
  have at: "att * ?d * ?d \<le> rnd53 (rnd53 att * 1)" "rnd53 (rnd53 att * 1) \<le> att * ?u * ?u"
    using att rnd53_lower [of att] rnd53_upper [of att]
    by (intro rnd53_ge rnd53_le; simp)+
  have "20 / 21 * re \<le> att" using r by simp
  then have "20 / 21 * ?d * ?d / ?u * (re * ?u) \<le> att * ?d * ?d" by simp
  also have "\<dots> \<le> rnd53 (rnd53 att * 1)" by (rule at)
  finally have "20 / 21 * ?d * ?d / ?u * (re * ?u) \<le> rnd53 (rnd53 att * 1)" .
  moreover have "20 / 21 * ?d * ?d / ?u * rnd53 re \<le> 20 / 21 * ?d * ?d / ?u * (re * ?u)"
    using re(2) by (rule mult_left_mono) simp
  ultimately have "20 / 21 * ?d * ?d / ?u * rnd53 re \<le> rnd53 (rnd53 att * 1)" by linarith
  then have q: "20 / 21 * ?d * ?d / ?u \<le> rnd53 (rnd53 att * 1) / rnd53 re"
    using re0 by (simp add: pos_le_divide_eq)
  have q': "rnd53 (rnd53 att * 1) / rnd53 re \<le> (2 ^ 48 * ?u * ?u) / (20 * ?d)"
  proof (rule frac_le)
    have "att * ?u * ?u \<le> 2 ^ 48 * ?u * ?u" using a by (intro mult_right_mono) simp_all
    with at(2) show "rnd53 (rnd53 att * 1) \<le> 2 ^ 48 * ?u * ?u" by (rule order_trans)
    show "20 * ?d \<le> rnd53 re" by (rule re20)
  qed simp_all
  have rq: "20 / 21 * ?d * ?d / ?u * ?d \<le> rnd53 (rnd53 (rnd53 att * 1) / rnd53 re)"
    using q by (intro rnd53_ge) simp_all
  have rq': "rnd53 (rnd53 (rnd53 att * 1) / rnd53 re) \<le> (2 ^ 48 * ?u * ?u) / (20 * ?d) * ?u"
    using q' order_trans [OF _ q] by (intro rnd53_le) simp_all
  have bs: "3000 * ?d \<le> rnd53 base" "rnd53 base \<le> 30000 * ?u"
    using b by (intro rnd53_ge rnd53_le; simp)+
  have "3000 * ?d * (20 / 21 * ?d * ?d / ?u * ?d) \<le> rnd53 base * rnd53 (rnd53 (rnd53 att * 1) / rnd53 re)"
    using bs rq by (intro mult_mono) (simp_all add: order_trans [OF _ bs(1)])
  then have "3000 * ?d * (20 / 21 * ?d * ?d / ?u * ?d) * ?d \<le> iv"
    unfolding iv_def by (intro rnd53_ge) simp_all
  then show "2857 \<le> iv" by (rule order_trans [rotated]) simp
  have "rnd53 base * rnd53 (rnd53 (rnd53 att * 1) / rnd53 re) \<le> 30000 * ?u * ((2 ^ 48 * ?u * ?u) / (20 * ?d) * ?u)"
    using bs rq' order_trans [OF _ rq] by (intro mult_mono) simp_all
  moreover have "0 \<le> rnd53 base * rnd53 (rnd53 (rnd53 att * 1) / rnd53 re)"
    using bs rq by (intro mult_nonneg_nonneg) (simp_all add: order_trans [OF _ bs(1)] order_trans [OF _ rq])
  ultimately have "iv \<le> 30000 * ?u * ((2 ^ 48 * ?u * ?u) / (20 * ?d) * ?u) * ?u"
    unfolding iv_def by (intro rnd53_le)
  then show "iv < 2 ^ 63" by (rule le_less_trans) simp
qed

lemma ull_of_dbl_bounds:
  assumes "of_nat k \<le> x" and "x < 2 ^ 63"
  shows "k \<le> unat (ull_of_dbl x)"
proof -
  have "int k \<le> \<lfloor>x\<rfloor>" and hi: "\<lfloor>x\<rfloor> < 2 ^ 63"
    using assms by (simp_all add: le_floor_iff floor_less_iff)
  moreover have "\<lfloor>x\<rfloor> < 2 ^ 64" by (rule less_trans [OF hi]) simp
  ultimately have "take_bit 64 \<lfloor>x\<rfloor> = \<lfloor>x\<rfloor>" by (intro take_bit_int_eq_self) linarith+
  moreover have "uint (of_int f :: u64) = take_bit 64 f" for f by (simp add: unsigned_of_int)
  ultimately have "uint (of_int \<lfloor>x\<rfloor> :: u64) = \<lfloor>x\<rfloor>" by simp
  with \<open>int k \<le> \<lfloor>x\<rfloor>\<close> show ?thesis by (simp add: ull_of_dbl_def unat_eq_nat_uint)
qed

lemma next_interval_bounds:
  assumes "20 < unat (purge_real h)" and "unat (purge_real h) \<le> unat (purge_attempt h) + 1"
    and "unat (purge_attempt h) \<le> 2 ^ 48"
  shows "2857 \<le> unat (next_interval h)" and "unat (next_interval h) \<le> 30000"
proof -
  let ?r = "of_nat (unat (purge_real h)) :: rat" and ?a = "of_nat (unat (purge_attempt h)) :: rat"
  have "(of_nat x :: rat) \<le> of_nat y + 1 \<and> (21 :: rat) \<le> of_nat x \<and> of_nat y \<le> (2 ^ 48 :: rat)"
    if "20 < x" "x \<le> y + 1" "y \<le> 2 ^ 48" for x y :: nat
    using that of_nat_mono [OF that(3), where ?'a = rat] of_nat_mono [OF that(2), where ?'a = rat]
    by simp
  from this [OF assms] have r: "?r \<le> ?a + 1" "21 \<le> ?r" "?a \<le> 2 ^ 48" by blast+
  define iv where "iv base = rnd53 (rnd53 base * rnd53 (rnd53 (rnd53 ?a * 1) / rnd53 ?r))" for base
  have "2857 \<le> unat (ull_of_dbl (iv base))" if "3000 \<le> base" "base \<le> 30000" for base
    using scaled_interval_bounds [OF that r] by (intro ull_of_dbl_bounds) (simp_all add: iv_def)
  then show "2857 \<le> unat (next_interval h)"
    by (simp add: next_interval_def Let_def dbl_def dbl_mul_def dbl_div_def iv_def)
  show "unat (next_interval h) \<le> 30000"
    by (simp add: next_interval_def Let_def word_less_nat_alt word_le_nat_alt not_less)
qed

definition purge_inv :: "nat \<Rightarrow> hybrid \<Rightarrow> bool" where
  "purge_inv k h \<longleftrightarrow>
     unat (purge_real h) \<le> unat (purge_attempt h) \<and> unat (purge_attempt h) \<le> k \<and>
     2857 \<le> unat (purge_interval h) \<and> unat (purge_interval h) \<le> 30000"

lemma unat_Suc_64: "unat (x :: u64) < 2 ^ 48 \<Longrightarrow> unat (x + 1) = unat x + 1"
  using unat_add_lem [of x 1] by simp

lemma purge_inv_check:
  assumes "purge_inv k h" and "k < 2 ^ 48"
  shows "purge_inv (Suc k) (purge_check h)"
proof -
  have s: "unat (purge_real h + 1) = unat (purge_real h) + 1"
    "unat (purge_attempt h + 1) = unat (purge_attempt h) + 1"
    using assms unat_Suc_64 [of "purge_real h"] unat_Suc_64 [of "purge_attempt h"]
    by (simp_all add: purge_inv_def)
  let ?g = "h\<lparr>real_execs := real_execs h + 1, virgin_atom := virgin_atom_real h, purge_real := purge_real h + 1\<rparr>"
  have "20 < unat (purge_real h + 1) \<Longrightarrow>
    2857 \<le> unat (next_interval ?g) \<and> unat (next_interval ?g) \<le> 30000"
    using assms s next_interval_bounds [of ?g] by (simp add: purge_inv_def)
  then show ?thesis
    using assms s by (simp add: purge_check_def purge_def purge_inv_def Let_def word_less_nat_alt)
qed

lemma purge_inv_exec:
  assumes "purge_inv k h" and "k < 2 ^ 48"
  shows "purge_inv (Suc k) (hyb_exec a op h)"
proof (cases op)
  case (After_Path bm ov key)
  have "purge_inv k (h\<lparr>path_execs := path_execs h + 1\<rparr>)" using assms by (simp add: purge_inv_def)
  from purge_inv_check [OF this assms(2)] show ?thesis
    using After_Path
    by (simp add: purge_inv_def hybrid_after_path_def discard_def Let_def case_prod_beta frame_simps
        split: option.split)
next
  case (After_Confirm bm ov)
  from purge_inv_check [OF assms] show ?thesis
    using After_Confirm
    by (simp add: purge_inv_def hybrid_after_confirm_def Let_def case_prod_beta frame_simps)
next
  case (After_Sample bm ov)
  then show ?thesis using assms by (simp add: purge_inv_def hybrid_after_sample_frame)
qed

lemma purge_inv_run:
  "purge_inv k h \<Longrightarrow> k + length ops < 2 ^ 48 \<Longrightarrow> purge_inv (k + length ops) (hyb_run a ops h)"
  unfolding hyb_run_def
proof (induction ops arbitrary: h k)
  case (Cons op ops)
  have "purge_inv (Suc k) (hyb_exec a op h)" using Cons.prems by (intro purge_inv_exec) simp_all
  from Cons.IH [OF this] Cons.prems show ?case by simp
qed simp

text \<open>
  C35: The purge interval stays useful. It is computed in double arithmetic from the ratio of
  attempted to performed purges and truncated to an integer; after any sequence of fewer than
  \<open>2\<^sup>4\<^sup>8\<close> passes it lies between 2857 and \<open>PURGE_INTERVAL_LEVEL4\<close> executions, so
  purging neither happens at every execution nor stops, and no more purges are counted than
  attempts.
\<close>

theorem purge_interval_bounded:
  assumes "length ops < 2 ^ 48"
  shows "2857 \<le> purge_interval (hyb_run a ops (hybrid_init n m1 m2 m3)) \<and>
    purge_interval (hyb_run a ops (hybrid_init n m1 m2 m3)) \<le> PURGE_INTERVAL_LEVEL4 \<and>
    purge_real (hyb_run a ops (hybrid_init n m1 m2 m3))
      \<le> purge_attempt (hyb_run a ops (hybrid_init n m1 m2 m3))"
  using purge_inv_run [of 0 "hybrid_init n m1 m2 m3" ops a] assms
  by (simp add: purge_inv_def word_le_nat_alt hybrid_init_def)

theorem purge_interval_bounded_witness:
  "2857 \<le> purge_interval (hyb_run Arm64 [After_Path [1] False 3] (hybrid_init 1 [] [] []))"
  using purge_interval_bounded [of "[After_Path [1] False 3]" Arm64 1 "[]" "[]" "[]"] by simp

end
