(* ===== verification/Utils.thy ===== *)
theory Utils
  imports C_Lib
begin

text \<open>
  \<open>src/src/utils.c\<close> with \<open>src/include/utils.h\<close>: the traced address ranges read from
  \<open>/proc/PID/maps\<close>, the arguments exported for the offline decoder, the choice of CPU cores,
  the u-dma-buf attributes and the small string helpers. Files, directory listings and system
  calls are arguments: a file is its contents or \<open>None\<close> when it cannot be opened.
\<close>

unbundle bit_operations_syntax

section \<open>Dumps\<close>

text \<open>
  \<open>dump_buf\<close>: \<open>accepted\<close> is how many of the bytes \<open>fwrite\<close> takes; the files written so far, the
  newest first. A file that cannot be opened is reported and nothing is written.
\<close>

definition dump_buf ::
  "(string \<Rightarrow> bool) \<Rightarrow> nat \<Rightarrow> u8 list \<Rightarrow> string \<Rightarrow> (string \<times> u8 list) list \<Rightarrow> (string \<times> u8 list) list" where
  "dump_buf fopen_w accepted bytes path files =
     (if fopen_w path then (path, take accepted bytes) # files else files)"

text \<open>The lines \<open>getline\<close> returns, each with its newline.\<close>

fun getline_all :: "string \<Rightarrow> string \<Rightarrow> string list" where
  "getline_all cur [] = (if cur = [] then [] else [cur])"
| "getline_all cur (c # cs) =
     (if c = CHR 0x0A then (cur @ [c]) # getline_all [] cs else getline_all (cur @ [c]) cs)"

text \<open>\<open>dump_maps\<close>: what is printed; \<open>%s\<close> stops at a null byte.\<close>

definition dump_maps :: "string option \<Rightarrow> string" where
  "dump_maps maps =
     (case maps of None \<Rightarrow> [] | Some s \<Rightarrow> concat (map (takeWhile (\<lambda>c. c \<noteq> CHR 0x00)) (getline_all [] s)))"

lemma getline_all_concat: "concat (getline_all cur s) = cur @ s"
  by (induction cur s rule: getline_all.induct) auto

text \<open>The file is copied as it is, as long as it holds no null byte.\<close>

lemma dump_maps_copies:
  assumes "CHR 0x00 \<notin> set s"
  shows "dump_maps (Some s) = s"
proof -
  have "\<forall>l \<in> set (getline_all [] s). takeWhile (\<lambda>c. c \<noteq> CHR 0x00) l = l"
    using assms getline_all_concat [of "[]" s]
    by (auto simp: takeWhile_eq_all_conv) (metis UN_I append_Nil set_concat)
  then have "map (takeWhile (\<lambda>c. c \<noteq> CHR 0x00)) (getline_all [] s) = getline_all [] s"
    by (simp add: map_idI)
  then show ?thesis by (simp add: dump_maps_def getline_all_concat)
qed

section \<open>Mapped ranges\<close>

abbreviation PAGE_SIZE :: u64 where "PAGE_SIZE \<equiv> 0x1000"
abbreviation (input) RANGE_MAX :: nat where "RANGE_MAX \<equiv> 2"
abbreviation PATH_MAX :: nat where "PATH_MAX \<equiv> 4096"

definition ALIGN_UP :: "u64 \<Rightarrow> u64 \<Rightarrow> u64" where
  "ALIGN_UP val align = (val + align - 1) AND NOT (align - 1)"

text \<open>\<open>buf\<close> is the address of the mapped image, 0 for \<open>NULL\<close>.\<close>

record map_info =
  mi_start :: u64
  mi_end :: u64
  mi_offset :: u64
  mi_buf :: u64
  mi_path :: string

text \<open>The variables \<open>sscanf\<close> fills; a conversion that fails leaves the later ones alone.\<close>

record maps_vars =
  v_start :: u64
  v_end :: u64
  v_x :: char
  v_offset :: u64

text \<open>\<open>sscanf(line, "%lx-%lx %c%c%c%c %lx", &start, &end, &c, &c, &x, &c, &offset)\<close>.\<close>

definition sscanf_tail :: "string \<Rightarrow> maps_vars \<Rightarrow> maps_vars" where
  "sscanf_tail r v =
     (case dropWhile isspace r of
        _ # _ # x # rest \<Rightarrow>
          let v = v\<lparr>v_x := x\<rparr>
          in (case rest of
                _ # r \<Rightarrow> (case scan_hex r of None \<Rightarrow> v | Some (off, _) \<Rightarrow> v\<lparr>v_offset := off\<rparr>)
              | [] \<Rightarrow> v)
      | _ \<Rightarrow> v)"

definition sscanf_maps :: "string \<Rightarrow> maps_vars \<Rightarrow> maps_vars" where
  "sscanf_maps line v =
     (case scan_hex line of
        None \<Rightarrow> v
      | Some (s, r) \<Rightarrow>
          let v = v\<lparr>v_start := s\<rparr>
          in (case r of
                d # r \<Rightarrow>
                  if d = CHR ''-''
                  then (case scan_hex r of
                          None \<Rightarrow> v
                        | Some (e, r) \<Rightarrow> sscanf_tail r (v\<lparr>v_end := e\<rparr>))
                  else v
              | [] \<Rightarrow> v))"

text \<open>
  The body of the \<open>getline\<close> loop of \<open>setup_map_info\<close>: executable regions only, the last slot
  reserved for the library named by \<open>CS_TRACE_LIB\<close>.
\<close>

definition map_line ::
  "string option \<Rightarrow> nat \<Rightarrow> string \<Rightarrow> maps_vars \<times> map_info list \<Rightarrow> maps_vars \<times> map_info list" where
  "map_line trace_lib_name info_count_max line st =
     (let (v, infos) = st; v = sscanf_maps line v
      in if v_x v \<noteq> CHR ''x'' then (v, infos)
         else if length infos \<ge> info_count_max then (v, infos)
         else if Suc (length infos) = info_count_max \<and>
                 (case trace_lib_name of
                    None \<Rightarrow> True
                  | Some lib \<Rightarrow>
                      (case strchr CHR ''/'' line of None \<Rightarrow> True | Some p \<Rightarrow> \<not> strstr p lib))
           then (v, infos)
         else
           (case strchr CHR ''/'' line of
              None \<Rightarrow> (v, infos)
            | Some p \<Rightarrow>
                (v, infos @ [\<lparr>mi_start = v_start v, mi_end = v_end v, mi_offset = v_offset v,
                              mi_buf = 0, mi_path = take (PATH_MAX - 1) p\<rparr>])))"

text \<open>
  The second loop maps the image of every range. \<open>open_file\<close> gives a descriptor or \<open>-1\<close>, and
  \<open>mmap_file\<close> an address, all ones for \<open>MAP_FAILED\<close>; the tests are the code's.
\<close>

record file_env =
  open_file :: "string \<Rightarrow> int"
  mmap_file :: "int \<Rightarrow> u64 \<Rightarrow> u64 \<Rightarrow> u64"

abbreviation MAP_FAILED :: u64 where "MAP_FAILED \<equiv> - 1"

fun map_images :: "file_env \<Rightarrow> map_info list \<Rightarrow> map_info list \<Rightarrow> bool \<times> map_info list" where
  "map_images e done [] = (True, done)"
| "map_images e done (m # ms) =
     (let fd = open_file e (mi_path m)
      in if fd < - 1 then (False, done @ m # ms)
         else
           let buf = mmap_file e fd (ALIGN_UP (mi_end m - mi_start m) PAGE_SIZE) (mi_offset m)
           in if buf = 0 then (False, done @ m # ms)
              else map_images e (done @ [m\<lparr>mi_buf := buf\<rparr>]) ms)"

definition setup_map_info ::
  "file_env \<Rightarrow> environ \<Rightarrow> string option \<Rightarrow> maps_vars \<Rightarrow> nat \<Rightarrow> int \<times> map_info list" where
  "setup_map_info e env maps v info_count_max =
     (case maps of
        None \<Rightarrow> (- 1, [])
      | Some txt' \<Rightarrow>
          let (_, infos) =
                fold (map_line (env ''CS_TRACE_LIB'') info_count_max) (split_lines [] txt') (v, []);
              (ok, infos) = map_images e [] infos
          in if ok then (int (length infos), infos) else (- 1, infos))"

text \<open>
  The text \<open>export_decoder_args\<close> writes; \<open>None\<close> when the arguments are refused or the file
  cannot be opened for writing. Writing to the buffered stream is taken to succeed.
\<close>

definition export_decoder_args :: "(string \<Rightarrow> bool) \<Rightarrow> int \<Rightarrow> string option \<Rightarrow> string option \<Rightarrow> map_info list option \<Rightarrow> string option" where
  "export_decoder_args fopen_w trace_id trace_path args_path infos =
     (case (trace_path, args_path, infos) of
        (Some tp, Some ap, Some ms) \<Rightarrow>
          if trace_id < 0 \<or> \<not> fopen_w ap then None
          else Some (CHR '' '' # tp @ '' 0x'' @ hex_string (nat trace_id) @ CHR '' '' # dec_string (length ms) @
                 concat (map (\<lambda>m. CHR '' '' # mi_path m @ '' 0x'' @ hex_string (unat (mi_start m)) @
                                  '' 0x'' @ hex_string (unat (mi_end m))) ms))
      | _ \<Rightarrow> None)"

definition dump_map_info :: "map_info list \<Rightarrow> string list" where
  "dump_map_info ms =
     map (\<lambda>m. ''[0x'' @ hex_string (unat (mi_start m)) @ ''-0x'' @ hex_string (unat (mi_end m)) @
               '']@0x'' @ hex_string (unat (mi_offset m)) @ '': '' @ mi_path m) ms"

section \<open>CPU cores\<close>

text \<open>
  \<open>alloc_cpu_set\<close> rounds the set up to whole 64-bit words; \<open>CPU_SET_S\<close> ignores a CPU beyond it.
\<close>

type_synonym cpu_set = "nat \<Rightarrow> bool"

definition cpu_set_s :: "nat \<Rightarrow> int \<Rightarrow> cpu_set \<Rightarrow> cpu_set" where
  "cpu_set_s nprocs cpu s =
     (if 0 \<le> cpu \<and> cpu < 64 * int ((nprocs + 63) div 64) then s(nat cpu := True) else s)"

text \<open>The pieces \<open>getdelim\<close> returns, each with its delimiter.\<close>

fun getdelims :: "char \<Rightarrow> string \<Rightarrow> string \<Rightarrow> string list" where
  "getdelims d cur [] = (if cur = [] then [] else [cur])"
| "getdelims d cur (c # cs) =
     (if c = d then (cur @ [c]) # getdelims d [] cs else getdelims d (cur @ [c]) cs)"

definition core_cpu_token :: "string \<Rightarrow> int" where
  "core_cpu_token token = strtol0 (if length token > 1 then butlast token else token)"

fun set_core_tokens :: "nat \<Rightarrow> string list \<Rightarrow> cpu_set \<Rightarrow> bool \<times> cpu_set" where
  "set_core_tokens nprocs [] s = (True, s)"
| "set_core_tokens nprocs (t # ts) s =
     (if core_cpu_token t = - (2 ^ 63) \<or> core_cpu_token t = 2 ^ 63 - 1 then (False, s)
      else set_core_tokens nprocs ts
             (cpu_set_s nprocs (sint (word_of_int (core_cpu_token t) :: u32)) s))"

definition set_core_cpus ::
  "(string \<Rightarrow> string option) \<Rightarrow> nat \<Rightarrow> nat \<Rightarrow> cpu_set \<Rightarrow> bool \<times> cpu_set" where
  "set_core_cpus rd nprocs cpu s =
     (case rd (''/sys/devices/system/cpu/cpu'' @ dec_string cpu @ ''/topology/core_cpus_list'') of
        None \<Rightarrow> (False, s)
      | Some inp \<Rightarrow> set_core_tokens nprocs (getdelims CHR '','' [] inp) s)"

fun set_cores ::
  "(string \<Rightarrow> string option) \<Rightarrow> nat \<Rightarrow> cpu_set \<Rightarrow> nat list \<Rightarrow> cpu_set \<Rightarrow> bool \<times> cpu_set" where
  "set_cores rd nprocs aff [] s = (True, s)"
| "set_cores rd nprocs aff (i # is) s =
     (if aff i
      then (let (ok, s) = set_core_cpus rd nprocs i s
            in if ok then set_cores rd nprocs aff is s else (False, s))
      else set_cores rd nprocs aff is s)"

text \<open>\<open>affinity\<close> is what \<open>sched_getaffinity\<close> returned, \<open>None\<close> when it failed.\<close>

definition get_preferred_cpu ::
  "(string \<Rightarrow> string option) \<Rightarrow> nat \<Rightarrow> cpu_set option \<Rightarrow> int" where
  "get_preferred_cpu rd nprocs affinity =
     (case affinity of
        None \<Rightarrow> - 1
      | Some aff \<Rightarrow>
          let (ok, core) = set_cores rd nprocs aff [0..<nprocs] (\<lambda>_. False)
          in if \<not> ok then - 1
             else (case List.find (\<lambda>i. \<not> core i) [0..<nprocs] of None \<Rightarrow> - 1 | Some i \<Rightarrow> int i))"

text \<open>
  The scan of \<open>/proc\<close>. An entry is a name and, when its \<open>task\<close> directory opens, the tasks
  with the text of their status file.
\<close>

abbreviation MAX_LINE :: nat where "MAX_LINE \<equiv> 8192"
abbreviation MAX_CPUS :: nat where "MAX_CPUS \<equiv> 4096"

type_synonym proc_task = "string \<times> string option"
type_synonym proc_entry = "string \<times> proc_task list option"

fun fgets_lines :: "nat \<Rightarrow> string \<Rightarrow> string \<Rightarrow> string list" where
  "fgets_lines n cur [] = (if cur = [] then [] else [cur])"
| "fgets_lines n cur (c # cs) =
     (if c = CHR 0x0A \<or> Suc (length cur) \<ge> n then (cur @ [c]) # fgets_lines n [] cs
      else fgets_lines n (cur @ [c]) cs)"

definition vmsize_line :: "string \<Rightarrow> bool" where
  "vmsize_line l \<longleftrightarrow> strprefix (''VmSize:'' @ [CHR 0x09]) l"

text \<open>The CPU a \<open>Cpus_allowed_list\<close> line pins its task to: \<open>sscanf("%u")\<close> keeps 32 bits.\<close>

definition pinned_cpu :: "string \<Rightarrow> nat option" where
  "pinned_cpu l =
     (if strprefix (''Cpus_allowed_list:'' @ [CHR 0x09]) l \<and>
         strchr CHR ''-'' l = None \<and> strchr CHR '','' l = None
      then (case scan_ull (drop 19 l) of
              None \<Rightarrow> None
            | Some (v, _) \<Rightarrow>
                let hval = unat (ucast v :: u32) in if hval < MAX_CPUS then Some hval else None)
      else None)"

fun status_scan :: "string list \<Rightarrow> bool \<Rightarrow> cpu_set \<Rightarrow> cpu_set" where
  "status_scan [] has_vmsize used = used"
| "status_scan (l # ls) has_vmsize used =
     (let has_vmsize = (has_vmsize \<or> vmsize_line l)
      in case pinned_cpu l of
           Some hval \<Rightarrow> if has_vmsize then used(hval := True) else status_scan ls has_vmsize used
         | None \<Rightarrow> status_scan ls has_vmsize used)"

definition numeric_name :: "string \<Rightarrow> bool" where
  "numeric_name n \<longleftrightarrow> (case n of [] \<Rightarrow> False | c # _ \<Rightarrow> isdigit c)"

definition task_scan :: "proc_task \<Rightarrow> cpu_set \<Rightarrow> cpu_set" where
  "task_scan t used =
     (if \<not> numeric_name (fst t) then used
      else (case snd t of
              None \<Rightarrow> used
            | Some s \<Rightarrow> status_scan (fgets_lines (MAX_LINE - 1) [] s) False used))"

definition proc_scan :: "proc_entry \<Rightarrow> cpu_set \<Rightarrow> cpu_set" where
  "proc_scan p used =
     (if \<not> numeric_name (fst p) then used
      else (case snd p of None \<Rightarrow> used | Some ts \<Rightarrow> fold task_scan ts used))"

definition find_free_cpu :: "nat \<Rightarrow> proc_entry list option \<Rightarrow> int" where
  "find_free_cpu nprocs proc_dir =
     (if nprocs < 2 then 0
      else (case proc_dir of
              None \<Rightarrow> - 1
            | Some ps \<Rightarrow>
                let used = fold proc_scan ps (\<lambda>_. False)
                in (case List.find (\<lambda>i. \<not> used i) [0..<nprocs] of None \<Rightarrow> - 1 | Some i \<Rightarrow> int i)))"

text \<open>The affinity mask handed to \<open>sched_setaffinity\<close> or \<open>pthread_setaffinity_np\<close>.\<close>

definition set_cpu_affinity :: "(cpu_set \<Rightarrow> int) \<Rightarrow> nat \<Rightarrow> int \<Rightarrow> int" where
  "set_cpu_affinity setaffinity nprocs cpu =
     (if setaffinity (cpu_set_s nprocs cpu (\<lambda>_. False)) < 0 then - 1 else 0)"

text \<open>
  \<open>pthread_setaffinity_np\<close> returns an error number, which is positive, so the test for a
  negative result never fires.
\<close>

definition set_pthread_cpu_affinity :: "(cpu_set \<Rightarrow> nat) \<Rightarrow> nat \<Rightarrow> int \<Rightarrow> int" where
  "set_pthread_cpu_affinity setaffinity_np nprocs cpu =
     (if int (setaffinity_np (cpu_set_s nprocs cpu (\<lambda>_. False))) < 0 then - 1 else 0)"

section \<open>System call registers of the tracee\<close>

abbreviation NR_mmap :: u64 where "NR_mmap \<equiv> 222"
abbreviation NR_exit_group :: u64 where "NR_exit_group \<equiv> 94"

text \<open>
  \<open>read_pid_fd_path\<close>: \<open>readlink\<close> overwrites the start of the caller's buffer with as much of the
  link's target as fits and adds no terminating null byte; on failure the buffer is left as it is.
\<close>

definition read_pid_fd_path :: "(string \<Rightarrow> string option) \<Rightarrow> int \<Rightarrow> int \<Rightarrow> string \<Rightarrow> nat \<Rightarrow> string" where
  "read_pid_fd_path readlink pid fd buffer buf_size =
     (case readlink (snprintf_str PATH_MAX (''/proc/'' @ int_string pid @ ''/fd/'' @ int_string fd)) of
        None \<Rightarrow> buffer
      | Some target \<Rightarrow> memcpy (min buf_size (length target)) buffer target)"

text \<open>
  \<open>PTRACE_GETREGSET\<close> fills \<open>iov_len\<close> bytes of the caller's register block, of 34 64-bit
  words; \<open>iov_len\<close> is \<open>sizeof(regs)\<close>, the size of a pointer. The result is the block and the
  value taken for the system call number.
\<close>

definition getregset :: "nat \<Rightarrow> u64 list \<Rightarrow> u64 list \<Rightarrow> u64 list" where
  "getregset iov_len kernel_regs regs = memcpy (iov_len div 8) regs kernel_regs"

definition get_pid_syscall_regs :: "u64 list option \<Rightarrow> u64 list \<Rightarrow> u64 list \<times> u64" where
  "get_pid_syscall_regs ptrace_regs regs =
     (case ptrace_regs of
        None \<Rightarrow> (regs, - 1)
      | Some k \<Rightarrow> let regs = getregset 8 k regs in (regs, regs ! 8))"

record mmap_params =
  mp_addr :: u64
  mp_length :: u64
  mp_prot :: u32
  mp_flags :: u32
  mp_fd :: u32
  mp_offset :: u64

definition get_mmap_params :: "u64 list option \<Rightarrow> u64 list \<Rightarrow> mmap_params option" where
  "get_mmap_params ptrace_regs stack =
     (let (regs, nr) = get_pid_syscall_regs ptrace_regs stack
      in if nr \<noteq> NR_mmap then None
         else Some \<lparr>mp_addr = regs ! 0, mp_length = regs ! 1, mp_prot = ucast (regs ! 2),
                    mp_flags = ucast (regs ! 3), mp_fd = ucast (regs ! 4), mp_offset = regs ! 5\<rparr>)"

definition is_syscall_exit_group :: "u64 list option \<Rightarrow> u64 list \<Rightarrow> bool" where
  "is_syscall_exit_group ptrace_regs stack \<longleftrightarrow>
     snd (get_pid_syscall_regs ptrace_regs stack) = NR_exit_group"

section \<open>u-dma-buf and strings\<close>

text \<open>\<open>None\<close> when \<open>/proc/modules\<close> cannot be opened and the process exits.\<close>

definition check_udmabuf :: "string option \<Rightarrow> int option" where
  "check_udmabuf modules =
     (case modules of
        None \<Rightarrow> None
      | Some m \<Rightarrow>
          Some (if \<exists>l \<in> set (fgets_lines 255 [] m). scan_word 63 l = Some ''u_dma_buf'' then 0 else - 1))"

text \<open>
  The attributes \<open>phys_addr\<close> (hexadecimal) and \<open>size\<close> (decimal) of a u-dma-buf; a directory
  that is missing or a file that cannot be read fails, a conversion that fails leaves the
  caller's value.
\<close>

definition get_udmabuf_info ::
  "(string \<Rightarrow> bool) \<Rightarrow> (string \<Rightarrow> string option) \<Rightarrow> int \<Rightarrow> u64 \<Rightarrow> u64 \<Rightarrow> int \<times> u64 \<times> u64" where
  "get_udmabuf_info is_dir rd num phys_addr sz =
     (let dir = ''/sys/class/u-dma-buf/udmabuf'' @ int_string num
      in if \<not> is_dir dir then (- 1, phys_addr, sz)
         else (case rd (dir @ ''/phys_addr'') of
                 None \<Rightarrow> (- 1, phys_addr, sz)
               | Some a \<Rightarrow>
                   let phys_addr = (case scan_hex (take 1024 a) of None \<Rightarrow> phys_addr | Some (v, _) \<Rightarrow> v)
                   in (case rd (dir @ ''/size'') of
                         None \<Rightarrow> (- 1, phys_addr, sz)
                       | Some b \<Rightarrow>
                           (0, phys_addr,
                            case scan_ld (take 1024 b) of None \<Rightarrow> sz | Some (v, _) \<Rightarrow> v))))"

definition append_string :: "string option \<Rightarrow> string option \<Rightarrow> string" where
  "append_string str1 str2 =
     (case str1 of None \<Rightarrow> [] | Some s \<Rightarrow> s) @ (case str2 of None \<Rightarrow> [] | Some s \<Rightarrow> s)"

text \<open>\<open>dirname\<close> on an absolute path with no trailing slash.\<close>

definition dirname :: "string \<Rightarrow> string" where
  "dirname p =
     (let d = rev (drop 1 (dropWhile (\<lambda>c. c \<noteq> CHR ''/'') (rev p)))
      in if d = [] then ''/'' else d)"

definition get_libforksrv_path :: "string option \<Rightarrow> string \<Rightarrow> string option" where
  "get_libforksrv_path self_exe libname =
     (case self_exe of
        None \<Rightarrow> None
      | Some p \<Rightarrow> Some (snprintf_str PATH_MAX (dirname (take (PATH_MAX - 1) p) @ CHR ''/'' # libname)))"

section \<open>Which ranges are traced\<close>

text \<open>
  What the scan of a line leaves in the variables, for every line, and the lines that name an
  executable mapping of a file.
\<close>

fun scanned :: "maps_vars \<Rightarrow> string list \<Rightarrow> (maps_vars \<times> string) list" where
  "scanned v [] = []"
| "scanned v (l # ls) = (sscanf_maps l v, l) # scanned (sscanf_maps l v) ls"

definition exec_file :: "maps_vars \<times> string \<Rightarrow> bool" where
  "exec_file p \<longleftrightarrow> v_x (fst p) = CHR ''x'' \<and> strchr CHR ''/'' (snd p) \<noteq> None"

definition range_of :: "maps_vars \<times> string \<Rightarrow> map_info" where
  "range_of p =
     \<lparr>mi_start = v_start (fst p), mi_end = v_end (fst p), mi_offset = v_offset (fst p), mi_buf = 0,
      mi_path = take (PATH_MAX - 1) (the (strchr CHR ''/'' (snd p)))\<rparr>"

definition in_lib :: "string \<Rightarrow> maps_vars \<times> string \<Rightarrow> bool" where
  "in_lib lib p \<longleftrightarrow> strstr (the (strchr CHR ''/'' (snd p))) lib"

definition lib_ranges :: "string option \<Rightarrow> (maps_vars \<times> string) list \<Rightarrow> map_info list" where
  "lib_ranges lib ps =
     (case lib of
        None \<Rightarrow> []
      | Some n \<Rightarrow> (case List.find (in_lib n) ps of None \<Rightarrow> [] | Some p \<Rightarrow> [range_of p]))"

definition traced_ranges :: "string option \<Rightarrow> (maps_vars \<times> string) list \<Rightarrow> map_info list" where
  "traced_ranges lib ps = (case ps of [] \<Rightarrow> [] | p # ps \<Rightarrow> range_of p # lib_ranges lib ps)"

lemma map_line_full:
  "length infos \<ge> RANGE_MAX \<Longrightarrow>
   snd (fold (map_line lib RANGE_MAX) ls (v, infos)) = infos"
  by (induction ls arbitrary: v) (simp_all add: map_line_def Let_def)

lemma map_line_second:
  "length infos = 1 \<Longrightarrow>
   snd (fold (map_line lib RANGE_MAX) ls (v, infos)) =
     infos @ lib_ranges lib (filter exec_file (scanned v ls))"
proof (induction ls arbitrary: v)
  case Nil
  then show ?case by (simp add: lib_ranges_def split: option.split)
next
  case (Cons l ls)
  let ?v = "sscanf_maps l v"
  show ?case
  proof (cases "exec_file (?v, l) \<and> (\<exists>n. lib = Some n \<and> in_lib n (?v, l))")
    case True
    then have "map_line lib RANGE_MAX l (v, infos) = (?v, infos @ [range_of (?v, l)])"
      using Cons.prems by (auto simp: map_line_def Let_def exec_file_def in_lib_def range_of_def)
    then show ?thesis
      using True Cons.prems by (auto simp: map_line_full lib_ranges_def)
  next
    case False
    then have "map_line lib RANGE_MAX l (v, infos) = (?v, infos)"
      using Cons.prems
      by (auto simp: map_line_def Let_def exec_file_def in_lib_def split: option.splits)
    then show ?thesis
      using False Cons by (auto simp: lib_ranges_def split: option.splits)
  qed
qed

lemma map_line_first:
  "snd (fold (map_line lib RANGE_MAX) ls (v, [])) = traced_ranges lib (filter exec_file (scanned v ls))"
proof (induction ls arbitrary: v)
  case (Cons l ls)
  let ?v = "sscanf_maps l v"
  have "map_line lib RANGE_MAX l (v, []) =
    (?v, if exec_file (?v, l) then [range_of (?v, l)] else [])"
    by (auto simp: map_line_def Let_def exec_file_def range_of_def)
  then show ?case
    using Cons.IH by (simp add: map_line_second traced_ranges_def)
qed (simp add: traced_ranges_def)

lemma map_images_ok:
  assumes "\<And>p. open_file e p \<ge> - 1" and "\<And>fd n off. mmap_file e fd n off \<noteq> 0"
  shows "map_images e ds ms = (True, ds @ map (\<lambda>m. m\<lparr>mi_buf :=
    mmap_file e (open_file e (mi_path m)) (ALIGN_UP (mi_end m - mi_start m) PAGE_SIZE) (mi_offset m)\<rparr>) ms)"
  using assms by (induction ms arbitrary: ds) (simp_all add: Let_def not_less)

text \<open>
  C30: \<open>setup_map_info\<close> with the two slots the program gives it selects exactly the ranges the
  tracer means: the first executable file mapping of the process, i.e. the main binary, and, if
  \<open>CS_TRACE_LIB\<close> is set, the first later executable mapping whose path contains that name. The
  system calls are constrained by their documented results only: \<open>open\<close> returns a descriptor or
  \<open>-1\<close> and \<open>mmap\<close> does not return address 0 when the kernel chooses the address.
\<close>

theorem setup_map_info_selects:
  assumes "\<And>p. open_file e p \<ge> - 1" and "\<And>fd n off. mmap_file e fd n off \<noteq> 0"
  shows "map (\<lambda>m. m\<lparr>mi_buf := 0\<rparr>) (snd (setup_map_info e env (Some maps) v RANGE_MAX)) =
      traced_ranges (env ''CS_TRACE_LIB'') (filter exec_file (scanned v (split_lines [] maps))) \<and>
    fst (setup_map_info e env (Some maps) v RANGE_MAX) =
      int (length (snd (setup_map_info e env (Some maps) v RANGE_MAX)))"
proof -
  have r: "map (\<lambda>m. m\<lparr>mi_buf := 0\<rparr>) (traced_ranges lib ps) = traced_ranges lib ps" for lib ps
    by (simp add: traced_ranges_def lib_ranges_def range_of_def split: list.split option.split)
  show ?thesis
    using map_line_first [of "env ''CS_TRACE_LIB''" "split_lines [] maps" v] r
    by (simp add: setup_map_info_def Let_def case_prod_beta map_images_ok [OF assms] comp_def)
qed

theorem setup_map_info_selects_witness:
  "fst (setup_map_info \<lparr>open_file = \<lambda>_. 3, mmap_file = \<lambda>_ _ _. 0x7000\<rparr> (\<lambda>_. None)
     (Some ''1-2 r-xp 0 /a'') \<lparr>v_start = 0, v_end = 0, v_x = CHR ''-'', v_offset = 0\<rparr> RANGE_MAX) = 1"
proof -
  let ?e = "\<lparr>open_file = \<lambda>_. 3, mmap_file = \<lambda>_ _ _. 0x7000\<rparr>"
  let ?v = "\<lparr>v_start = 0, v_end = 0, v_x = CHR ''-'', v_offset = 0\<rparr>"
  let ?t = "''1-2 r-xp 0 /a''"
  have "filter exec_file (scanned ?v (split_lines [] ?t)) \<noteq> []"
    by (simp add: exec_file_def sscanf_maps_def sscanf_tail_def scan_hex_def scan_hex_unsigned_def
        strip_0x_def isxdigit_def isdigit_def isspace_def strchr_def)
  then have l: "length (traced_ranges None (filter exec_file (scanned ?v (split_lines [] ?t)))) = 1"
    by (simp only: traced_ranges_def lib_ranges_def split: list.split) simp
  have "map (\<lambda>m. m\<lparr>mi_buf := 0\<rparr>) (snd (setup_map_info ?e (\<lambda>_. None) (Some ?t) ?v RANGE_MAX)) =
      traced_ranges None (filter exec_file (scanned ?v (split_lines [] ?t))) \<and>
    fst (setup_map_info ?e (\<lambda>_. None) (Some ?t) ?v RANGE_MAX) =
      int (length (snd (setup_map_info ?e (\<lambda>_. None) (Some ?t) ?v RANGE_MAX)))"
    by (rule setup_map_info_selects) simp_all
  then show ?thesis using l by (metis length_map of_nat_1)
qed

section \<open>The free core\<close>

text \<open>The core a task's status lines pin it to, if its process has a memory image.\<close>

fun status_pin :: "string list \<Rightarrow> bool \<Rightarrow> nat option" where
  "status_pin [] has_vmsize = None"
| "status_pin (l # ls) has_vmsize =
     (if (has_vmsize \<or> vmsize_line l) \<and> pinned_cpu l \<noteq> None then pinned_cpu l
      else status_pin ls (has_vmsize \<or> vmsize_line l))"

definition task_pinned :: "proc_task \<Rightarrow> nat \<Rightarrow> bool" where
  "task_pinned t i \<longleftrightarrow>
     numeric_name (fst t) \<and>
     (\<exists>s. snd t = Some s \<and> status_pin (fgets_lines (MAX_LINE - 1) [] s) False = Some i)"

definition proc_pinned :: "proc_entry list \<Rightarrow> nat \<Rightarrow> bool" where
  "proc_pinned ps i \<longleftrightarrow>
     (\<exists>p \<in> set ps. numeric_name (fst p) \<and> (\<exists>ts. snd p = Some ts \<and> (\<exists>t \<in> set ts. task_pinned t i)))"

lemma status_scan_pin: "status_scan ls b used i = (used i \<or> status_pin ls b = Some i)"
  by (induction ls arbitrary: b) (auto simp: Let_def split: option.splits)

lemma task_scan_pin: "fold task_scan ts used i = (used i \<or> (\<exists>t \<in> set ts. task_pinned t i))"
  by (induction ts arbitrary: used)
    (auto simp: task_scan_def task_pinned_def status_scan_pin split: option.splits)

lemma proc_scan_pin: "fold proc_scan ps used i = (used i \<or> proc_pinned ps i)"
  by (induction ps arbitrary: used)
    (auto simp: proc_scan_def proc_pinned_def task_scan_pin split: option.splits)

lemma find_upt_Some: "List.find P [0..<n] = Some i \<longleftrightarrow> i < n \<and> P i \<and> (\<forall>j < i. \<not> P j)"
  by (auto simp: find_Some_iff)

lemma find_upt_None: "List.find P [0..<n] = None \<longleftrightarrow> (\<forall>i < n. \<not> P i)"
  by (auto simp: find_None_iff)

text \<open>
  C37: \<open>find_free_cpu\<close> returns the lowest core no process is pinned to, and \<open>-1\<close> exactly when
  every core is taken. A core is taken when some thread of a process with a memory image has it
  as the only entry of its \<open>Cpus_allowed_list\<close>.
\<close>

theorem find_free_cpu_lowest:
  "if nprocs < 2 then find_free_cpu nprocs (Some ps) = 0
   else (\<exists>i < nprocs. find_free_cpu nprocs (Some ps) = int i \<and> \<not> proc_pinned ps i \<and>
           (\<forall>j < i. proc_pinned ps j)) \<or>
        find_free_cpu nprocs (Some ps) = - 1 \<and> (\<forall>i < nprocs. proc_pinned ps i)"
proof -
  have used: "fold proc_scan ps (\<lambda>_. False) = proc_pinned ps" by (rule ext) (simp add: proc_scan_pin)
  show ?thesis
  proof (cases "List.find (\<lambda>i. \<not> proc_pinned ps i) [0..<nprocs]")
    case None
    then have "\<forall>i < nprocs. proc_pinned ps i" by (simp add: find_upt_None)
    with None show ?thesis by (simp add: find_free_cpu_def used)
  next
    case (Some a)
    then have "a < nprocs \<and> \<not> proc_pinned ps a \<and> (\<forall>j < a. proc_pinned ps j)"
      by (simp add: find_upt_Some)
    with Some show ?thesis by (auto simp: find_free_cpu_def used)
  qed
qed

text \<open>One process with a memory image, its only thread pinned to core 0.\<close>

definition pinned_ps :: "proc_entry list" where
  "pinned_ps = [(''42'', Some [(''42'', Some (''VmSize:'' @ [CHR 0x09] @ ''1'' @ [CHR 0x0A] @ ''Cpus_allowed_list:'' @ [CHR 0x09] @ ''0''))])]"

lemma pinned_ps: "proc_pinned pinned_ps i \<longleftrightarrow> i = 0"
  by (simp add: pinned_ps_def proc_pinned_def task_pinned_def numeric_name_def isdigit_def
      vmsize_line_def pinned_cpu_def strprefix_def strchr_def scan_ull_def scan_unsigned_def isspace_def digit_val_def)

theorem find_free_cpu_lowest_witness: "find_free_cpu 2 (Some pinned_ps) = 1"
  using find_free_cpu_lowest [of 2 pinned_ps] by (auto simp: pinned_ps dest: spec [of _ 1])
section \<open>Alignment\<close>

lemma unat_and_not_mask: "unat (x AND NOT (mask n) :: u64) = unat x div 2 ^ n * 2 ^ n"
proof -
  have "x AND NOT (mask n) = push_bit n (drop_bit n x)"
    by (rule bit_word_eqI) (auto simp: bit_simps)
  moreover have d: "unat (drop_bit n x) = unat x div 2 ^ n"
    by (simp only: unat_drop_bit_eq) (simp add: drop_bit_eq_div)
  moreover have "unat x < 2 ^ 64" using unsigned_less [of x, where ?'a = nat] by simp
  then have "unat x div 2 ^ n * 2 ^ n < 2 ^ 64"
    using div_times_less_eq_dividend [of "unat x" "2 ^ n"] by linarith
  ultimately show ?thesis
    by (simp add: unsigned_push_bit_eq push_bit_nat_def take_bit_nat_eq_self)
qed

lemma unat_ALIGN_UP_8:
  assumes "unat v + 7 < 2 ^ 64"
  shows "unat (ALIGN_UP v 8) = (unat v + 7) div 8 * 8"
proof -
  have "unat (v + 7) = unat v + 7" using assms by (subst unat_add_lem [THEN iffD1]) simp_all
  moreover have "ALIGN_UP v 8 = (v + 7) AND NOT (mask 3)"
    by (simp add: ALIGN_UP_def mask_eq_exp_minus_1 add.commute)
  ultimately show ?thesis by (simp add: unat_and_not_mask)
qed

section \<open>Reading back the kernel's map lines\<close>

text \<open>
  A line of \<open>/proc/PID/maps\<close> as the kernel documents it (\<open>proc(5)\<close>): hexadecimal numbers of at
  least eight digits, the four permission letters, the offset, and the rest of the line.
\<close>

definition maps_hex :: "u64 \<Rightarrow> string" where
  "maps_hex v = (let h = hex_string (unat v) in replicate (8 - length h) CHR ''0'' @ h)"

definition maps_line :: "u64 \<Rightarrow> u64 \<Rightarrow> string \<Rightarrow> u64 \<Rightarrow> string \<Rightarrow> string" where
  "maps_line start end' perms off rest =
     maps_hex start @ CHR ''-'' # maps_hex end' @ CHR '' '' # perms @ CHR '' '' # maps_hex off @
       CHR '' '' # rest"

lemma scan_hex_maps_hex:
  assumes "r = [] \<or> \<not> isxdigit (hd r) \<and> hd r \<noteq> CHR ''x'' \<and> hd r \<noteq> CHR ''X''"
  shows "scan_hex (maps_hex v @ r) = Some (v, r)"
proof (rule scan_hex_digits [OF _ _ assms])
  have zero: "isxdigit CHR ''0''" by (simp add: isxdigit_def isdigit_def)
  show "\<forall>c \<in> set (maps_hex v). isxdigit c"
    using hex_string_digits [of "unat v"] by (auto simp: maps_hex_def Let_def zero)
  show "maps_hex v \<noteq> []" by (simp add: maps_hex_def Let_def)
  show "fst (scan_base 16 isxdigit 0 (maps_hex v)) = unat v"
    by (simp add: maps_hex_def Let_def scan_base_zeros scan_base_hex_string)
qed

lemma scan_hex_space: "scan_hex (CHR '' '' # s) = scan_hex s"
  by (simp add: scan_hex_def isspace_def)

text \<open>
  C36: Reading a map line recovers what the kernel printed. For every start, end, permissions
  and offset, \<open>setup_map_info\<close>'s \<open>sscanf\<close> on the kernel's line for that mapping yields the
  same start, end and offset and the execute letter, whatever the variables held before and
  whatever follows on the line.
\<close>

theorem sscanf_maps_roundtrip:
  assumes "\<not> isspace r"
  shows "sscanf_maps (maps_line start end' [r, w, x, p] off rest) v =
    \<lparr>v_start = start, v_end = end', v_x = x, v_offset = off\<rparr>"
proof -
  have stop: "\<not> isxdigit CHR ''-''" "\<not> isxdigit CHR '' ''" by (simp_all add: isxdigit_def isdigit_def)
  have sp: "isspace CHR '' ''" by (simp add: isspace_def)
  show ?thesis
    using assms
    by (simp add: sscanf_maps_def maps_line_def scan_hex_maps_hex stop sscanf_tail_def sp
        scan_hex_space)
qed

theorem sscanf_maps_roundtrip_witness:
  "sscanf_maps (maps_line 0xAAAAD5B60000 0xAAAAD5B7F000 ''r-xp'' 0x1000 ''fd:00 12 /bin/true'')
     \<lparr>v_start = 7, v_end = 7, v_x = CHR ''-'', v_offset = 7\<rparr> =
   \<lparr>v_start = 0xAAAAD5B60000, v_end = 0xAAAAD5B7F000, v_x = CHR ''x'', v_offset = 0x1000\<rparr>"
  by (rule sscanf_maps_roundtrip) (simp add: isspace_def)

end
