(* ===== verification/Decoder.thy ===== *)
theory Decoder
  imports Utils
begin

text \<open>
  The decoder front ends: \<open>reset_decoder\<close>, \<open>run_decoder\<close>, \<open>init_decoder\<close>,
  \<open>fini_decoder\<close> and the overflow queries of \<open>src/src/common.c\<close>, with the dispatch points of
  \<open>src/src/stalker.c\<close>. The choice made at compile time by \<open>AFLCS_STALKER_DECODER\<close> is the
  datatype \<open>backend\<close>. The two decoding libraries (\<open>libcsdec\<close> and the Stalker decoder) are not
  part of the sources: their functions are the fields of \<open>declib\<close>, over a library state the
  model never looks into. The bitmap is the one both libraries write to. The tables of memory maps
  and images are taken to be allocated: a failing \<open>malloc\<close> there is not modelled.
\<close>

unbundle bit_operations_syntax

section \<open>State\<close>

datatype backend = Armored | Stalker

datatype cov_type = edge_cov | path_cov | hybrid_cov

datatype libcsdec_result = LIBCSDEC_SUCCESS | LIBCSDEC_ERROR | LIBCSDEC_ERROR_OVERFLOW_PACKET

record memory_map =
  mm_start :: u64
  mm_end :: u64
  mm_path :: string

record memory_image =
  mg_data :: u64
  mg_path :: string
  mg_size :: u64

record 'd declib =
  libcsdec_init :: "cov_type \<Rightarrow> nat \<Rightarrow> memory_image list \<Rightarrow> 'd \<Rightarrow> bool \<times> 'd"
  libcsdec_reset :: "cov_type \<Rightarrow> int \<Rightarrow> memory_map list \<Rightarrow> 'd \<Rightarrow> libcsdec_result \<times> 'd"
  libcsdec_run :: "cov_type \<Rightarrow> u8 list \<Rightarrow> u8 list \<Rightarrow> 'd \<Rightarrow> libcsdec_result \<times> u8 list \<times> 'd"
  libcsdec_finish :: "cov_type \<Rightarrow> 'd \<Rightarrow> 'd"
  libcsdec_overflow_packets :: "'d \<Rightarrow> u64"
  stalker_decoder_init :: "int \<Rightarrow> map_info list \<Rightarrow> 'd \<Rightarrow> int \<times> 'd"
  stalker_decoder_set_trace_id :: "int \<Rightarrow> 'd \<Rightarrow> 'd"
  stalker_decoder_set_bb_mode :: "int \<Rightarrow> 'd \<Rightarrow> 'd"
  stalker_decode_trace :: "u8 list \<Rightarrow> u8 list \<Rightarrow> 'd \<Rightarrow> int \<times> u8 list \<times> 'd"
  stalker_decode_did_overflow :: "'d \<Rightarrow> bool"

record 'd dec_state =
  lib_state :: 'd
  decoder :: bool
  trace_bitmap :: "u8 list option"
  trace_bitmap_size :: nat
  trace_overflow_occurred :: bool
  seen_overflow_packets :: u64
  cov_type :: cov_type
  trace_id :: int
  coverage :: bool
  insn_save :: bool
  mem_map :: "memory_map list option"
  mem_img :: "memory_image list option"
  stalker_dump_limit :: u64
  stalker_diag :: bool

section \<open>The Stalker dispatch points\<close>

definition stalker_setup ::
  "'d declib \<Rightarrow> environ \<Rightarrow> int \<Rightarrow> map_info list \<Rightarrow> int \<Rightarrow> 'd dec_state \<Rightarrow> int \<times> 'd dec_state" where
  "stalker_setup L env pid infos tid s =
     (let (r, d) = stalker_decoder_init L pid infos (lib_state s);
          s = s\<lparr>lib_state := d\<rparr>
      in if r < 0 then (- 1, s)
         else
           let s = s\<lparr>stalker_dump_limit :=
                       (case env ''AFLCS_STALKER_DUMP_BYTES'' of
                          None \<Rightarrow> 0 | Some v \<Rightarrow> word_of_int (atoi v))\<rparr>;
               s = s\<lparr>stalker_diag := (env ''AFLCS_STALKER_DIAG'' \<noteq> None)\<rparr>;
               s = s\<lparr>lib_state := stalker_decoder_set_trace_id L tid (lib_state s)\<rparr>;
               s = s\<lparr>lib_state := stalker_decoder_set_bb_mode L 0 (lib_state s)\<rparr>
           in (0, s))"

definition stalker_set_bb_mode :: "'d declib \<Rightarrow> int \<Rightarrow> 'd dec_state \<Rightarrow> 'd dec_state" where
  "stalker_set_bb_mode L bb_mode s =
     s\<lparr>lib_state := stalker_decoder_set_bb_mode L bb_mode (lib_state s)\<rparr>"

definition stalker_reset :: int where
  "stalker_reset = 0"

text \<open>
  The count of non-zero bytes and the FNV-1a hash of \<open>stalker_debug_report\<close>, and the bytes
  \<open>stalker_debug_dump_capture\<close> prints.
\<close>

definition stalker_debug_report :: "u8 list \<Rightarrow> nat \<times> u64" where
  "stalker_debug_report bitmap =
     (length (filter (\<lambda>b. b \<noteq> 0) bitmap),
      foldl (\<lambda>h b. (h XOR ucast b) * 1099511628211) 1469598103934665603 bitmap)"

definition stalker_debug_dump_capture :: "u64 \<Rightarrow> u8 list \<Rightarrow> u8 list" where
  "stalker_debug_dump_capture limit buf = take (min (length buf) (unat limit)) buf"

text \<open>The result, the overflow flag the caller passed, and the state.\<close>

definition stalker_run ::
  "'d declib \<Rightarrow> u8 list \<Rightarrow> bool \<Rightarrow> 'd dec_state \<Rightarrow> int \<times> bool \<times> 'd dec_state" where
  "stalker_run L buf did_overflow s =
     (let (r, bitmap, d) =
            stalker_decode_trace L (case trace_bitmap s of None \<Rightarrow> [] | Some b \<Rightarrow> b) buf (lib_state s);
          s = s\<lparr>lib_state := d, trace_bitmap := map_option (\<lambda>_. bitmap) (trace_bitmap s)\<rparr>
      in if r < 0 then (- 1, did_overflow, s)
         else if stalker_decode_did_overflow L (lib_state s) then (- 1, True, s)
         else (0, did_overflow, s))"

definition stalker_fini :: int where
  "stalker_fini = 0"

section \<open>The common front end\<close>

definition reset_decoder ::
  "backend \<Rightarrow> 'd declib \<Rightarrow> map_info list \<Rightarrow> 'd dec_state \<Rightarrow> int \<times> 'd dec_state" where
  "reset_decoder B L infos s =
     (if \<not> decoder s then (- 1, s)
      else case B of
        Stalker \<Rightarrow> (stalker_reset, s\<lparr>trace_overflow_occurred := False\<rparr>)
      | Armored \<Rightarrow>
          let maps = (case mem_map s of
                        Some m \<Rightarrow> m
                      | None \<Rightarrow> map (\<lambda>i. \<lparr>mm_start = mi_start i, mm_end = mi_end i,
                                          mm_path = take (PATH_MAX - 1) (mi_path i)\<rparr>) infos);
              s = s\<lparr>mem_map := Some maps, trace_overflow_occurred := False\<rparr>
          in (case cov_type s of
                hybrid_cov \<Rightarrow> (- 1, s)
              | ct \<Rightarrow>
                  let (r, d) = libcsdec_reset L ct (trace_id s) maps (lib_state s)
                  in (if r = LIBCSDEC_SUCCESS then 0 else - 1, s\<lparr>lib_state := d\<rparr>)))"

definition run_decoder ::
  "backend \<Rightarrow> 'd declib \<Rightarrow> u8 list \<Rightarrow> 'd dec_state \<Rightarrow> int \<times> 'd dec_state" where
  "run_decoder B L buf s =
     (if \<not> decoder s then (- 1, s)
      else case B of
        Stalker \<Rightarrow>
          let (r, overflow, s) = stalker_run L buf False s
          in (r, if overflow then s\<lparr>trace_overflow_occurred := True\<rparr> else s)
      | Armored \<Rightarrow>
          (case cov_type s of
             hybrid_cov \<Rightarrow> (- 1, s)
           | ct \<Rightarrow>
               let (r, bitmap, d) =
                     libcsdec_run L ct (case trace_bitmap s of None \<Rightarrow> [] | Some b \<Rightarrow> b) buf (lib_state s);
                   s = s\<lparr>lib_state := d, trace_bitmap := map_option (\<lambda>_. bitmap) (trace_bitmap s)\<rparr>;
                   n = libcsdec_overflow_packets L (lib_state s);
                   s = (if n \<noteq> seen_overflow_packets s then s\<lparr>trace_overflow_occurred := True\<rparr> else s);
                   s = s\<lparr>seen_overflow_packets := n\<rparr>
               in (if r = LIBCSDEC_SUCCESS then 0 else - 1, s)))"

definition trace_did_overflow :: "'d dec_state \<Rightarrow> bool" where
  "trace_did_overflow s = trace_overflow_occurred s"

definition trace_overflow_packets :: "backend \<Rightarrow> 'd declib \<Rightarrow> 'd dec_state \<Rightarrow> u64" where
  "trace_overflow_packets B L s =
     (case B of Stalker \<Rightarrow> 0 | Armored \<Rightarrow> libcsdec_overflow_packets L (lib_state s))"

text \<open>GNU \<open>basename\<close>: what follows the last slash.\<close>

definition basename :: "string \<Rightarrow> string" where
  "basename p = rev (takeWhile (\<lambda>c. c \<noteq> CHR ''/'') (rev p))"

text \<open>
  \<open>bitmap_mem\<close> is what \<open>malloc\<close> gives for the bitmap, \<open>None\<close> for \<open>NULL\<close>; the returned flag
  is whether a decoder handle was obtained.
\<close>

definition init_decoder ::
  "backend \<Rightarrow> 'd declib \<Rightarrow> u8 list option \<Rightarrow> map_info list \<Rightarrow> 'd dec_state \<Rightarrow> bool \<times> 'd dec_state" where
  "init_decoder B L bitmap_mem infos s =
     (let s = (if trace_bitmap s = None then s\<lparr>trace_bitmap := bitmap_mem\<rparr> else s)
      in if trace_bitmap s = None then (False, s)
         else case B of
           Stalker \<Rightarrow> (True, s)
         | Armored \<Rightarrow>
             let imgs = (case mem_img s of
                           Some m \<Rightarrow> m
                         | None \<Rightarrow> map (\<lambda>i. \<lparr>mg_data = mi_buf i,
                               mg_path = snprintf_str PATH_MAX (basename (take (PATH_MAX - 1) (mi_path i))),
                               mg_size = ALIGN_UP (mi_end i - mi_start i) PAGE_SIZE\<rparr>) infos);
                 s = s\<lparr>mem_img := Some imgs\<rparr>;
                 s = (if coverage s then s\<lparr>insn_save := True\<rparr> else s)
             in (case cov_type s of
                   hybrid_cov \<Rightarrow> (False, s)
                 | ct \<Rightarrow>
                     let (ok, d) = libcsdec_init L ct (trace_bitmap_size s) imgs (lib_state s)
                     in (ok, s\<lparr>lib_state := d\<rparr>)))"

definition fini_decoder :: "backend \<Rightarrow> 'd declib \<Rightarrow> 'd dec_state \<Rightarrow> int \<times> 'd dec_state" where
  "fini_decoder B L s =
     (if \<not> decoder s then (- 1, s)
      else case B of
        Stalker \<Rightarrow> (stalker_fini, s)
      | Armored \<Rightarrow>
          (case cov_type s of
             hybrid_cov \<Rightarrow> (0, s)
           | ct \<Rightarrow> (0, s\<lparr>lib_state := libcsdec_finish L ct (lib_state s)\<rparr>)))"

section \<open>The overflow flag of an execution\<close>

text \<open>All the decode passes of one execution.\<close>

definition run_passes :: "backend \<Rightarrow> 'd declib \<Rightarrow> u8 list list \<Rightarrow> 'd dec_state \<Rightarrow> 'd dec_state" where
  "run_passes B L bufs s = fold (\<lambda>buf s. snd (run_decoder B L buf s)) bufs s"

lemma run_decoder_frame [frame_simps]:
  "decoder (snd (run_decoder B L buf s)) = decoder s"
  "cov_type (snd (run_decoder B L buf s)) = cov_type s"
  by (simp_all add: run_decoder_def stalker_run_def Let_def case_prod_beta split: backend.split cov_type.split)

lemma run_decoder_sticky:
  "trace_overflow_occurred s \<Longrightarrow> trace_overflow_occurred (snd (run_decoder B L buf s))"
  by (simp add: run_decoder_def stalker_run_def Let_def case_prod_beta split: backend.split cov_type.split)

lemma run_decoder_armored:
  assumes "decoder s" and "cov_type s \<noteq> hybrid_cov"
  shows "trace_overflow_occurred (snd (run_decoder Armored L buf s)) =
      (trace_overflow_occurred s \<or>
       libcsdec_overflow_packets L (lib_state (snd (run_decoder Armored L buf s))) \<noteq> seen_overflow_packets s)"
    and "seen_overflow_packets (snd (run_decoder Armored L buf s)) =
      libcsdec_overflow_packets L (lib_state (snd (run_decoder Armored L buf s)))"
    and "lib_state (snd (run_decoder Armored L buf s)) =
      snd (snd (libcsdec_run L (cov_type s) (case trace_bitmap s of None \<Rightarrow> [] | Some b \<Rightarrow> b) buf (lib_state s)))"
  using assms by (auto simp: run_decoder_def Let_def case_prod_beta split: cov_type.split)

lemma run_passes_counter:
  assumes mono: "\<And>ct b buf d. libcsdec_overflow_packets L d \<le>
      libcsdec_overflow_packets L (snd (snd (libcsdec_run L ct b buf d)))"
    and "decoder s" and "cov_type s \<noteq> hybrid_cov"
    and "seen_overflow_packets s = libcsdec_overflow_packets L (lib_state s)"
  shows "trace_overflow_occurred (run_passes Armored L bufs s) =
      (trace_overflow_occurred s \<or>
       libcsdec_overflow_packets L (lib_state (run_passes Armored L bufs s)) \<noteq>
       libcsdec_overflow_packets L (lib_state s)) \<and>
    libcsdec_overflow_packets L (lib_state s) \<le>
       libcsdec_overflow_packets L (lib_state (run_passes Armored L bufs s))"
  using assms(2-)
proof (induction bufs arbitrary: s)
  case Nil
  then show ?case by (simp add: run_passes_def)
next
  case (Cons buf bufs)
  let ?t = "snd (run_decoder Armored L buf s)"
  have t: "decoder ?t" "cov_type ?t \<noteq> hybrid_cov"
    "seen_overflow_packets ?t = libcsdec_overflow_packets L (lib_state ?t)"
    using Cons.prems by (simp_all add: frame_simps run_decoder_armored)
  have le: "libcsdec_overflow_packets L (lib_state s) \<le> libcsdec_overflow_packets L (lib_state ?t)"
    using Cons.prems mono by (simp add: run_decoder_armored)
  have step: "run_passes Armored L (buf # bufs) s = run_passes Armored L bufs ?t"
    by (simp add: run_passes_def)
  from Cons.IH [OF t] le show ?case
    unfolding step using Cons.prems run_decoder_armored(1) [of s L buf]
    by (metis (no_types, lifting) order.trans order.antisym)
qed

text \<open>
  C31: Overflow detection of the default decoder is exact per execution. Between a
  \<open>reset_decoder\<close> that succeeds and any number of decode passes, \<open>trace_did_overflow\<close> answers
  true if and only if the library's count of Overflow packets has grown since the reset, whatever
  the passes themselves returned. The library's documented counter is the hypothesis: decoding
  never decreases it and a reset leaves it alone. The remembered count agrees with the library
  when the reset starts, which every earlier pass re-establishes.
\<close>

theorem overflow_flag_exact:
  assumes "\<And>ct b buf d. libcsdec_overflow_packets L d \<le>
      libcsdec_overflow_packets L (snd (snd (libcsdec_run L ct b buf d)))"
    and "\<And>ct i m d. libcsdec_overflow_packets L (snd (libcsdec_reset L ct i m d)) =
      libcsdec_overflow_packets L d"
    and "seen_overflow_packets s = libcsdec_overflow_packets L (lib_state s)"
    and "reset_decoder Armored L infos s = (0, s')"
  shows "trace_did_overflow (run_passes Armored L bufs s') \<longleftrightarrow>
    trace_overflow_packets Armored L (run_passes Armored L bufs s') \<noteq>
    trace_overflow_packets Armored L s"
proof -
  have "decoder s'" "cov_type s' \<noteq> hybrid_cov" "\<not> trace_overflow_occurred s'"
    and eq: "libcsdec_overflow_packets L (lib_state s') = libcsdec_overflow_packets L (lib_state s)"
    and "seen_overflow_packets s' = libcsdec_overflow_packets L (lib_state s')"
    using assms(2-4)
    by (auto simp: reset_decoder_def Let_def case_prod_beta split: if_splits cov_type.splits)
  from run_passes_counter [OF assms(1) this(1,2,5), of bufs] show ?thesis
    using \<open>\<not> trace_overflow_occurred s'\<close> eq
    by (simp add: trace_did_overflow_def trace_overflow_packets_def)
qed

text \<open>A decoder that counts the zero bytes it is given as Overflow packets.\<close>

definition counting_lib :: "u64 declib" where
  "counting_lib =
     \<lparr>libcsdec_init = \<lambda>_ _ _ d. (True, d), libcsdec_reset = \<lambda>_ _ _ d. (LIBCSDEC_SUCCESS, d),
      libcsdec_run = \<lambda>_ b buf d. (LIBCSDEC_SUCCESS, b, if 0 \<in> set buf \<and> d < 5 then d + 1 else d),
      libcsdec_finish = \<lambda>_ d. d, libcsdec_overflow_packets = \<lambda>d. d,
      stalker_decoder_init = \<lambda>_ _ d. (0, d), stalker_decoder_set_trace_id = \<lambda>_ d. d,
      stalker_decoder_set_bb_mode = \<lambda>_ d. d, stalker_decode_trace = \<lambda>b _ d. (0, b, d),
      stalker_decode_did_overflow = \<lambda>_. False\<rparr>"

definition dec_state0 :: "'d \<Rightarrow> 'd dec_state" where
  "dec_state0 d =
     \<lparr>lib_state = d, decoder = True, trace_bitmap = Some [0], trace_bitmap_size = 1,
      trace_overflow_occurred = False, seen_overflow_packets = 0, cov_type = edge_cov,
      trace_id = 0x10, coverage = False, insn_save = False, mem_map = None, mem_img = None,
      stalker_dump_limit = 0, stalker_diag = False\<rparr>"

theorem overflow_flag_exact_witness:
  "trace_did_overflow (run_passes Armored counting_lib [[1], [0], [2]]
     (snd (reset_decoder Armored counting_lib [] (dec_state0 0))))"
proof -
  let ?s = "dec_state0 0 :: u64 dec_state"
  let ?t = "snd (reset_decoder Armored counting_lib [] ?s)"
  have "(d :: u64) < 5 \<Longrightarrow> d \<le> d + 1" for d
    using unat_add_lem [of d 1] by (simp add: word_le_nat_alt word_less_nat_alt)
  then have "trace_did_overflow (run_passes Armored counting_lib [[1], [0], [2]] ?t) \<longleftrightarrow>
    trace_overflow_packets Armored counting_lib (run_passes Armored counting_lib [[1], [0], [2]] ?t) \<noteq>
    trace_overflow_packets Armored counting_lib ?s"
    by (intro overflow_flag_exact [where infos = "[]"])
      (simp_all add: counting_lib_def dec_state0_def reset_decoder_def)
  then show ?thesis
    by (simp add: trace_overflow_packets_def run_passes_def run_decoder_def counting_lib_def
        dec_state0_def reset_decoder_def)
qed

end
