(* ===== verification/Trace_Buffer.thy ===== *)
theory Trace_Buffer
  imports Decoder
begin

text \<open>
  The trace buffer of \<open>src/src/common.c\<close>: \<open>alloc_trace_buf\<close>, \<open>etr_pending\<close>,
  \<open>etr_direct_read\<close>, \<open>fetch_trace\<close>, \<open>decode_trace\<close>, \<open>free_trace_buf\<close> and
  \<open>trace_captured_bytes\<close>. The four pointers into the buffer are 64-bit addresses, 0 being
  \<open>NULL\<close>, and \<open>buf_mem\<close> holds the bytes of the current mapping. The ETR is reached through
  CSAL, which is not part of the sources: its functions are the fields of \<open>etr_lib\<close> over a
  device state, together with the bytes of the u-dma-buf the ETR writes to. What the kernel
  answers to \<open>mmap\<close>, \<open>mremap\<close> and to opening the u-dma-buf is an argument.
\<close>

unbundle bit_operations_syntax

section \<open>State\<close>

text \<open>A call returns, never returns, or touches memory outside its mapping.\<close>

datatype 'a outcome = Returns 'a | Loops | Faults

abbreviation DEFAULT_TRACE_SIZE :: u64 where "DEFAULT_TRACE_SIZE \<equiv> 0x800000"

datatype etr_reg = ETR_RWP | ETR_RRP

record 'e etr_lib =
  cs_device_read32x2 :: "'e \<Rightarrow> etr_reg \<Rightarrow> u64"
  cs_buffer_has_wrapped :: "'e \<Rightarrow> bool"
  cs_get_buffer_unread_bytes :: "'e \<Rightarrow> int"
  cs_get_buffer_rwp :: "'e \<Rightarrow> u64"
  cs_get_trace_data :: "'e \<Rightarrow> u64 \<Rightarrow> int \<times> u8 list \<times> 'e"
  cs_empty_trace_buffer :: "'e \<Rightarrow> 'e"
  etr_memory :: "'e \<Rightarrow> u8 list"

record buf_state =
  trace_buf :: u64
  trace_buf_size :: u64
  trace_buf_ptr :: u64
  decoded_trace_buf :: u64
  buf_mem :: "u8 list"
  etr_mapped :: bool
  etr_ram_addr :: u64
  etr_ram_size :: u64

definition trace_captured_bytes :: "buf_state \<Rightarrow> u64" where
  "trace_captured_bytes s = trace_buf_ptr s - trace_buf s"

section \<open>Reading the ETR\<close>

definition etr_direct_read_enabled :: "backend \<Rightarrow> environ \<Rightarrow> bool" where
  "etr_direct_read_enabled B env =
     (case B of
        Stalker \<Rightarrow> env ''AFLCS_ETR_DIRECT_READ'' \<noteq> Some ''0''
      | Armored \<Rightarrow> (case env ''AFLCS_ETR_DIRECT_READ'' of None \<Rightarrow> False | Some v \<Rightarrow> v \<noteq> ''0''))"

text \<open>The pending byte count and the offset stored through \<open>start\<close>, 0 unless set.\<close>

definition etr_pending :: "'e etr_lib \<Rightarrow> 'e \<Rightarrow> buf_state \<Rightarrow> u64 \<times> u64" where
  "etr_pending E e s =
     (let rwp = cs_device_read32x2 E e ETR_RWP
      in if rwp < etr_ram_addr s \<or> rwp \<ge> etr_ram_addr s + etr_ram_size s then (0, 0)
         else if cs_buffer_has_wrapped E e then (etr_ram_size s, rwp - etr_ram_addr s)
         else
           let rrp = cs_device_read32x2 E e ETR_RRP
           in if rrp < etr_ram_addr s \<or> rrp \<ge> etr_ram_addr s + etr_ram_size s then (0, 0)
              else (if rwp \<ge> rrp then rwp - rrp else etr_ram_size s - (rrp - rwp),
                    rrp - etr_ram_addr s))"

text \<open>The bytes the two \<open>memcpy\<close> calls of \<open>etr_direct_read\<close> copy.\<close>

definition etr_direct_read :: "u8 list \<Rightarrow> u64 \<Rightarrow> u64 \<Rightarrow> u64 \<Rightarrow> u8 list outcome" where
  "etr_direct_read mem ram_size len start =
     (let first = (if len < ram_size - start then len else ram_size - start)
      in if unat start + unat first > length mem \<or> unat (len - first) > length mem then Faults
         else Returns (take (unat first) (drop (unat start) mem) @ take (unat (len - first)) mem))"

section \<open>The buffer\<close>

definition alloc_trace_buf :: "bool \<Rightarrow> u64 option \<Rightarrow> buf_state \<Rightarrow> int \<times> buf_state" where
  "alloc_trace_buf direct mmap_result s =
     (if trace_buf s \<noteq> 0 \<and> direct
      then (0, s\<lparr>trace_buf_ptr := trace_buf s, decoded_trace_buf := trace_buf s\<rparr>)
      else
        let s = (if trace_buf s \<noteq> 0
                 then s\<lparr>trace_buf := 0, trace_buf_size := 0, buf_mem := []\<rparr> else s);
            sz = (if etr_ram_size s > DEFAULT_TRACE_SIZE then etr_ram_size s else DEFAULT_TRACE_SIZE)
        in (case mmap_result of
              None \<Rightarrow> (- 1, s\<lparr>trace_buf := 0, trace_buf_size := 0\<rparr>)
            | Some p \<Rightarrow>
                (0, s\<lparr>trace_buf := p, trace_buf_size := sz, buf_mem := replicate (unat sz) 0,
                      trace_buf_ptr := p, decoded_trace_buf := p\<rparr>)))"

text \<open>The mapping is released; \<open>trace_buf\<close> itself keeps its stale value, as in the code.\<close>

definition free_trace_buf :: "'e etr_lib \<Rightarrow> bool \<Rightarrow> buf_state \<times> 'e \<Rightarrow> buf_state \<times> 'e" where
  "free_trace_buf E has_etb st =
     (let (s, e) = st;
          e = (if has_etb then cs_empty_trace_buffer E e else e)
      in (if trace_buf s \<noteq> 0
          then s\<lparr>buf_mem := [], trace_buf_ptr := 0, decoded_trace_buf := 0\<rparr> else s, e))"

text \<open>A store of \<open>data\<close> at address \<open>p\<close>.\<close>

definition write_mem :: "u64 \<Rightarrow> u8 list \<Rightarrow> buf_state \<Rightarrow> buf_state outcome" where
  "write_mem p data s =
     (let off = unat (p - trace_buf s)
      in if data = [] then Returns s
         else if off + length data > length (buf_mem s) then Faults
         else Returns (s\<lparr>buf_mem := take off (buf_mem s) @ data @ drop (off + length data) (buf_mem s)\<rparr>))"

text \<open>The doubling loop of \<open>fetch_trace\<close>; \<open>None\<close> when it never ends.\<close>

partial_function (option) grow_size :: "u64 \<Rightarrow> u64 \<Rightarrow> u64 \<Rightarrow> u64 option" where
  "grow_size buf_used len new_size =
     (if new_size - buf_used < len then grow_size buf_used len (new_size * 2) else Some new_size)"

text \<open>
  The growth branch: \<open>Returns None\<close> is the \<open>goto exit\<close> after a failed \<open>mremap\<close>. A mapping
  keeps its bytes when it is enlarged, and the new pages are zero.
\<close>

definition grow_trace_buf :: "u64 option \<Rightarrow> u64 \<Rightarrow> u64 \<Rightarrow> buf_state \<Rightarrow> (buf_state \<times> u64) option outcome" where
  "grow_trace_buf mremap_result len buf_remain s =
     (let buf_used = trace_buf_size s - buf_remain
      in (case grow_size buf_used len (trace_buf_size s * 2) of
            None \<Rightarrow> Loops
          | Some new_size \<Rightarrow>
              (case mremap_result of
                 None \<Rightarrow> Returns None
               | Some p \<Rightarrow>
                   Returns (Some
                     (s\<lparr>decoded_trace_buf := p + (decoded_trace_buf s - trace_buf s),
                        trace_buf_ptr := p + (trace_buf_ptr s - trace_buf s),
                        trace_buf := p, trace_buf_size := new_size,
                        buf_mem := buf_mem s @ replicate (unat new_size - length (buf_mem s)) 0\<rparr>,
                      new_size - buf_used)))))"

text \<open>The copy into the buffer: \<open>n\<close>, the new buffer and the device.\<close>

definition read_etr ::
  "'e etr_lib \<Rightarrow> bool \<Rightarrow> u64 \<Rightarrow> u64 \<Rightarrow> u64 \<Rightarrow> buf_state \<Rightarrow> 'e \<Rightarrow> (int \<times> buf_state \<times> 'e) outcome" where
  "read_etr E direct len start buf_remain s e =
     (if direct
      then (if len \<le> buf_remain
            then (case etr_direct_read (etr_memory E e) (etr_ram_size s) len start of
                    Returns data \<Rightarrow>
                      (case write_mem (trace_buf_ptr s) data s of
                         Returns s \<Rightarrow> Returns (sint (ucast len :: u32), s, e)
                       | Loops \<Rightarrow> Loops | Faults \<Rightarrow> Faults)
                  | Loops \<Rightarrow> Loops | Faults \<Rightarrow> Faults)
            else Returns (0, s, e))
      else
        let (n, data, e) = cs_get_trace_data E e buf_remain
        in (case write_mem (trace_buf_ptr s) data s of
              Returns s \<Rightarrow> Returns (n, s, e)
            | Loops \<Rightarrow> Loops | Faults \<Rightarrow> Faults))"

definition fetch_trace ::
  "'e etr_lib \<Rightarrow> bool \<Rightarrow> bool \<Rightarrow> u64 option \<Rightarrow> buf_state \<Rightarrow> 'e \<Rightarrow> (int \<times> buf_state \<times> 'e) outcome" where
  "fetch_trace E direct map_ok mremap_result s e =
     (if direct \<and> \<not> etr_mapped s \<and> \<not> map_ok then Returns (- 1, s, e)
      else
        let s = (if direct then s\<lparr>etr_mapped := True\<rparr> else s);
            (pending, start) = (if direct then etr_pending E e s else (0, 0));
            len = (if direct then sint (ucast pending :: u32) else cs_get_buffer_unread_bytes E e);
            s = s\<lparr>trace_buf_ptr := ALIGN_UP (trace_buf_ptr s) 8\<rparr>;
            buf_remain = trace_buf_size s - (trace_buf_ptr s - trace_buf s);
            grown = (if word_of_int len > buf_remain
                     then grow_trace_buf mremap_result (word_of_int len) buf_remain s
                     else Returns (Some (s, buf_remain)))
        in (case grown of
              Returns None \<Rightarrow> Returns (- 1, s, e)
            | Returns (Some (s, buf_remain)) \<Rightarrow>
                (case read_etr E direct (word_of_int len) start buf_remain s e of
                   Returns (n, s, e) \<Rightarrow>
                     Returns (0, s\<lparr>trace_buf_ptr := trace_buf_ptr s + word_of_int n\<rparr>,
                              cs_empty_trace_buffer E e)
                 | Loops \<Rightarrow> Loops | Faults \<Rightarrow> Faults)
            | Loops \<Rightarrow> Loops | Faults \<Rightarrow> Faults))"

definition decode_trace ::
  "backend \<Rightarrow> 'd declib \<Rightarrow> buf_state \<Rightarrow> 'd dec_state \<Rightarrow> int \<times> buf_state \<times> 'd dec_state" where
  "decode_trace B L s d =
     (let buf = decoded_trace_buf s;
          buf_size = trace_buf_ptr s - buf;
          (ret, d) = run_decoder B L
             (take (unat buf_size) (drop (unat (buf - trace_buf s)) (buf_mem s))) d
      in if ret < 0 then (ret, s, d) else (ret, s\<lparr>decoded_trace_buf := buf + buf_size\<rparr>, d))"

section \<open>The ETR ring\<close>

text \<open>
  The documented behaviour of the ETR in circular mode, after it was emptied and then wrote the
  bytes \<open>w\<close>: the write pointer has gone round the buffer, the read pointer is at its base, the
  full flag is up once the buffer has been filled, and each cell holds the last byte written to
  it.
\<close>

definition etr_ring :: "'e etr_lib \<Rightarrow> 'e \<Rightarrow> u64 \<Rightarrow> u64 \<Rightarrow> u8 list \<Rightarrow> bool" where
  "etr_ring E e addr sz w \<longleftrightarrow>
     length (etr_memory E e) = unat sz \<and>
     cs_device_read32x2 E e ETR_RWP = addr + of_nat (length w mod unat sz) \<and>
     cs_device_read32x2 E e ETR_RRP = addr \<and>
     (cs_buffer_has_wrapped E e \<longleftrightarrow> unat sz \<le> length w) \<and>
     (\<forall>i < length w. length w \<le> i + unat sz \<longrightarrow> etr_memory E e ! (i mod unat sz) = w ! i)"

lemma ring_rotate:
  assumes "length mem = n" and "n \<le> length w"
    and cells: "\<And>i. i < length w \<Longrightarrow> length w \<le> i + n \<Longrightarrow> mem ! (i mod n) = w ! i"
  shows "drop (length w mod n) mem @ take (length w mod n) mem = drop (length w - n) w"
proof -
  have "rotate (length w) mem = drop (length w - n) w"
  proof (rule nth_equalityI)
    show "length (rotate (length w) mem) = length (drop (length w - n) w)" using assms by simp
    fix k assume "k < length (rotate (length w) mem)"
    then have k: "k < n" using assms(1) by simp
    have "rotate (length w) mem ! k = mem ! ((length w + k) mod n)"
      using k assms(1) by (simp add: nth_rotate)
    also have "(length w + k) mod n = (length w - n + k) mod n"
      using le_mod_geq [of n "length w + k"] assms(2) by simp
    also have "mem ! \<dots> = w ! (length w - n + k)"
      using assms(2) k by (intro cells) simp_all
    finally show "rotate (length w) mem ! k = drop (length w - n) w ! k" using assms(2) by simp
  qed
  then show ?thesis using assms(1) by (simp add: rotate_drop_take)
qed

text \<open>
  C19: The direct read returns the trace in the order it was produced. Whatever the ETR wrote
  since it was last emptied, \<open>etr_pending\<close> followed by the two copies of
  \<open>etr_direct_read\<close> yields all of it, or after a wrap the last buffer's worth, oldest byte
  first, and never reads outside the u-dma-buf.
\<close>

theorem etr_direct_read_in_order:
  assumes "etr_ring E e (etr_ram_addr s) (etr_ram_size s) w"
    and "0 < etr_ram_size s" and "unat (etr_ram_addr s) + unat (etr_ram_size s) < 2 ^ 64"
  shows "(case etr_pending E e s of (len, start) \<Rightarrow>
      etr_direct_read (etr_memory E e) (etr_ram_size s) len start) =
    Returns (drop (length w - unat (etr_ram_size s)) w)"
proof -
  let ?a = "etr_ram_addr s" and ?z = "etr_ram_size s"
  let ?N = "unat ?z" and ?mem = "etr_memory E e"
  let ?r = "length w mod ?N"
  note ring = assms(1) [unfolded etr_ring_def]
  have N: "0 < ?N" using assms(2) by (simp add: word_less_nat_alt)
  have r: "?r < ?N" using N by simp
  have ur: "unat (of_nat ?r :: u64) = ?r"
    using r unsigned_less [of ?z, where ?'a = nat] by (intro unat_of_nat_small) simp
  have rwp: "unat (?a + of_nat ?r) = unat ?a + ?r"
    using assms(3) r ur by (subst unat_add_lem [THEN iffD1]) simp_all
  have az: "unat (?a + ?z) = unat ?a + ?N"
    using assms(3) by (subst unat_add_lem [THEN iffD1]) simp_all
  have in1: "\<not> (?a + of_nat ?r < ?a \<or> ?a + of_nat ?r \<ge> ?a + ?z)" "\<not> (?a < ?a \<or> ?a \<ge> ?a + ?z)"
    unfolding word_less_nat_alt word_le_nat_alt using rwp az r N by linarith+
  show ?thesis
  proof (cases "?N \<le> length w")
    case True
    then have p: "etr_pending E e s = (?z, of_nat ?r)"
      using ring in1 by (simp add: etr_pending_def Let_def)
    have d: "unat (?z - of_nat ?r) = ?N - ?r"
      using ur r by (simp add: unat_sub word_le_nat_alt)
    have "drop ?r ?mem @ take ?r ?mem = drop (length w - ?N) w"
      using ring True by (intro ring_rotate) simp_all
    moreover have "unat (?z - (?z - of_nat ?r)) = ?r" using ur by simp
    moreover have "(if ?z < ?z - of_nat ?r then ?z else ?z - of_nat ?r) = ?z - of_nat ?r"
      using d by (simp add: word_less_nat_alt)
    ultimately show ?thesis
      unfolding p etr_direct_read_def Let_def using d ur ring r by simp
  next
    case False
    then have m: "?r = length w" by simp
    have p: "etr_pending E e s = (of_nat (length w), 0)"
      using ring in1 False rwp m by (simp add: etr_pending_def Let_def word_le_nat_alt)
    have "take (length w) ?mem = w"
    proof (rule nth_equalityI)
      show "length (take (length w) ?mem) = length w" using ring False by simp
      fix i assume "i < length (take (length w) ?mem)"
      then have i: "i < length w" by simp
      then have "?mem ! (i mod ?N) = w ! i" using ring False by simp
      with i False show "take (length w) ?mem ! i = w ! i" by simp
    qed
    then show ?thesis
      unfolding p etr_direct_read_def Let_def using ur m False ring by (simp add: word_less_nat_alt)
  qed
qed

text \<open>A simulated ETR whose state is the list of bytes written since it was emptied.\<close>

definition sim_etr :: "u64 \<Rightarrow> u64 \<Rightarrow> u8 list etr_lib" where
  "sim_etr addr sz =
     \<lparr>cs_device_read32x2 = \<lambda>w r. (case r of ETR_RWP \<Rightarrow> addr + of_nat (length w mod unat sz) | ETR_RRP \<Rightarrow> addr),
      cs_buffer_has_wrapped = \<lambda>w. unat sz \<le> length w,
      cs_get_buffer_unread_bytes = \<lambda>w. int (length w),
      cs_get_buffer_rwp = \<lambda>w. addr + of_nat (length w mod unat sz),
      cs_get_trace_data = \<lambda>w n. (int (length (take (unat n) w)), take (unat n) w, []),
      cs_empty_trace_buffer = \<lambda>w. [],
      etr_memory = \<lambda>w. foldl (\<lambda>m i. m[i mod unat sz := w ! i]) (replicate (unat sz) 0) [0..<length w]\<rparr>"

theorem etr_direct_read_in_order_witness:
  "etr_direct_read [5, 6, 3, 4] 4 4 2 = Returns [3, 4, 5, 6]"
proof -
  let ?s = "\<lparr>trace_buf = 0, trace_buf_size = 0, trace_buf_ptr = 0, decoded_trace_buf = 0, buf_mem = [],
     etr_mapped = True, etr_ram_addr = 0x1000, etr_ram_size = 4\<rparr>"
  let ?w = "[1, 2, 3, 4, 5, 6] :: u8 list"
  have mem: "etr_memory (sim_etr 0x1000 4) ?w = [5, 6, 3, 4]"
    by code_simp
  have cells: "\<forall>i < length ?w. length ?w \<le> i + unat (4 :: u64) \<longrightarrow> [5, 6, 3, 4] ! (i mod unat (4 :: u64)) = ?w ! i"
  proof (intro allI impI)
    fix i assume "i < length ?w" "length ?w \<le> i + unat (4 :: u64)"
    then have "i = 2 \<or> i = 3 \<or> i = 4 \<or> i = 5" by auto
    then show "[5, 6, 3, 4] ! (i mod unat (4 :: u64)) = ?w ! i" by auto
  qed
  have "etr_ring (sim_etr 0x1000 4) ?w 0x1000 4 ?w"
    unfolding etr_ring_def mem using cells by (simp add: sim_etr_def del: length_Cons)
  then have "(case etr_pending (sim_etr 0x1000 4) ?w ?s of (len, start) \<Rightarrow>
      etr_direct_read (etr_memory (sim_etr 0x1000 4) ?w) (etr_ram_size ?s) len start) =
    Returns (drop (length ?w - unat (etr_ram_size ?s)) ?w)"
    by (intro etr_direct_read_in_order) simp_all
  moreover have "etr_pending (sim_etr 0x1000 4) ?w ?s = (4, 2)"
    by (simp add: etr_pending_def sim_etr_def)
  ultimately show ?thesis using mem by simp
qed

section \<open>Growing the buffer\<close>

lemma grow_size_spec:
  assumes "0 < unat new" and "unat used \<le> unat new" and "unat used + unat len \<le> 2 ^ 60"
    and "unat new \<le> 2 ^ 61"
  shows "\<exists>r. grow_size used len new = Some r \<and> unat used + unat len \<le> unat r \<and>
    unat new \<le> unat r \<and> unat r \<le> max (unat new) (2 * (unat used + unat len)) \<and> unat new dvd unat r"
  using assms
proof (induction "2 ^ 62 - unat new" arbitrary: new rule: less_induct)
  case less
  have sub: "unat (new - used) = unat new - unat used"
    using less.prems by (simp add: unat_sub word_le_nat_alt)
  show ?case
  proof (cases "new - used < len")
    case False
    then have "grow_size used len new = Some new" by (subst grow_size.simps) simp
    with False sub less.prems show ?thesis by (auto simp: word_less_nat_alt)
  next
    case True
    then have lt: "unat new < unat used + unat len" using sub by (simp add: word_less_nat_alt)
    have "unat (new * 2) = unat new * 2"
      using less.prems lt by (subst unat_mult_lem [THEN iffD1]) simp_all
    moreover from this have "\<exists>r. grow_size used len (new * 2) = Some r \<and> unat used + unat len \<le> unat r \<and>
      unat (new * 2) \<le> unat r \<and> unat r \<le> max (unat (new * 2)) (2 * (unat used + unat len)) \<and>
      unat (new * 2) dvd unat r"
      using less.prems lt by (intro less.hyps) simp_all
    moreover have "grow_size used len new = grow_size used len (new * 2)"
      using True by (subst grow_size.simps) simp
    ultimately show ?thesis using lt by (auto simp: max_def intro: dvd_mult_left split: if_splits)
  qed
qed

section \<open>The invariant of the buffer\<close>

definition user_addr :: "u64 \<Rightarrow> bool" where
  "user_addr p \<longleftrightarrow> p \<noteq> 0 \<and> unat p < 2 ^ 48 \<and> unat p mod 4096 = 0"

definition buf_inv :: "buf_state \<Rightarrow> bool" where
  "buf_inv s \<longleftrightarrow>
     user_addr (trace_buf s) \<and> 0 < unat (trace_buf_size s) \<and> unat (trace_buf_size s) \<le> 2 ^ 46 \<and>
     unat (trace_buf_size s) mod 8 = 0 \<and> length (buf_mem s) = unat (trace_buf_size s) \<and>
     unat (trace_buf s) \<le> unat (decoded_trace_buf s) \<and>
     unat (decoded_trace_buf s) \<le> unat (trace_buf_ptr s) \<and>
     unat (trace_buf_ptr s) \<le> unat (trace_buf s) + unat (trace_buf_size s)"

text \<open>The bytes captured in this execution, how many of them are decoded, and the rest.\<close>

definition captured :: "buf_state \<Rightarrow> u8 list" where
  "captured s = take (unat (trace_buf_ptr s) - unat (trace_buf s)) (buf_mem s)"

definition decoded_len :: "buf_state \<Rightarrow> nat" where
  "decoded_len s = unat (decoded_trace_buf s) - unat (trace_buf s)"

lemma length_captured: "buf_inv s \<Longrightarrow> length (captured s) = unat (trace_buf_ptr s) - unat (trace_buf s)"
  by (auto simp: buf_inv_def captured_def)

lemma unat_diff_le: "unat b \<le> unat a \<Longrightarrow> unat (a - b) = unat a - unat (b :: u64)"
  by (simp add: unat_sub word_le_nat_alt)

lemma unat_add_small: "unat a + unat b < 2 ^ 64 \<Longrightarrow> unat (a + b) = unat a + unat (b :: u64)"
  using unat_add_lem [of a b] by simp

lemma trace_captured_bytes_length: "buf_inv s \<Longrightarrow> unat (trace_captured_bytes s) = length (captured s)"
  by (simp add: length_captured trace_captured_bytes_def unat_diff_le buf_inv_def)

lemma decode_trace_buffer:
  assumes "buf_inv s"
  shows "decode_trace B L s d =
    (let (ret, d) = run_decoder B L (drop (decoded_len s) (captured s)) d
     in if ret < 0 then (ret, s, d) else (ret, s\<lparr>decoded_trace_buf := trace_buf_ptr s\<rparr>, d))"
proof -
  let ?b = "unat (trace_buf s)" and ?c = "unat (decoded_trace_buf s)" and ?p = "unat (trace_buf_ptr s)"
  have le: "?b \<le> ?c" "?c \<le> ?p" using assms by (simp_all add: buf_inv_def)
  have "unat (trace_buf_ptr s - decoded_trace_buf s) = ?p - ?c"
    "unat (decoded_trace_buf s - trace_buf s) = ?c - ?b"
    using le by (simp_all add: unat_diff_le)
  moreover have "take (?p - ?c) (drop (?c - ?b) (buf_mem s)) = drop (?c - ?b) (take (?p - ?b) (buf_mem s))"
    using le by (simp add: drop_take)
  moreover have "decoded_trace_buf s + (trace_buf_ptr s - decoded_trace_buf s) = trace_buf_ptr s" by simp
  ultimately show ?thesis
    unfolding decode_trace_def captured_def decoded_len_def Let_def by (simp only:)
qed

section \<open>Fetching appends to the captured trace\<close>

definition pad8 :: "nat \<Rightarrow> nat" where
  "pad8 n = (n + 7) div 8 * 8"

lemma pad8_ge: "n \<le> pad8 n" and pad8_le: "n \<le> m \<Longrightarrow> m mod 8 = 0 \<Longrightarrow> pad8 n \<le> m"
  and pad8_id: "n mod 8 = 0 \<Longrightarrow> pad8 n = n"
  by (simp_all add: pad8_def) presburger+

text \<open>
  What the ETR hands over at one fetch: through the u-dma-buf, the bytes the direct read copies;
  otherwise CSAL's contract for the RRD loop, which reports the unread bytes and copies them when
  they fit. The count is an \<open>int\<close> in the code, so it stays below \<open>2\<^sup>3\<^sup>1\<close>.
\<close>

definition delivers :: "'e etr_lib \<Rightarrow> bool \<Rightarrow> u64 \<Rightarrow> u64 \<Rightarrow> 'e \<Rightarrow> u8 list \<Rightarrow> bool" where
  "delivers E direct addr sz e data \<longleftrightarrow>
     length data < 2 ^ 31 \<and>
     (if direct
      then (\<exists>len start.
              (\<forall>s. etr_ram_addr s = addr \<longrightarrow> etr_ram_size s = sz \<longrightarrow> etr_pending E e s = (len, start)) \<and>
              unat len = length data \<and> etr_direct_read (etr_memory E e) sz len start = Returns data)
      else cs_get_buffer_unread_bytes E e = int (length data) \<and>
           (\<forall>n. length data \<le> unat n \<longrightarrow>
              (\<exists>e'. cs_get_trace_data E e n = (int (length data), data, e'))))"

lemma unat_word_of_length: "length data < 2 ^ 31 \<Longrightarrow> unat (word_of_int (int (length data)) :: u64) = length data"
  using unat_of_nat_small [of "length data", where ?'a = 64] by simp

lemma sint_of_length:
  assumes "unat (len :: u64) = length data" and "length data < 2 ^ 31"
  shows "sint (ucast len :: u32) = int (length data)"
proof -
  have "unat (ucast len :: u32) = take_bit 32 (length data)"
    using assms(1) by (simp add: unsigned_ucast_eq)
  also have "\<dots> = length data" using assms(2) by (intro take_bit_nat_eq_self) simp
  finally have "uint (ucast len :: u32) = int (length data)" by (metis uint_nat)
  then have "sint (ucast len :: u32) = signed_take_bit 31 (int (length data))"
    by (simp add: sint_uint)
  also have "\<dots> = int (length data)"
    using assms(2) by (intro signed_take_bit_int_eq_self) simp_all
  finally show ?thesis .
qed

lemma mod_4096_8: "n mod 4096 = 0 \<Longrightarrow> n mod 8 = (0 :: nat)"
  using mod_mod_cancel [of 8 4096 n] by simp

lemma align_offset:
  assumes "b mod 8 = 0" and "b \<le> p"
  shows "(p + 7) div 8 * 8 = b + pad8 (p - b)"
proof -
  obtain k where b: "b = 8 * k" using assms(1) by (metis mod_0_imp_dvd dvdE)
  obtain q where p: "p = 8 * k + q" using assms(2) b le_Suc_ex by blast
  have "(8 * k + (q + 7)) div 8 = k + (q + 7) div 8" by simp
  then have "(p + 7) div 8 = k + (q + 7) div 8" by (simp only: p add.assoc)
  then show ?thesis using b p by (simp add: pad8_def)
qed

lemma buf_inv_align:
  assumes "buf_inv s"
  defines "t \<equiv> s\<lparr>trace_buf_ptr := ALIGN_UP (trace_buf_ptr s) 8\<rparr>"
  shows "buf_inv t" and "captured t = take (pad8 (length (captured s))) (buf_mem s)"
    and "decoded_len t = decoded_len s" and "length (captured t) = pad8 (length (captured s))"
proof -
  let ?b = "unat (trace_buf s)" and ?p = "unat (trace_buf_ptr s)" and ?z = "unat (trace_buf_size s)"
  have b: "?b mod 8 = 0" "?b < 2 ^ 48" "?z \<le> 2 ^ 46" "?z mod 8 = 0" "?b \<le> ?p" "?p \<le> ?b + ?z"
    using assms(1) mod_4096_8 [of ?b] by (simp_all add: buf_inv_def user_addr_def)
  have "unat (ALIGN_UP (trace_buf_ptr s) 8) = (?p + 7) div 8 * 8"
    using b by (intro unat_ALIGN_UP_8) simp
  moreover have "(?p + 7) div 8 * 8 = ?b + pad8 (?p - ?b)"
    using b(1,5) by (rule align_offset)
  ultimately have p: "unat (ALIGN_UP (trace_buf_ptr s) 8) = ?b + pad8 (?p - ?b)" by simp
  moreover have "?p - ?b \<le> pad8 (?p - ?b)" "pad8 (?p - ?b) \<le> ?z"
    using b by (auto intro: pad8_ge pad8_le)
  moreover have "?b \<le> unat (decoded_trace_buf s)" "unat (decoded_trace_buf s) \<le> ?p"
    using assms(1) by (simp_all add: buf_inv_def)
  ultimately show "buf_inv t" using assms(1) by (simp add: buf_inv_def t_def)
  show "captured t = take (pad8 (length (captured s))) (buf_mem s)"
    using p length_captured [OF assms(1)] by (simp add: captured_def t_def)
  show "decoded_len t = decoded_len s" by (simp add: decoded_len_def t_def)
  show "length (captured t) = pad8 (length (captured s))"
    using p \<open>buf_inv t\<close> length_captured [OF assms(1)] by (simp add: length_captured) (simp add: t_def)
qed

lemma grow_trace_buf_spec:
  assumes inv: "buf_inv s" and p: "user_addr p"
    and remain: "unat remain = unat (trace_buf_size s) - length (captured s)"
    and big: "unat remain < unat len" and fits: "length (captured s) + unat len \<le> 2 ^ 45"
  shows "\<exists>t r. grow_trace_buf (Some p) len remain s = Returns (Some (t, r)) \<and> buf_inv t \<and>
    captured t = captured s \<and> decoded_len t = decoded_len s \<and>
    unat r = unat (trace_buf_size t) - length (captured t) \<and>
    length (captured s) + unat len \<le> unat (trace_buf_size t) \<and>
    etr_ram_addr t = etr_ram_addr s \<and> etr_ram_size t = etr_ram_size s \<and> etr_mapped t = etr_mapped s"
proof -
  let ?z = "trace_buf_size s" and ?u = "trace_buf_size s - remain"
  let ?c = "length (captured s)"
  have z: "0 < unat ?z" "unat ?z \<le> 2 ^ 46" "unat ?z mod 8 = 0" "length (buf_mem s) = unat ?z"
    "?c \<le> unat ?z"
    using inv length_captured [OF inv] by (auto simp: buf_inv_def)
  have u: "unat ?u = ?c" using remain z by (simp add: unat_diff_le)
  have z2: "unat (?z * 2) = unat ?z * 2"
    using z by (subst unat_mult_lem [THEN iffD1]) simp_all
  obtain n where n: "grow_size ?u len (?z * 2) = Some n" "?c + unat len \<le> unat n"
      "unat ?z * 2 \<le> unat n" "unat n \<le> max (unat ?z * 2) (2 * (?c + unat len))" "unat ?z * 2 dvd unat n"
    using grow_size_spec [of "?z * 2" ?u len] z z2 u fits by auto
  have hi: "unat n \<le> 2 ^ 46" using n(4) fits big remain z by simp
  have n8: "unat n mod 8 = 0" using n(5) z(3) by (metis dvd_mult_left dvd_trans mod_0_imp_dvd mod_eq_0_iff_dvd)
  have un: "unat (n - ?u) = unat n - ?c" using n(2) u by (simp add: unat_diff_le)
  have offs: "unat (p + (decoded_trace_buf s - trace_buf s)) = unat p + decoded_len s"
    "unat (p + (trace_buf_ptr s - trace_buf s)) = unat p + ?c"
    using inv p length_captured [OF inv]
    by (auto simp: buf_inv_def user_addr_def unat_diff_le unat_add_small decoded_len_def)
  let ?t = "s\<lparr>decoded_trace_buf := p + (decoded_trace_buf s - trace_buf s),
    trace_buf_ptr := p + (trace_buf_ptr s - trace_buf s), trace_buf := p, trace_buf_size := n,
    buf_mem := buf_mem s @ replicate (unat n - length (buf_mem s)) 0\<rparr>"
  have "grow_trace_buf (Some p) len remain s = Returns (Some (?t, n - ?u))"
    using n(1) by (simp add: grow_trace_buf_def Let_def)
  moreover have c: "captured ?t = captured s"
    using offs z length_captured [OF inv] by (simp add: captured_def)
  moreover have "decoded_len s \<le> ?c" using inv length_captured [OF inv] by (auto simp: buf_inv_def decoded_len_def)
  moreover from this have "buf_inv ?t" using p hi n8 n(3) z offs by (simp add: buf_inv_def)
  moreover have "decoded_len ?t = decoded_len s" using offs by (simp add: decoded_len_def)
  ultimately show ?thesis using un n(2) by auto
qed

lemma write_mem_tail:
  assumes "buf_inv s" and "length (captured s) + length data \<le> unat (trace_buf_size s)"
  shows "write_mem (trace_buf_ptr s) data s =
    Returns (s\<lparr>buf_mem := captured s @ data @ drop (length (captured s) + length data) (buf_mem s)\<rparr>)"
proof -
  have "unat (trace_buf_ptr s - trace_buf s) = length (captured s)"
    using trace_captured_bytes_length [OF assms(1)] by (simp add: trace_captured_bytes_def)
  moreover have t: "take (length (captured s)) (buf_mem s) = captured s"
    by (simp add: captured_def min_def)
  moreover have "captured s @ drop (length (captured s)) (buf_mem s) = buf_mem s"
    using append_take_drop_id [of "length (captured s)" "buf_mem s"] t by simp
  moreover have "length (buf_mem s) = unat (trace_buf_size s)" using assms(1) by (simp add: buf_inv_def)
  ultimately show ?thesis using assms(2) by (simp add: write_mem_def Let_def)
qed

lemma advance_tail:
  assumes "buf_inv s" and "length (captured s) + length data \<le> unat (trace_buf_size s)"
    and "length data < 2 ^ 31"
  defines "t \<equiv> s\<lparr>buf_mem := captured s @ data @ drop (length (captured s) + length data) (buf_mem s),
      trace_buf_ptr := trace_buf_ptr s + word_of_int (int (length data))\<rparr>"
  shows "buf_inv t" and "captured t = captured s @ data" and "decoded_len t = decoded_len s"
proof -
  let ?c = "length (captured s)"
  have c: "unat (trace_buf_ptr s) = unat (trace_buf s) + ?c" "unat (trace_buf s) < 2 ^ 48"
    "unat (trace_buf_size s) \<le> 2 ^ 46" "length (buf_mem s) = unat (trace_buf_size s)"
    using assms(1) length_captured [OF assms(1)] by (auto simp: buf_inv_def user_addr_def)
  then have p: "unat (trace_buf_ptr s + word_of_int (int (length data))) =
      unat (trace_buf s) + (?c + length data)"
    using assms(2) unat_word_of_length [OF assms(3)] by (subst unat_add_small) simp_all
  with c assms(1,2) show "buf_inv t" by (simp add: buf_inv_def t_def)
  show "captured t = captured s @ data" using p by (simp add: captured_def [of t]) (simp add: t_def)
  show "decoded_len t = decoded_len s" by (simp add: decoded_len_def t_def)
qed

lemma make_room:
  assumes inv: "buf_inv s" and p: "user_addr p"
    and remain: "unat remain = unat (trace_buf_size s) - length (captured s)"
    and small: "length data < 2 ^ 31" and fits: "length (captured s) + length data \<le> 2 ^ 45"
  shows "\<exists>t r. (if word_of_int (int (length data)) > remain
      then grow_trace_buf (Some p) (word_of_int (int (length data))) remain s
      else Returns (Some (s, remain))) = Returns (Some (t, r)) \<and> buf_inv t \<and>
    captured t = captured s \<and> decoded_len t = decoded_len s \<and>
    unat r = unat (trace_buf_size t) - length (captured t) \<and>
    length (captured t) + length data \<le> unat (trace_buf_size t) \<and>
    etr_ram_addr t = etr_ram_addr s \<and> etr_ram_size t = etr_ram_size s \<and> etr_mapped t = etr_mapped s"
proof (cases "word_of_int (int (length data)) > remain")
  case True
  let ?len = "word_of_int (int (length data)) :: u64"
  note w = unat_word_of_length [OF small]
  have "unat remain < unat ?len" "length (captured s) + unat ?len \<le> 2 ^ 45"
    using True fits w by (simp_all add: word_less_nat_alt)
  then obtain t r where "grow_trace_buf (Some p) ?len remain s = Returns (Some (t, r))"
      "buf_inv t" "captured t = captured s" "decoded_len t = decoded_len s"
      "unat r = unat (trace_buf_size t) - length (captured t)"
      "length (captured s) + unat ?len \<le> unat (trace_buf_size t)"
      "etr_ram_addr t = etr_ram_addr s" "etr_ram_size t = etr_ram_size s" "etr_mapped t = etr_mapped s"
    using grow_trace_buf_spec [OF inv p remain] by blast
  with True w show ?thesis by simp
next
  case False
  then have "length data \<le> unat remain" using unat_word_of_length [OF small] by (simp add: word_less_nat_alt)
  moreover have "length (captured s) \<le> unat (trace_buf_size s)"
    using inv length_captured [OF inv] by (auto simp: buf_inv_def)
  ultimately show ?thesis using False remain inv by simp
qed

lemma read_etr_spec:
  assumes inv: "buf_inv s" and "delivers E direct (etr_ram_addr s) (etr_ram_size s) e data"
    and "length (captured s) + length data \<le> unat (trace_buf_size s)"
    and "unat remain = unat (trace_buf_size s) - length (captured s)"
    and "direct \<Longrightarrow> etr_pending E e s = (len, start)"
  shows "\<exists>e'. read_etr E direct (word_of_int (int (length data))) start remain s e =
    Returns (int (length data),
      s\<lparr>buf_mem := captured s @ data @ drop (length (captured s) + length data) (buf_mem s)\<rparr>, e')"
proof -
  have small: "length data < 2 ^ 31" using assms(2) by (simp add: delivers_def)
  note w = unat_word_of_length [OF small]
  have fits: "word_of_int (int (length data)) \<le> remain"
    using w assms(3,4) by (simp add: word_le_nat_alt)
  show ?thesis
  proof (cases direct)
    case True
    then have "unat len = length data" "etr_direct_read (etr_memory E e) (etr_ram_size s) len start = Returns data"
      using assms(2,5) by (auto simp: delivers_def)
    moreover from this have "len = word_of_int (int (length data))" using w by (simp add: word_unat_eq_iff)
    ultimately show ?thesis
      using True fits sint_of_length [of len data] small
      by (simp add: read_etr_def write_mem_tail [OF inv assms(3)])
  next
    case False
    moreover have "length data \<le> unat remain" using assms(3,4) by simp
    ultimately obtain e' where "cs_get_trace_data E e remain = (int (length data), data, e')"
      using assms(2) by (auto simp: delivers_def)
    with False show ?thesis by (simp add: read_etr_def write_mem_tail [OF inv assms(3)])
  qed
qed

text \<open>
  The whole of \<open>fetch_trace\<close>: the captured bytes are rounded up to a multiple of eight and
  followed by exactly what the ETR delivered, also when the buffer had to be moved and grown;
  nothing is written outside the mapping, and what is already decoded stays so.
\<close>

lemma fetch_trace_appends:
  assumes inv: "buf_inv s" and del: "delivers E direct (etr_ram_addr s) (etr_ram_size s) e data"
    and ok: "direct \<longrightarrow> etr_mapped s \<or> map_ok" and p: "user_addr p"
    and fits: "pad8 (length (captured s)) + length data \<le> 2 ^ 45"
  shows "\<exists>t e'. fetch_trace E direct map_ok (Some p) s e = Returns (0, t, e') \<and> buf_inv t \<and>
    captured t = take (pad8 (length (captured s))) (buf_mem s) @ data \<and>
    decoded_len t = decoded_len s \<and> etr_ram_addr t = etr_ram_addr s \<and>
    etr_ram_size t = etr_ram_size s \<and> (direct \<longrightarrow> etr_mapped t)"
proof -
  have small: "length data < 2 ^ 31" using del by (simp add: delivers_def)
  define s1 where "s1 = (if direct then s\<lparr>etr_mapped := True\<rparr> else s)"
  define s2 where "s2 = s1\<lparr>trace_buf_ptr := ALIGN_UP (trace_buf_ptr s1) 8\<rparr>"
  have s1: "buf_inv s1" "captured s1 = captured s" "decoded_len s1 = decoded_len s" "buf_mem s1 = buf_mem s"
    "etr_ram_addr s1 = etr_ram_addr s" "etr_ram_size s1 = etr_ram_size s" "direct \<longrightarrow> etr_mapped s1"
    using inv by (simp_all add: s1_def buf_inv_def captured_def decoded_len_def)
  have s2: "buf_inv s2" "captured s2 = take (pad8 (length (captured s))) (buf_mem s)"
    "decoded_len s2 = decoded_len s" "length (captured s2) = pad8 (length (captured s))"
    "etr_ram_addr s2 = etr_ram_addr s" "etr_ram_size s2 = etr_ram_size s" "direct \<longrightarrow> etr_mapped s2"
    using buf_inv_align [OF s1(1)] s1 by (simp_all add: s2_def)
  obtain pend start where pend: "(if direct then etr_pending E e s1 else (0, 0)) = (pend, start)"
    by (metis prod.exhaust)
  have len: "(if direct then sint (ucast pend :: u32) else cs_get_buffer_unread_bytes E e) = int (length data)"
    and pend2: "direct \<Longrightarrow> etr_pending E e u = (pend, start)"
      if "etr_ram_addr u = etr_ram_addr s" "etr_ram_size u = etr_ram_size s" for u
    using del pend sint_of_length [OF _ small, of pend] that s1(5,6) by (auto simp: delivers_def split: if_splits)
  define remain where "remain = trace_buf_size s2 - (trace_buf_ptr s2 - trace_buf s2)"
  have cap: "unat (trace_buf_ptr s2 - trace_buf s2) = length (captured s2)"
    using trace_captured_bytes_length [OF s2(1)] by (simp add: trace_captured_bytes_def)
  have "length (captured s2) \<le> unat (trace_buf_size s2)"
    using s2(1) length_captured [OF s2(1)] by (auto simp: buf_inv_def)
  then have remain: "unat remain = unat (trace_buf_size s2) - length (captured s2)"
    using cap by (simp add: remain_def unat_diff_le)
  let ?len = "word_of_int (int (length data)) :: u64"
  let ?grown = "if ?len > remain then grow_trace_buf (Some p) ?len remain s2 else Returns (Some (s2, remain))"
  obtain s3 r where g: "?grown = Returns (Some (s3, r))" and s3: "buf_inv s3" "captured s3 = captured s2"
      "decoded_len s3 = decoded_len s2" "unat r = unat (trace_buf_size s3) - length (captured s3)"
      "length (captured s3) + length data \<le> unat (trace_buf_size s3)"
      "etr_ram_addr s3 = etr_ram_addr s2" "etr_ram_size s3 = etr_ram_size s2" "etr_mapped s3 = etr_mapped s2"
    using make_room [OF s2(1) p remain small] fits s2(4) by auto
  have del3: "delivers E direct (etr_ram_addr s3) (etr_ram_size s3) e data" using del s3(6,7) s2(5,6) by simp
  obtain e' where rd: "read_etr E direct ?len start r s3 e = Returns (int (length data),
      s3\<lparr>buf_mem := captured s3 @ data @ drop (length (captured s3) + length data) (buf_mem s3)\<rparr>, e')"
    using read_etr_spec [OF s3(1) del3 s3(5,4), of pend start] pend2 [of s3] s3(6,7) s2(5,6) by auto
  let ?t = "s3\<lparr>buf_mem := captured s3 @ data @ drop (length (captured s3) + length data) (buf_mem s3),
      trace_buf_ptr := trace_buf_ptr s3 + ?len\<rparr>"
  have guard: "\<not> (direct \<and> \<not> etr_mapped s \<and> \<not> map_ok)" using ok by blast
  have "fetch_trace E direct map_ok (Some p) s e = Returns (0, ?t, cs_empty_trace_buffer E e')"
    unfolding fetch_trace_def if_not_P [OF guard] Let_def
    by (simp only: s1_def [symmetric] pend case_prod_conv len [OF s1(5,6)] s2_def [symmetric]
        remain_def [symmetric] g outcome.case option.case rd) simp
  then show ?thesis
    using advance_tail [OF s3(1,5) small] s2 s3 by auto
qed

section \<open>The decoder sees the trace\<close>

text \<open>
  One drain, \<open>fetch_trace()\<close> then \<open>decode_trace()\<close>, as \<open>trace_sink_polling\<close> makes it while
  the child runs and once more after it exited; the pair is the device found at that moment and
  the address \<open>mremap\<close> would answer.
\<close>

definition drain_round ::
  "'e etr_lib \<Rightarrow> bool \<Rightarrow> backend \<Rightarrow> 'd declib \<Rightarrow> 'e \<times> u64 \<Rightarrow> buf_state \<times> 'd dec_state
   \<Rightarrow> (buf_state \<times> 'd dec_state) option" where
  "drain_round E direct B L round st =
     (let (e, p) = round; (s, d) = st
      in (case fetch_trace E direct True (Some p) s e of
            Returns (ret, s, _) \<Rightarrow>
              (let (ret, s, d) = decode_trace B L s d in if ret < 0 then None else Some (s, d))
          | _ \<Rightarrow> None))"

fun drain ::
  "'e etr_lib \<Rightarrow> bool \<Rightarrow> backend \<Rightarrow> 'd declib \<Rightarrow> ('e \<times> u64) list \<Rightarrow> buf_state \<times> 'd dec_state
   \<Rightarrow> (buf_state \<times> 'd dec_state) option" where
  "drain E direct B L [] st = Some st"
| "drain E direct B L (r # rs) st =
     (case drain_round E direct B L r st of None \<Rightarrow> None | Some st \<Rightarrow> drain E direct B L rs st)"

fun all_decoded :: "backend \<Rightarrow> 'd declib \<Rightarrow> u8 list list \<Rightarrow> 'd dec_state \<Rightarrow> bool" where
  "all_decoded B L [] d = True"
| "all_decoded B L (b # bs) d = (0 \<le> fst (run_decoder B L b d) \<and> all_decoded B L bs (snd (run_decoder B L b d)))"

definition hands_over :: "'e etr_lib \<Rightarrow> bool \<Rightarrow> u64 \<Rightarrow> u64 \<Rightarrow> 'e \<times> u64 \<Rightarrow> u8 list \<Rightarrow> bool" where
  "hands_over E direct addr sz round data \<longleftrightarrow>
     delivers E direct addr sz (fst round) data \<and> user_addr (snd round) \<and> length data mod 8 = 0"

lemma drain_round_step:
  assumes "buf_inv s" and "hands_over E direct (etr_ram_addr s) (etr_ram_size s) r data"
    and "length (captured s) mod 8 = 0" and "decoded_len s = length (captured s)"
    and "length (captured s) + length data \<le> 2 ^ 45" and "0 \<le> fst (run_decoder B L data d)"
  shows "\<exists>t. drain_round E direct B L r (s, d) = Some (t, snd (run_decoder B L data d)) \<and> buf_inv t \<and>
    captured t = captured s @ data \<and> decoded_len t = length (captured t) \<and>
    etr_ram_addr t = etr_ram_addr s \<and> etr_ram_size t = etr_ram_size s"
proof -
  obtain e p where r: "r = (e, p)" by (cases r)
  have cap: "take (length (captured s)) (buf_mem s) = captured s" by (simp add: captured_def min_def)
  obtain t e' where f: "fetch_trace E direct True (Some p) s e = Returns (0, t, e')" and t: "buf_inv t"
      "captured t = captured s @ data" "decoded_len t = decoded_len s"
      "etr_ram_addr t = etr_ram_addr s" "etr_ram_size t = etr_ram_size s"
    using fetch_trace_appends [OF assms(1), of E direct e data True p] assms(2-5) cap
    by (auto simp: r hands_over_def pad8_id)
  let ?u = "t\<lparr>decoded_trace_buf := trace_buf_ptr t\<rparr>"
  have "decode_trace B L t d = (fst (run_decoder B L data d), ?u, snd (run_decoder B L data d))"
    using t assms(4,6) by (simp add: decode_trace_buffer [OF t(1)] Let_def case_prod_beta)
  then have "drain_round E direct B L r (s, d) = Some (?u, snd (run_decoder B L data d))"
    using f assms(6) by (simp add: drain_round_def r)
  moreover have "buf_inv ?u" "captured ?u = captured t" "decoded_len ?u = length (captured ?u)"
    using t(1) length_captured [OF t(1)] by (auto simp: buf_inv_def captured_def decoded_len_def)
  ultimately show ?thesis using t by auto
qed

lemma drain_spec:
  assumes "buf_inv s" and "list_all2 (hands_over E direct (etr_ram_addr s) (etr_ram_size s)) rs datas"
    and "length (captured s) mod 8 = 0" and "decoded_len s = length (captured s)"
    and "length (captured s) + length (concat datas) \<le> 2 ^ 45" and "all_decoded B L datas d"
  shows "\<exists>t. drain E direct B L rs (s, d) = Some (t, run_passes B L datas d) \<and> buf_inv t \<and>
    captured t = captured s @ concat datas \<and> decoded_len t = length (captured t)"
  using assms
proof (induction datas arbitrary: rs s d)
  case Nil
  then show ?case by (auto simp: run_passes_def)
next
  case (Cons data datas)
  let ?d = "snd (run_decoder B L data d)"
  obtain r rs' where rs: "rs = r # rs'" and h: "hands_over E direct (etr_ram_addr s) (etr_ram_size s) r data"
    and hs: "list_all2 (hands_over E direct (etr_ram_addr s) (etr_ram_size s)) rs' datas"
    using Cons.prems(2) by (auto simp: list_all2_Cons2)
  obtain u where u: "drain_round E direct B L r (s, d) = Some (u, ?d)" "buf_inv u"
      "captured u = captured s @ data" "decoded_len u = length (captured u)"
      "etr_ram_addr u = etr_ram_addr s" "etr_ram_size u = etr_ram_size s"
    using drain_round_step [OF Cons.prems(1) h Cons.prems(3,4), of B L d] Cons.prems(5,6) by force
  have "(length (captured s) + length data) mod 8 = 0"
    using h Cons.prems(3) by (simp add: hands_over_def mod_add_eq [symmetric])
  then have "\<exists>t. drain E direct B L rs' (u, ?d) = Some (t, run_passes B L datas ?d) \<and> buf_inv t \<and>
      captured t = captured u @ concat datas \<and> decoded_len t = length (captured t)"
    using Cons.prems(5,6) u hs by (intro Cons.IH) simp_all
  with u rs show ?case by (auto simp: run_passes_def)
qed

lemma alloc_trace_buf_spec:
  assumes "alloc_trace_buf direct (Some p) s0 = (0, s)" and "user_addr p"
    and "trace_buf s0 \<noteq> 0 \<and> direct \<Longrightarrow> buf_inv s0"
    and "unat (etr_ram_size s0) \<le> 2 ^ 46" and "unat (etr_ram_size s0) mod 8 = 0"
  shows "buf_inv s \<and> captured s = [] \<and> decoded_len s = 0 \<and> etr_ram_addr s = etr_ram_addr s0 \<and>
    etr_ram_size s = etr_ram_size s0"
proof (cases "trace_buf s0 \<noteq> 0 \<and> direct")
  case True
  with assms show ?thesis by (auto simp: alloc_trace_buf_def buf_inv_def captured_def decoded_len_def)
next
  case False
  let ?z = "if etr_ram_size s0 > DEFAULT_TRACE_SIZE then etr_ram_size s0 else DEFAULT_TRACE_SIZE"
  have "0 < unat ?z" "unat ?z \<le> 2 ^ 46" "unat ?z mod 8 = 0"
    using assms(4,5) by (auto simp: word_less_nat_alt)
  with False assms(1,2) show ?thesis
    by (auto simp: alloc_trace_buf_def Let_def buf_inv_def captured_def decoded_len_def split: if_splits)
qed

text \<open>
  C4: The decoder sees exactly the trace, in order and once. From a buffer
  \<open>alloc_trace_buf\<close> has just set up, any sequence of drains (\<open>fetch_trace\<close> then
  \<open>decode_trace\<close>) whose decode passes succeed returns normally, hands the decoder precisely the
  chunks the ETR delivered, one per pass, and leaves their concatenation in the buffer, which is
  what \<open>export_trace\<close> writes. This holds for both ways of reading the ETR and across any number
  of growths that move the buffer. The hypotheses are the system's contracts: page-aligned
  user-space mappings, chunks of whole trace frames, below two gigabytes each and at most
  \<open>2\<^sup>4\<^sup>5\<close> bytes in all.
\<close>

theorem decoder_sees_exact_trace:
  assumes "alloc_trace_buf direct (Some p) s0 = (0, s)" and "user_addr p"
    and "trace_buf s0 \<noteq> 0 \<and> direct \<Longrightarrow> buf_inv s0"
    and "unat (etr_ram_size s0) \<le> 2 ^ 46" and "unat (etr_ram_size s0) mod 8 = 0"
    and "list_all2 (hands_over E direct (etr_ram_addr s0) (etr_ram_size s0)) rounds datas"
    and "length (concat datas) \<le> 2 ^ 45" and "all_decoded B L datas d"
  shows "\<exists>t. drain E direct B L rounds (s, d) = Some (t, run_passes B L datas d) \<and>
    take (unat (trace_captured_bytes t)) (buf_mem t) = concat datas"
proof -
  note s = alloc_trace_buf_spec [OF assms(1-5)]
  obtain t where t: "drain E direct B L rounds (s, d) = Some (t, run_passes B L datas d)" "buf_inv t"
      "captured t = concat datas"
    using drain_spec [of s E direct rounds datas B L d] s assms(6-8) by auto
  moreover have "take (length (captured t)) (buf_mem t) = captured t" by (simp add: captured_def min_def)
  ultimately show ?thesis using trace_captured_bytes_length [OF t(2)] by auto
qed

theorem decoder_sees_exact_trace_witness:
  "\<exists>t d. drain (sim_etr 0x1000 64) False Armored counting_lib
       [([1, 2, 3, 4, 5, 6, 7, 8], 0x10000), ([8, 7, 6, 5, 4, 3, 2, 1], 0x20000)]
       (snd (alloc_trace_buf False (Some 0x10000)
          \<lparr>trace_buf = 0, trace_buf_size = 0, trace_buf_ptr = 0, decoded_trace_buf = 0, buf_mem = [],
           etr_mapped = False, etr_ram_addr = 0x1000, etr_ram_size = 64\<rparr>), dec_state0 0) = Some (t, d) \<and>
     take (unat (trace_captured_bytes t)) (buf_mem t) = [1, 2, 3, 4, 5, 6, 7, 8, 8, 7, 6, 5, 4, 3, 2, 1]"
proof -
  let ?s0 = "\<lparr>trace_buf = 0, trace_buf_size = 0, trace_buf_ptr = 0, decoded_trace_buf = 0, buf_mem = [],
     etr_mapped = False, etr_ram_addr = 0x1000, etr_ram_size = 64\<rparr>"
  let ?ds = "[[1, 2, 3, 4, 5, 6, 7, 8], [8, 7, 6, 5, 4, 3, 2, 1]] :: u8 list list"
  have al: "alloc_trace_buf False (Some 0x10000) ?s0 = (0, snd (alloc_trace_buf False (Some 0x10000) ?s0))"
    by (simp add: alloc_trace_buf_def Let_def)
  have d: "delivers (sim_etr 0x1000 64) False a z w w" if "length w < 2 ^ 31" for a z w
    using that by (auto simp: delivers_def sim_etr_def)
  have "list_all2 (hands_over (sim_etr 0x1000 64) False (etr_ram_addr ?s0) (etr_ram_size ?s0))
      [(?ds ! 0, 0x10000), (?ds ! 1, 0x20000)] ?ds"
    by (simp add: hands_over_def d user_addr_def)
  moreover have "all_decoded Armored counting_lib ?ds (dec_state0 0)"
    by (simp add: run_decoder_def counting_lib_def dec_state0_def)
  ultimately have "\<exists>t. drain (sim_etr 0x1000 64) False Armored counting_lib [(?ds ! 0, 0x10000), (?ds ! 1, 0x20000)]
      (snd (alloc_trace_buf False (Some 0x10000) ?s0), dec_state0 0) =
      Some (t, run_passes Armored counting_lib ?ds (dec_state0 0)) \<and>
    take (unat (trace_captured_bytes t)) (buf_mem t) = concat ?ds"
    by (intro decoder_sees_exact_trace [OF al]) (simp_all add: user_addr_def)
  then show ?thesis by auto
qed

end
