(* ===== verification/Decoder_Sync.thy ===== *)
theory Decoder_Sync
  imports Trace_Buffer
begin

text \<open>
  The hand-over between the proxy and the decoder thread of \<open>src/src/common.c\<close>:
  \<open>signal_event\<close>, \<open>wait_event\<close>, \<open>trace_sink_polling\<close>, \<open>decoder_worker\<close>, the two
  callbacks, and the synchronising parts of \<open>start_trace\<close>, \<open>stop_trace\<close> and
  \<open>fini_trace\<close>, as the proxy (\<open>wait_for_child_and_stop_trace\<close>) and the fork server
  (\<open>src/libforksrv/libforksrv.c\<close>) drive them. Each thread is a program counter; a step is one
  critical section, system call or pipe operation of one of them, so every interleaving is a run
  of \<open>sync_step\<close>. \<open>attempt\<close> and \<open>handled\<close> are ghost counters: executions started, and the
  last execution whose trace the decoder has decoded to the end. What the decoder thread does to the
  buffer in a drain is \<open>Trace_Buffer\<close>; here only its order matters.
\<close>

section \<open>Events\<close>

text \<open>\<open>signal_event\<close> raises a flag under the event mutex.\<close>

definition signal_event :: "bool \<Rightarrow> bool" where
  "signal_event flag = True"

declare signal_event_def [simp]

text \<open>
  \<open>wait_event\<close>, with the flag and \<open>fini_pending\<close>: \<open>None\<close> while it blocks, then whether it
  reports the end, and the flag it leaves.
\<close>

definition wait_event :: "bool \<Rightarrow> bool \<Rightarrow> (bool \<times> bool) option" where
  "wait_event flag fini =
     (if \<not> flag \<and> \<not> fini then None
      else let is_fini = (fini \<and> \<not> flag) in Some (is_fini, if is_fini then flag else False))"

lemma wait_event_simps [simp]:
  "wait_event flag fini = None \<longleftrightarrow> \<not> flag \<and> \<not> fini"
  "wait_event flag fini = Some (b, f) \<longleftrightarrow> (if flag then \<not> b else b \<and> fini) \<and> \<not> f"
  by (auto simp: wait_event_def Let_def)

section \<open>State\<close>

datatype child_state = Child_Stopped | Child_Running | Child_Zombie | Child_Reaped

datatype msg = Msg_Stopped | Msg_Exited

text \<open>Where the proxy is: between executions, in \<open>start_trace\<close>, resuming, waiting, stopping.\<close>

datatype proxy_pc =
    P_Idle | P_Armed | P_Resume | P_Wait | P_Exited | P_Wait_Ready | P_Join | P_Joined

text \<open>Where the decoder thread is: \<open>decoder_worker\<close>, then the points of \<open>trace_sink_polling\<close>.\<close>

datatype decoder_pc =
    D_Wait_Start | D_Enter | D_Poll | D_Stop | D_Wait_Suspend | D_Drain | D_Wait_Stop | D_Final
  | D_Exit | D_Finished

record sync =
  start_pending :: bool
  suspend_pending :: bool
  stop_pending :: bool
  fini_pending :: bool
  decoder_ready :: bool
  ppc :: proxy_pc
  dpc :: decoder_pc
  child :: child_state
  stop_sent :: bool
  unreported :: bool
  pipe :: "msg list"
  attempt :: nat
  handled :: nat

text \<open>
  What can happen in a run: draining while the child runs, and the failures, of
  \<open>set_cpu_affinity\<close>, of the rest of \<open>start_trace\<close>, of \<open>disable_cs_trace\<close>, of \<open>kill\<close> for another
  reason than a missing process, and of a decode pass made while the child runs.
\<close>

record sync_cfg =
  can_drain :: bool
  affinity_can_fail :: bool
  start_can_fail :: bool
  disable_can_fail :: bool
  kill_can_fail :: bool
  decode_can_fail :: bool

text \<open>After \<open>init_trace\<close>, which arms \<open>decoder_ready\<close> to false before it spawns the thread.\<close>

definition sync_init :: sync where
  "sync_init =
     \<lparr>start_pending = False, suspend_pending = False, stop_pending = False, fini_pending = False,
      decoder_ready = False, ppc = P_Idle, dpc = D_Wait_Start, child = Child_Reaped,
      stop_sent = False, unreported = False, pipe = [], attempt = 0, handled = 0\<rparr>"

section \<open>Steps\<close>

text \<open>
  The proxy. \<open>start_trace\<close>, with a fresh child stopped in the fork server, sets the affinity,
  publishes not-ready, resets the decoder and enables the trace, and signals the start. When the
  affinity cannot be set it returns before it touches \<open>decoder_ready\<close>; a failure of the reset or
  of the enabling leaves the start unsignalled. \<open>start_and_resume\<close> goes on in either case.
  \<open>stop_trace\<close> returns at once when \<open>disable_cs_trace\<close> fails, without a stop and without a wait;
  a calibration run then goes on to the next execution, and elsewhere the proxy ends.
\<close>

inductive proxy_step :: "sync_cfg \<Rightarrow> sync \<Rightarrow> sync \<Rightarrow> bool" for c :: sync_cfg where
  start_arm: "ppc s = P_Idle \<Longrightarrow>
    proxy_step c s (s\<lparr>ppc := P_Armed, decoder_ready := False, child := Child_Stopped,
      stop_sent := False, unreported := False, attempt := attempt s + 1\<rparr>)"
| start_refused: "ppc s = P_Idle \<Longrightarrow> affinity_can_fail c \<Longrightarrow>
    proxy_step c s (s\<lparr>ppc := P_Resume, child := Child_Stopped,
      stop_sent := False, unreported := False, attempt := attempt s + 1\<rparr>)"
| start_signal: "ppc s = P_Armed \<Longrightarrow>
    proxy_step c s (s\<lparr>ppc := P_Resume, start_pending := signal_event (start_pending s)\<rparr>)"
| start_fails: "ppc s = P_Armed \<Longrightarrow> start_can_fail c \<Longrightarrow> proxy_step c s (s\<lparr>ppc := P_Resume\<rparr>)"
| resume: "ppc s = P_Resume \<Longrightarrow> proxy_step c s (s\<lparr>ppc := P_Wait, child := Child_Running\<rparr>)"
| suspend_callback: "ppc s = P_Wait \<Longrightarrow> pipe s = Msg_Stopped # q \<Longrightarrow>
    proxy_step c s (s\<lparr>pipe := q, suspend_pending := signal_event (suspend_pending s)\<rparr>)"
| exited_callback: "ppc s = P_Wait \<Longrightarrow> pipe s = Msg_Exited # q \<Longrightarrow>
    proxy_step c s (s\<lparr>pipe := q, ppc := P_Exited, suspend_pending := signal_event (suspend_pending s)\<rparr>)"
| stop_signal: "ppc s = P_Exited \<Longrightarrow>
    proxy_step c s (s\<lparr>ppc := P_Wait_Ready, stop_pending := signal_event (stop_pending s)\<rparr>)"
| stop_refused: "ppc s = P_Exited \<Longrightarrow> disable_can_fail c \<Longrightarrow> proxy_step c s (s\<lparr>ppc := P_Idle\<rparr>)"
| stop_return: "ppc s = P_Wait_Ready \<Longrightarrow> decoder_ready s \<Longrightarrow> proxy_step c s (s\<lparr>ppc := P_Idle\<rparr>)"
| fini_signal: "ppc s = P_Idle \<Longrightarrow>
    proxy_step c s (s\<lparr>ppc := P_Join, fini_pending := signal_event (fini_pending s)\<rparr>)"
| fini_join: "ppc s = P_Join \<Longrightarrow> dpc s = D_Finished \<Longrightarrow> proxy_step c s (s\<lparr>ppc := P_Joined\<rparr>)"

text \<open>
  The decoder thread. \<open>kill(child_pid, 0)\<close> fails once the child has been reaped; a zombie still
  takes \<open>SIGSTOP\<close> without effect. \<open>SIGCONT\<close> also cancels a \<open>SIGSTOP\<close> not yet delivered.
  The result of \<open>wait_event\<close> is ignored inside \<open>trace_sink_polling\<close>. The ETR fills, and the
  threshold is passed, only once the child has been resumed. A drain that cannot switch the trace
  off, or whose \<open>SIGCONT\<close> fails, goes to the exit with the child as it is; any failure of
  \<open>kill(child_pid, 0)\<close> ends the polling. \<open>handled\<close> is set by the decode pass after the last fetch.
\<close>

inductive decoder_step :: "sync_cfg \<Rightarrow> sync \<Rightarrow> sync \<Rightarrow> bool" for c :: sync_cfg where
  take_start: "dpc s = D_Wait_Start \<Longrightarrow> wait_event (start_pending s) (fini_pending s) = Some (False, f) \<Longrightarrow>
    decoder_step c s (s\<lparr>dpc := D_Enter, start_pending := f\<rparr>)"
| take_fini: "dpc s = D_Wait_Start \<Longrightarrow> wait_event (start_pending s) (fini_pending s) = Some (True, f) \<Longrightarrow>
    decoder_step c s (s\<lparr>dpc := D_Finished, start_pending := f\<rparr>)"
| enter: "dpc s = D_Enter \<Longrightarrow> decoder_step c s (s\<lparr>dpc := D_Poll, decoder_ready := False\<rparr>)"
| poll_over: "dpc s = D_Poll \<Longrightarrow> child s \<in> {Child_Running, Child_Zombie} \<Longrightarrow> can_drain c \<Longrightarrow>
    decoder_step c s (s\<lparr>dpc := D_Stop\<rparr>)"
| poll_gone: "dpc s = D_Poll \<Longrightarrow> child s = Child_Reaped \<Longrightarrow> decoder_step c s (s\<lparr>dpc := D_Wait_Stop\<rparr>)"
| poll_error: "dpc s = D_Poll \<Longrightarrow> kill_can_fail c \<Longrightarrow> decoder_step c s (s\<lparr>dpc := D_Wait_Stop\<rparr>)"
| stop_child: "dpc s = D_Stop \<Longrightarrow> child s \<noteq> Child_Reaped \<Longrightarrow>
    decoder_step c s (s\<lparr>dpc := D_Wait_Suspend, stop_sent := (child s = Child_Running)\<rparr>)"
| stop_gone: "dpc s = D_Stop \<Longrightarrow> child s = Child_Reaped \<Longrightarrow> decoder_step c s (s\<lparr>dpc := D_Wait_Stop\<rparr>)"
| stop_error: "dpc s = D_Stop \<Longrightarrow> kill_can_fail c \<Longrightarrow> decoder_step c s (s\<lparr>dpc := D_Exit\<rparr>)"
| take_suspend: "dpc s = D_Wait_Suspend \<Longrightarrow>
    wait_event (suspend_pending s) (fini_pending s) = Some (b, f) \<Longrightarrow>
    decoder_step c s (s\<lparr>dpc := D_Drain, suspend_pending := f\<rparr>)"
| drain_resume: "dpc s = D_Drain \<Longrightarrow> child s \<noteq> Child_Reaped \<Longrightarrow>
    decoder_step c s (s\<lparr>dpc := D_Poll, stop_sent := False,
      child := (if child s = Child_Stopped then Child_Running else child s)\<rparr>)"
| drain_fails: "dpc s = D_Drain \<Longrightarrow> child s \<noteq> Child_Reaped \<Longrightarrow> decode_can_fail c \<Longrightarrow>
    decoder_step c s (s\<lparr>dpc := D_Exit, stop_sent := False,
      child := (if child s = Child_Stopped then Child_Running else child s)\<rparr>)"
| drain_disable_error: "dpc s = D_Drain \<Longrightarrow> disable_can_fail c \<Longrightarrow> decoder_step c s (s\<lparr>dpc := D_Exit\<rparr>)"
| drain_cont_error: "dpc s = D_Drain \<Longrightarrow> kill_can_fail c \<Longrightarrow> decoder_step c s (s\<lparr>dpc := D_Exit\<rparr>)"
| drain_gone: "dpc s = D_Drain \<Longrightarrow> child s = Child_Reaped \<Longrightarrow> decoder_step c s (s\<lparr>dpc := D_Wait_Stop\<rparr>)"
| take_stop: "dpc s = D_Wait_Stop \<Longrightarrow> wait_event (stop_pending s) (fini_pending s) = Some (b, f) \<Longrightarrow>
    decoder_step c s (s\<lparr>dpc := D_Final, stop_pending := f\<rparr>)"
| final_decode: "dpc s = D_Final \<Longrightarrow> decoder_step c s (s\<lparr>dpc := D_Exit, handled := attempt s\<rparr>)"
| publish: "dpc s = D_Exit \<Longrightarrow> decoder_step c s (s\<lparr>dpc := D_Wait_Start, decoder_ready := True\<rparr>)"

text \<open>
  The child and the fork server, which relays every change of state it waits for: a stop while
  the child is stopped, and the exit last.
\<close>

inductive child_step :: "sync \<Rightarrow> sync \<Rightarrow> bool" where
  child_stops: "child s = Child_Running \<Longrightarrow> stop_sent s \<Longrightarrow>
    child_step s (s\<lparr>child := Child_Stopped, stop_sent := False, unreported := True\<rparr>)"
| report_stop: "unreported s \<Longrightarrow> child s \<noteq> Child_Reaped \<Longrightarrow>
    child_step s (s\<lparr>unreported := False, pipe := pipe s @ [Msg_Stopped]\<rparr>)"
| child_exits: "child s = Child_Running \<Longrightarrow> child_step s (s\<lparr>child := Child_Zombie\<rparr>)"
| child_killed: "child s = Child_Stopped \<Longrightarrow> ppc s = P_Wait \<Longrightarrow> child_step s (s\<lparr>child := Child_Zombie\<rparr>)"
| reap: "child s = Child_Zombie \<Longrightarrow>
    child_step s (s\<lparr>child := Child_Reaped, unreported := False, stop_sent := False,
      pipe := pipe s @ [Msg_Exited]\<rparr>)"

definition sync_step :: "sync_cfg \<Rightarrow> sync \<Rightarrow> sync \<Rightarrow> bool" where
  "sync_step c s t \<longleftrightarrow> proxy_step c s t \<or> decoder_step c s t \<or> child_step s t"

inductive sync_reach :: "sync_cfg \<Rightarrow> sync \<Rightarrow> bool" for c :: sync_cfg where
  reach_init: "sync_reach c sync_init"
| reach_step: "sync_reach c s \<Longrightarrow> sync_step c s t \<Longrightarrow> sync_reach c t"

inductive_cases proxy_stepE: "proxy_step c s t"
inductive_cases decoder_stepE: "decoder_step c s t"
inductive_cases child_stepE: "child_step s t"

section \<open>Invariant of runs without failures\<close>

text \<open>The decoder has the start of this execution ahead of it, or is at work on it.\<close>

definition at_work :: "sync \<Rightarrow> bool" where
  "at_work s \<longleftrightarrow>
     \<not> decoder_ready s \<and>
     (start_pending s \<and> dpc s = D_Wait_Start \<or>
      \<not> start_pending s \<and>
        dpc s \<in> {D_Enter, D_Poll, D_Stop, D_Wait_Suspend, D_Drain, D_Wait_Stop})"

definition finished :: "sync \<Rightarrow> bool" where
  "finished s \<longleftrightarrow>
     \<not> start_pending s \<and> \<not> stop_pending s \<and> dpc s = D_Wait_Start \<and> decoder_ready s \<and>
     handled s = attempt s"

definition sync_inv :: "sync \<Rightarrow> bool" where
  "sync_inv s \<longleftrightarrow>
     (case ppc s of
        P_Idle \<Rightarrow> \<not> start_pending s \<and> \<not> stop_pending s \<and> dpc s = D_Wait_Start \<and>
                  handled s = attempt s
      | P_Armed \<Rightarrow> \<not> start_pending s \<and> \<not> stop_pending s \<and> dpc s = D_Wait_Start \<and> \<not> decoder_ready s
      | P_Resume \<Rightarrow> at_work s \<and> \<not> stop_pending s
      | P_Wait \<Rightarrow> at_work s \<and> \<not> stop_pending s
      | P_Exited \<Rightarrow> at_work s \<and> \<not> stop_pending s
      | P_Wait_Ready \<Rightarrow>
          at_work s \<and> stop_pending s \<or>
          \<not> start_pending s \<and> \<not> stop_pending s \<and> \<not> decoder_ready s \<and>
            (dpc s = D_Final \<or> dpc s = D_Exit \<and> handled s = attempt s) \<or>
          finished s
      | _ \<Rightarrow> \<not> start_pending s \<and> \<not> stop_pending s \<and> handled s = attempt s \<and>
             dpc s \<in> {D_Wait_Start, D_Finished}) \<and>
     (fini_pending s \<longrightarrow> ppc s \<in> {P_Join, P_Joined})"

text \<open>The messages in the pipe: any number of stops, then the exit once the child is reaped.\<close>

fun pipe_ok :: "bool \<Rightarrow> msg list \<Rightarrow> bool" where
  "pipe_ok reaped [] = (\<not> reaped)"
| "pipe_ok reaped (Msg_Stopped # q) = pipe_ok reaped q"
| "pipe_ok reaped (Msg_Exited # q) = (reaped \<and> q = [])"

lemma pipe_ok_snoc:
  "pipe_ok False q \<Longrightarrow> pipe_ok False (q @ [Msg_Stopped])"
  "pipe_ok False q \<Longrightarrow> pipe_ok True (q @ [Msg_Exited])"
  by (induction "False" q rule: pipe_ok.induct) simp_all

definition child_inv :: "sync \<Rightarrow> bool" where
  "child_inv s \<longleftrightarrow>
     (case ppc s of
        P_Armed \<Rightarrow> child s = Child_Stopped \<and> \<not> unreported s \<and> pipe s = []
      | P_Resume \<Rightarrow> child s = Child_Stopped \<and> \<not> unreported s \<and> pipe s = []
      | P_Wait \<Rightarrow> pipe_ok (child s = Child_Reaped) (pipe s)
      | _ \<Rightarrow> child s = Child_Reaped \<and> pipe s = []) \<and>
     (child s = Child_Reaped \<longrightarrow> \<not> unreported s) \<and>
     (ppc s = P_Resume \<longrightarrow> dpc s \<in> {D_Wait_Start, D_Enter, D_Poll}) \<and>
     (ppc s \<in> {P_Exited, P_Wait_Ready} \<and> dpc s = D_Wait_Suspend \<longrightarrow> suspend_pending s)"

lemmas sync_inv_defs = sync_inv_def child_inv_def at_work_def finished_def

definition fault_free :: "sync_cfg \<Rightarrow> bool" where
  "fault_free c \<longleftrightarrow>
     \<not> affinity_can_fail c \<and> \<not> start_can_fail c \<and> \<not> disable_can_fail c \<and> \<not> kill_can_fail c \<and>
     \<not> decode_can_fail c"

lemma sync_inv_proxy:
  assumes "proxy_step c s t" and "fault_free c" and "sync_inv s" and "child_inv s"
  shows "sync_inv t \<and> child_inv t"
  using assms
  by (cases rule: proxy_step.cases)
    (auto simp: sync_inv_defs fault_free_def sync_init_def)

lemma sync_inv_decoder:
  assumes "decoder_step c s t" and "fault_free c" and "sync_inv s" and "child_inv s"
  shows "sync_inv t \<and> child_inv t"
  using assms
  by (cases rule: decoder_step.cases)
    (auto simp: sync_inv_defs fault_free_def sync_init_def split: proxy_pc.splits)

lemma sync_inv_child:
  assumes "child_step s t" and "sync_inv s" and "child_inv s"
  shows "sync_inv t \<and> child_inv t"
  using assms
  by (cases rule: child_step.cases)
    (auto simp: sync_inv_defs sync_init_def pipe_ok_snoc split: proxy_pc.splits)

lemma sync_reach_inv:
  assumes "sync_reach c s" and "fault_free c"
  shows "sync_inv s \<and> child_inv s"
  using assms(1)
proof induction
  case reach_init
  then show ?case by (simp add: sync_inv_defs sync_init_def)
next
  case (reach_step s t)
  then show ?case
    unfolding sync_step_def using assms(2) sync_inv_proxy sync_inv_decoder sync_inv_child by blast
qed

section \<open>The hand-over is safe\<close>

text \<open>
  C7: Without failures, \<open>stop_trace\<close> returns only when this very execution is decoded. Let no call
  of \<open>set_cpu_affinity\<close>, \<open>start_trace\<close>, \<open>disable_cs_trace\<close> and \<open>kill\<close> and no decode pass made while
  the child runs fail. Then, in every interleaving of the proxy, the decoder thread and the child,
  with drains and for any number of earlier executions, at the moment the proxy leaves
  \<open>stop_trace\<close> the decoder has decoded the execution that was started last and is back waiting for
  the next start, and neither a start nor a stop is left pending that a later execution could
  mistake for its own. After a failure this need not hold, as the
  states of the last section show.
\<close>

theorem stop_trace_waits_for_decoder:
  assumes "sync_reach c s" and "fault_free c" and "ppc s = P_Wait_Ready"
    and "sync_step c s t" and "ppc t = P_Idle"
  shows "handled t = attempt t \<and> attempt t = attempt s \<and> dpc t = D_Wait_Start \<and>
    \<not> start_pending t \<and> \<not> stop_pending t"
proof -
  have t: "sync_inv t" using sync_reach_inv [OF sync_reach.reach_step [OF assms(1,4)] assms(2)] by simp
  have "attempt t = attempt s"
    using assms(3-5)
    by (auto simp: sync_step_def elim!: proxy_stepE decoder_stepE child_stepE)
  with t assms(5) show ?thesis by (simp add: sync_inv_def)
qed

text \<open>
  C16: Without failures, the last fetch of an execution happens after its trace was stopped: in every
  interleaving in which no affinity call, no start, no \<open>disable_cs_trace\<close>, no \<open>kill\<close> and no decode
  pass made while the child runs fails, when the decoder thread passes \<open>wait_event(&stop_pending)\<close> to make the
  final \<open>fetch_trace\<close>, the child has been reaped and the proxy is inside \<open>stop_trace\<close>, past
  \<open>disable_cs_trace\<close>, so the sinks are flushed and no byte arrives afterwards.
\<close>

theorem final_fetch_after_stop:
  assumes "sync_reach c s" and "fault_free c" and "dpc s = D_Final"
  shows "ppc s = P_Wait_Ready \<and> child s = Child_Reaped \<and> \<not> decoder_ready s"
  using sync_reach_inv [OF assms(1,2)] assms(3)
  by (auto simp: sync_inv_defs split: proxy_pc.splits)

section \<open>The hand-over ends\<close>

definition decoder_rank :: "sync \<Rightarrow> nat" where
  "decoder_rank s =
     (case dpc s of
        D_Wait_Start \<Rightarrow> if start_pending s then 9 else 0
      | D_Enter \<Rightarrow> 8 | D_Poll \<Rightarrow> 7 | D_Stop \<Rightarrow> 6 | D_Wait_Suspend \<Rightarrow> 5 | D_Drain \<Rightarrow> 4
      | D_Wait_Stop \<Rightarrow> 3 | D_Final \<Rightarrow> 2 | D_Exit \<Rightarrow> 1 | D_Finished \<Rightarrow> 0)"

lemma wait_ready_enabled:
  assumes "sync_inv s" and "child_inv s" and "ppc s = P_Wait_Ready"
  shows "\<exists>t. sync_step c s t"
proof -
  have "\<exists>t. decoder_step c s t \<or> proxy_step c s t"
  proof (cases "dpc s")
    case D_Wait_Start
    with assms have "start_pending s \<or> decoder_ready s" by (auto simp: sync_inv_defs)
    then show ?thesis
    proof
      assume "start_pending s"
      with D_Wait_Start have "decoder_step c s (s\<lparr>dpc := D_Enter, start_pending := False\<rparr>)"
        by (intro take_start) simp_all
      then show ?thesis by blast
    qed (use assms(3) stop_return in blast)
  next
    case D_Wait_Suspend
    then have "decoder_step c s (s\<lparr>dpc := D_Drain, suspend_pending := False\<rparr>)"
      using assms by (intro take_suspend [where b = False]) (simp_all add: child_inv_def)
    then show ?thesis by blast
  next
    case D_Wait_Stop
    then have "decoder_step c s (s\<lparr>dpc := D_Final, stop_pending := False\<rparr>)"
      using assms by (intro take_stop [where b = False]) (auto simp: sync_inv_defs)
    then show ?thesis by blast
  next
    case D_Finished
    with assms show ?thesis by (auto simp: sync_inv_defs)
  next
    case D_Drain
    then have "decoder_step c s (s\<lparr>dpc := D_Wait_Stop\<rparr>)"
      using assms by (intro drain_gone) (simp_all add: child_inv_def)
    then show ?thesis by blast
  next
    case D_Poll
    then have "decoder_step c s (s\<lparr>dpc := D_Wait_Stop\<rparr>)"
      using assms by (intro poll_gone) (simp_all add: child_inv_def)
    then show ?thesis by blast
  next
    case D_Stop
    then have "decoder_step c s (s\<lparr>dpc := D_Wait_Stop\<rparr>)"
      using assms by (intro stop_gone) (simp_all add: child_inv_def)
    then show ?thesis by blast
  qed (blast intro: enter final_decode publish)+
  then show ?thesis by (auto simp: sync_step_def)
qed

lemma wait_ready_progress:
  assumes "sync_inv s" and "child_inv s" and "fault_free c" and "ppc s = P_Wait_Ready" and "sync_step c s t"
  shows "ppc t = P_Idle \<or> ppc t = P_Wait_Ready \<and> decoder_rank t < decoder_rank s"
proof -
  have "child s = Child_Reaped" "\<not> unreported s" "\<not> fini_pending s"
    "dpc s = D_Exit \<longrightarrow> \<not> start_pending s"
    using assms(1,2,4) by (auto simp: sync_inv_defs)
  with assms(3,4,5) show ?thesis
    by (auto simp: sync_step_def decoder_rank_def fault_free_def
        elim!: proxy_stepE decoder_stepE child_stepE)
qed

text \<open>
  C17: \<open>stop_trace\<close> does not hang. Whenever the proxy waits there for the decoder, in any
  interleaving without failures, some step is possible, and every possible step either returns
  from \<open>stop_trace\<close> or brings the decoder thread strictly closer to publishing its result (by
  the measure \<open>decoder_rank\<close>, at most nine); so the wait ends whatever the scheduler does.
\<close>

theorem stop_trace_returns:
  assumes "sync_reach c s" and "fault_free c" and "ppc s = P_Wait_Ready"
  shows "(\<exists>t. sync_step c s t) \<and>
    (\<forall>t. sync_step c s t \<longrightarrow>
       ppc t = P_Idle \<or> ppc t = P_Wait_Ready \<and> decoder_rank t < decoder_rank s)"
  using wait_ready_enabled wait_ready_progress sync_reach_inv [OF assms(1,2)] assms(2,3) by blast

section \<open>Runs\<close>

lemma reach_proxy: "sync_reach c s \<Longrightarrow> proxy_step c s t \<Longrightarrow> sync_reach c t"
  and reach_decoder: "sync_reach c s \<Longrightarrow> decoder_step c s t \<Longrightarrow> sync_reach c t"
  and reach_child: "sync_reach c s \<Longrightarrow> child_step s t \<Longrightarrow> sync_reach c t"
  by (auto intro: reach_step simp: sync_step_def)

definition quiet_cfg :: sync_cfg where
  "quiet_cfg =
     \<lparr>can_drain = False, affinity_can_fail = False, start_can_fail = False, disable_can_fail = False,
      kill_can_fail = False, decode_can_fail = False\<rparr>"

text \<open>One execution up to the decoder's last fetch, and to the point where it has published.\<close>

definition final_state :: "bool \<Rightarrow> sync" where
  "final_state published =
     \<lparr>start_pending = False, suspend_pending = True, stop_pending = False, fini_pending = False,
      decoder_ready = published, ppc = P_Wait_Ready, dpc = (if published then D_Wait_Start else D_Final),
      child = Child_Reaped, stop_sent = False, unreported = False, pipe = [], attempt = 1,
      handled = (if published then 1 else 0)\<rparr>"

lemma plain_run: "sync_reach quiet_cfg (final_state published)"
proof -
  note r = reach_init [of quiet_cfg, unfolded sync_init_def]
  note r = reach_proxy [OF r start_arm, simplified]
  note r = reach_proxy [OF r start_signal, simplified]
  note r = reach_decoder [OF r take_start [where f = False], simplified]
  note r = reach_decoder [OF r enter, simplified]
  note r = reach_proxy [OF r resume, simplified]
  note r = reach_child [OF r child_exits, simplified]
  note r = reach_child [OF r reap, simplified]
  note r = reach_proxy [OF r exited_callback [where q = "[]"], simplified]
  note r = reach_proxy [OF r stop_signal, simplified]
  note r = reach_decoder [OF r poll_gone, simplified]
  note r = reach_decoder [OF r take_stop [where b = False and f = False], simplified]
  note r2 = reach_decoder [OF r final_decode, simplified]
  note r2 = reach_decoder [OF r2 publish, simplified]
  show ?thesis using r r2 by (simp add: final_state_def)
qed

lemma fault_free_quiet: "fault_free quiet_cfg"
  by (simp add: fault_free_def quiet_cfg_def)

theorem stop_trace_waits_for_decoder_witness:
  "handled ((final_state True)\<lparr>ppc := P_Idle\<rparr>) = attempt ((final_state True)\<lparr>ppc := P_Idle\<rparr>)"
proof -
  have st: "sync_step quiet_cfg (final_state True) ((final_state True)\<lparr>ppc := P_Idle\<rparr>)"
    unfolding sync_step_def by (intro disjI1 stop_return) (simp_all add: final_state_def)
  have "ppc (final_state True) = P_Wait_Ready" by (simp add: final_state_def)
  from stop_trace_waits_for_decoder [OF plain_run fault_free_quiet this st] show ?thesis by simp
qed

theorem final_fetch_after_stop_witness:
  "ppc (final_state False) = P_Wait_Ready \<and> child (final_state False) = Child_Reaped"
  using final_fetch_after_stop [OF plain_run fault_free_quiet, of False] by (simp add: final_state_def)

theorem stop_trace_returns_witness: "\<exists>t. sync_step quiet_cfg (final_state False) t"
  using stop_trace_returns [OF plain_run fault_free_quiet, of False] by (simp add: final_state_def)

section \<open>What the failures can do\<close>

definition start_fail_cfg :: sync_cfg where
  "start_fail_cfg = quiet_cfg\<lparr>start_can_fail := True\<rparr>"

definition affinity_fail_cfg :: sync_cfg where
  "affinity_fail_cfg = quiet_cfg\<lparr>affinity_can_fail := True\<rparr>"

definition drain_cfg :: "bool \<Rightarrow> sync_cfg" where
  "drain_cfg fails = quiet_cfg\<lparr>can_drain := True, decode_can_fail := fails\<rparr>"

definition disable_fail_cfg :: sync_cfg where
  "disable_fail_cfg = quiet_cfg\<lparr>can_drain := True, disable_can_fail := True\<rparr>"

lemma fail_cfgs:
  "start_fail_cfg = \<lparr>can_drain = False, affinity_can_fail = False, start_can_fail = True,
     disable_can_fail = False, kill_can_fail = False, decode_can_fail = False\<rparr>"
  "affinity_fail_cfg = \<lparr>can_drain = False, affinity_can_fail = True, start_can_fail = False,
     disable_can_fail = False, kill_can_fail = False, decode_can_fail = False\<rparr>"
  "drain_cfg fails = \<lparr>can_drain = True, affinity_can_fail = False, start_can_fail = False,
     disable_can_fail = False, kill_can_fail = False, decode_can_fail = fails\<rparr>"
  "disable_fail_cfg = \<lparr>can_drain = True, affinity_can_fail = False, start_can_fail = False,
     disable_can_fail = True, kill_can_fail = False, decode_can_fail = False\<rparr>"
  by (simp_all add: start_fail_cfg_def affinity_fail_cfg_def drain_cfg_def disable_fail_cfg_def quiet_cfg_def)

definition stuck_state :: sync where
  "stuck_state =
     \<lparr>start_pending = False, suspend_pending = True, stop_pending = True, fini_pending = False,
      decoder_ready = False, ppc = P_Wait_Ready, dpc = D_Wait_Start, child = Child_Reaped,
      stop_sent = False, unreported = False, pipe = [], attempt = 1, handled = 0\<rparr>"

lemma stuck_reachable: "sync_reach start_fail_cfg stuck_state"
proof -
  note r = reach_init [of start_fail_cfg, unfolded sync_init_def fail_cfgs]
  note r = reach_proxy [OF r start_arm, simplified]
  note r = reach_proxy [OF r start_fails, simplified]
  note r = reach_proxy [OF r resume, simplified]
  note r = reach_child [OF r child_exits, simplified]
  note r = reach_child [OF r reap, simplified]
  note r = reach_proxy [OF r exited_callback [where q = "[]"], simplified]
  note r = reach_proxy [OF r stop_signal, simplified]
  show ?thesis using r by (simp add: stuck_state_def fail_cfgs)
qed

text \<open>
  \<open>start_and_resume\<close> ignores what \<open>start_trace\<close> returns. When \<open>start_trace\<close> fails after it
  has published not-ready (the decoder's reset or the trace hardware's set-up failed), the start
  is never signalled, and \<open>stop_trace\<close> then blocks for good: a state with the proxy waiting for
  the decoder is reachable in which no thread can take any step.
\<close>

theorem failed_start_blocks_stop_trace:
  "\<exists>s. sync_reach start_fail_cfg s \<and> ppc s = P_Wait_Ready \<and> (\<forall>t. \<not> sync_step start_fail_cfg s t)"
proof (intro exI conjI allI notI)
  show "sync_reach start_fail_cfg stuck_state" by (rule stuck_reachable)
  show "ppc stuck_state = P_Wait_Ready" by (simp add: stuck_state_def)
  fix t assume "sync_step start_fail_cfg stuck_state t"
  then show False
    by (auto simp: sync_step_def stuck_state_def fail_cfgs elim!: proxy_stepE decoder_stepE child_stepE)
qed

text \<open>
  C20: A start whose affinity call fails goes undecoded and unnoticed. \<open>start_trace\<close> then returns
  before it resets \<open>decoder_ready\<close>, so \<open>stop_trace\<close> finds the previous execution's value and
  returns at once: a state is reachable in which the proxy has left \<open>stop_trace\<close> for the second
  execution, the decoder has decoded only the first and waits for a start, and the stop just
  signalled is left pending for the next execution.
\<close>

theorem refused_start_undecoded:
  "\<exists>s t. sync_reach affinity_fail_cfg s \<and> ppc s = P_Wait_Ready \<and> sync_step affinity_fail_cfg s t \<and>
     ppc t = P_Idle \<and> attempt t = 2 \<and> handled t = 1 \<and> dpc t = D_Wait_Start \<and> stop_pending t"
proof -
  note r = reach_init [of affinity_fail_cfg, unfolded sync_init_def fail_cfgs]
  note r = reach_proxy [OF r start_arm, simplified]
  note r = reach_proxy [OF r start_signal, simplified]
  note r = reach_decoder [OF r take_start [where f = False], simplified]
  note r = reach_decoder [OF r enter, simplified]
  note r = reach_proxy [OF r resume, simplified]
  note r = reach_child [OF r child_exits, simplified]
  note r = reach_child [OF r reap, simplified]
  note r = reach_proxy [OF r exited_callback [where q = "[]"], simplified]
  note r = reach_proxy [OF r stop_signal, simplified]
  note r = reach_decoder [OF r poll_gone, simplified]
  note r = reach_decoder [OF r take_stop [where b = False and f = False], simplified]
  note r = reach_decoder [OF r final_decode, simplified]
  note r = reach_decoder [OF r publish, simplified]
  note r = reach_proxy [OF r stop_return, simplified]
  note r = reach_proxy [OF r start_refused, simplified]
  note r = reach_proxy [OF r resume, simplified]
  note r = reach_child [OF r child_exits, simplified]
  note r = reach_child [OF r reap, simplified]
  note r = reach_proxy [OF r exited_callback [where q = "[]"], simplified]
  note r = reach_proxy [OF r stop_signal, simplified]
  show ?thesis
    unfolding sync_step_def fail_cfgs
    by (rule exI, rule exI, rule conjI, rule r, intro conjI, simp, rule disjI1, rule stop_return) simp_all
qed

text \<open>
  A drain that cannot switch the trace off leaves the child stopped. The decoder thread publishes
  and waits for the next start, the proxy waits for a status of a child nobody resumes, and only a
  kill from outside, which ends the child, lets anything happen.
\<close>

lemma failed_drain_leaves_child_stopped:
  "\<exists>s. sync_reach disable_fail_cfg s \<and> child s = Child_Stopped \<and> ppc s = P_Wait \<and>
     (\<forall>t. sync_step disable_fail_cfg s t \<longrightarrow> child t = Child_Zombie)"
proof -
  note r = reach_init [of disable_fail_cfg, unfolded sync_init_def fail_cfgs]
  note r = reach_proxy [OF r start_arm, simplified]
  note r = reach_proxy [OF r start_signal, simplified]
  note r = reach_decoder [OF r take_start [where f = False], simplified]
  note r = reach_decoder [OF r enter, simplified]
  note r = reach_proxy [OF r resume, simplified]
  note r = reach_decoder [OF r poll_over, simplified]
  note r = reach_decoder [OF r stop_child, simplified]
  note r = reach_child [OF r child_stops, simplified]
  note r = reach_child [OF r report_stop, simplified]
  note r = reach_proxy [OF r suspend_callback [where q = "[]"], simplified]
  note r = reach_decoder [OF r take_suspend [where b = False and f = False], simplified]
  note r = reach_decoder [OF r drain_disable_error, simplified]
  note r = reach_decoder [OF r publish, simplified]
  show ?thesis
    unfolding fail_cfgs
    by (rule exI, rule conjI, rule r)
      (auto simp: sync_step_def elim!: proxy_stepE decoder_stepE child_stepE)
qed

text \<open>
  The first execution with a drain whose decode pass fails while the child runs: the decoder
  thread leaves early, and nobody consumes the stop signalled afterwards.
\<close>

definition stale_stop_state :: sync where
  "stale_stop_state =
     \<lparr>start_pending = False, suspend_pending = True, stop_pending = True, fini_pending = False,
      decoder_ready = True, ppc = P_Idle, dpc = D_Wait_Start, child = Child_Reaped,
      stop_sent = False, unreported = False, pipe = [], attempt = 1, handled = 0\<rparr>"

lemma stale_stop_reachable: "sync_reach (drain_cfg True) stale_stop_state"
proof -
  note r = reach_init [of "drain_cfg True", unfolded sync_init_def fail_cfgs]
  note r = reach_proxy [OF r start_arm, simplified]
  note r = reach_proxy [OF r start_signal, simplified]
  note r = reach_decoder [OF r take_start [where f = False], simplified]
  note r = reach_decoder [OF r enter, simplified]
  note r = reach_proxy [OF r resume, simplified]
  note r = reach_decoder [OF r poll_over, simplified]
  note r = reach_decoder [OF r stop_child, simplified]
  note r = reach_child [OF r child_stops, simplified]
  note r = reach_child [OF r report_stop, simplified]
  note r = reach_proxy [OF r suspend_callback [where q = "[]"], simplified]
  note r = reach_decoder [OF r take_suspend [where b = False and f = False], simplified]
  note r = reach_decoder [OF r drain_fails, simplified]
  note r = reach_decoder [OF r publish, simplified]
  note r = reach_child [OF r child_exits, simplified]
  note r = reach_child [OF r reap, simplified]
  note r = reach_proxy [OF r exited_callback [where q = "[]"], simplified]
  note r = reach_proxy [OF r stop_signal, simplified]
  note r = reach_proxy [OF r stop_return, simplified]
  show ?thesis using r by (simp add: stale_stop_state_def fail_cfgs)
qed

text \<open>
  C38: After one decode failure in a drain, later executions are fetched too early. Because the
  stop of the failed execution stays pending, the next execution's final fetch can run before the
  proxy has read the child's exit, hence before \<open>stop_trace\<close> disabled and flushed the sinks,
  which runs without failures never do.
\<close>

theorem stale_stop_fetches_early:
  "\<exists>s. sync_reach (drain_cfg True) s \<and> attempt s = 2 \<and> dpc s = D_Final \<and> ppc s = P_Wait"
proof -
  note r = stale_stop_reachable [unfolded stale_stop_state_def fail_cfgs]
  note r = reach_proxy [OF r start_arm, simplified]
  note r = reach_proxy [OF r start_signal, simplified]
  note r = reach_decoder [OF r take_start [where f = False], simplified]
  note r = reach_decoder [OF r enter, simplified]
  note r = reach_proxy [OF r resume, simplified]
  note r = reach_child [OF r child_exits, simplified]
  note r = reach_child [OF r reap, simplified]
  note r = reach_decoder [OF r poll_gone, simplified]
  note r = reach_decoder [OF r take_stop [where b = False and f = False], simplified]
  show ?thesis unfolding fail_cfgs by (rule exI, rule conjI, rule r) simp
qed

text \<open>
  The exit of one execution can release the drain of the next. The callback for an exited
  child raises \<open>suspend_pending\<close> even when no drain is waiting, and nothing clears it; in a run
  without any failure the next execution's first drain can then proceed while the child is still
  running, before the stop it asked for took effect.
\<close>

theorem stale_suspend_drains_running_child:
  "\<exists>s. sync_reach (drain_cfg False) s \<and> dpc s = D_Drain \<and> child s = Child_Running"
proof -
  note r = reach_init [of "drain_cfg False", unfolded sync_init_def fail_cfgs]
  note r = reach_proxy [OF r start_arm, simplified]
  note r = reach_proxy [OF r start_signal, simplified]
  note r = reach_decoder [OF r take_start [where f = False], simplified]
  note r = reach_decoder [OF r enter, simplified]
  note r = reach_proxy [OF r resume, simplified]
  note r = reach_child [OF r child_exits, simplified]
  note r = reach_child [OF r reap, simplified]
  note r = reach_proxy [OF r exited_callback [where q = "[]"], simplified]
  note r = reach_proxy [OF r stop_signal, simplified]
  note r = reach_decoder [OF r poll_gone, simplified]
  note r = reach_decoder [OF r take_stop [where b = False and f = False], simplified]
  note r = reach_decoder [OF r final_decode, simplified]
  note r = reach_decoder [OF r publish, simplified]
  note r = reach_proxy [OF r stop_return, simplified]
  note r = reach_proxy [OF r start_arm, simplified]
  note r = reach_proxy [OF r start_signal, simplified]
  note r = reach_decoder [OF r take_start [where f = False], simplified]
  note r = reach_decoder [OF r enter, simplified]
  note r = reach_proxy [OF r resume, simplified]
  note r = reach_decoder [OF r poll_over, simplified]
  note r = reach_decoder [OF r stop_child, simplified]
  note r = reach_decoder [OF r take_suspend [where b = False and f = False], simplified]
  show ?thesis unfolding fail_cfgs by (rule exI, rule conjI, rule r) simp
qed

end
