(* ===== verification/Boards.thy ===== *)
theory Boards
  imports CS_Prelude "HOL-Library.Signed_Division"
begin

text \<open>
  The boards of \<open>src/include/known-boards.h\<close>: each registration routine as the sequence of CSAL
  calls it makes, the device table it fills, the board table and \<open>get_trace_id\<close>. A device is
  named by the physical base address it is registered or looked up with, a trace source by its
  CPU, and a replicator by its width; what CSAL does with the calls is not part of the sources,
  so a call is recorded, not executed. \<open>etr_mode\<close> is the constant \<open>true\<close> of the file.
\<close>

section \<open>Registration calls\<close>

datatype cs_dev = Dev u64 | Cpu_Source nat | Replicator nat

datatype trig =
    ETB_FULL | ETB_ACQCOMP | ETB_TRIGIN | ETB_FLUSHIN | STM_ASYNCOUT | STM_TRIGOUTSPTE
  | STM_TRIGOUTSW | STM_TRIGOUTHETE

datatype cs_call =
    Register_Romtable u64
  | Exclude_Range u64 u64
  | Device_Register u64
  | Set_Affinity u64 nat
  | Atb_Register cs_dev nat cs_dev nat
  | Stm_Config_Master cs_dev nat u64
  | Stm_Select_Master cs_dev nat
  | Cti_Connect_Trigsrc cs_dev trig u64 nat
  | Cti_Connect_Trigdst u64 nat cs_dev trig
  | Trace_Enable cs_dev

text \<open>\<open>num_trace_sinks\<close> and the unset pointers are zero in the static \<open>struct cs_devices_t\<close>.\<close>

record board_devices =
  bd_etb :: "cs_dev option"
  bd_tpiu :: "cs_dev option"
  bd_itm :: "cs_dev option"
  bd_tsgen :: "cs_dev option"
  bd_trace_sinks :: "cs_dev list"
  bd_num_trace_sinks :: nat

definition board_devices0 :: board_devices where
  "board_devices0 =
     \<lparr>bd_etb = None, bd_tpiu = None, bd_itm = None, bd_tsgen = None, bd_trace_sinks = [],
      bd_num_trace_sinks = 0\<rparr>"

type_synonym registration = "cs_call list \<times> board_devices"

text \<open>The trigger connections of one ETB-like device to a CTI, in the two orders the code uses.\<close>

definition etb_trigs :: "cs_dev \<Rightarrow> u64 \<Rightarrow> nat \<Rightarrow> cs_call list" where
  "etb_trigs d cti p =
     [Cti_Connect_Trigsrc d ETB_FULL cti p, Cti_Connect_Trigsrc d ETB_ACQCOMP cti (p + 1),
      Cti_Connect_Trigdst cti p d ETB_TRIGIN, Cti_Connect_Trigdst cti (p + 1) d ETB_FLUSHIN]"

definition affinities :: "u64 list \<Rightarrow> cs_call list" where
  "affinities bases = map (\<lambda>(i, b). Set_Affinity b i) (enumerate 0 bases)"

section \<open>The boards\<close>

definition do_registration_thunderx2 :: "board_devices \<Rightarrow> registration" where
  "do_registration_thunderx2 d =
     (let funnel = Dev 0x410001000; etf = Dev 0x410002000; rep = Replicator 2;
          etr = Dev 0x410004000; tpiu = Dev 0x410005000
      in ([Register_Romtable 0x410000000] @
          concat (map (\<lambda>i. [Set_Affinity (0x410420000 + 0x100000 * of_nat i) i,
                            Set_Affinity (0x410440000 + 0x100000 * of_nat i) i]) [0..<112]) @
          [Atb_Register (Cpu_Source 0) 0 funnel 0, Atb_Register (Cpu_Source 1) 0 funnel 1,
           Atb_Register (Cpu_Source 2) 0 funnel 2, Atb_Register funnel 0 etf 0,
           Atb_Register etf 0 rep 0, Atb_Register rep 0 etr 0, Atb_Register rep 1 tpiu 0],
          d\<lparr>bd_etb := Some etr, bd_trace_sinks := [etf]\<rparr>))"

definition do_registration_jetson_nano :: "board_devices \<Rightarrow> registration" where
  "do_registration_jetson_nano d =
     (let funnel_a57 = Dev 0x73010000; funnel_major = Dev 0x72010000; etf = Dev 0x72030000;
          rep = Dev 0x72040000; etr = Dev 0x72050000; tpiu = Dev 0x72060000; stm = Dev 0x72070000;
          sys_cti = 0x72020000
      in ([Register_Romtable 0x72000000] @
          affinities [0x73420000, 0x73520000, 0x73620000, 0x73720000] @
          affinities [0x73430000, 0x73530000, 0x73630000, 0x73730000] @
          affinities [0x73440000, 0x73540000, 0x73640000, 0x73740000] @
          [Atb_Register (Cpu_Source 0) 0 funnel_a57 0, Atb_Register (Cpu_Source 1) 0 funnel_a57 1,
           Atb_Register (Cpu_Source 2) 0 funnel_a57 2, Atb_Register (Cpu_Source 3) 0 funnel_a57 3,
           Atb_Register funnel_a57 0 funnel_major 0, Atb_Register stm 0 funnel_major 3,
           Atb_Register funnel_major 0 etf 0, Atb_Register etf 0 rep 0, Atb_Register rep 0 etr 0,
           Atb_Register rep 1 tpiu 0, Stm_Config_Master stm 0 0x71000000, Stm_Select_Master stm 0,
           Device_Register sys_cti] @
          etb_trigs etf sys_cti 0 @ etb_trigs etr sys_cti 2 @
          [Cti_Connect_Trigsrc stm STM_ASYNCOUT sys_cti 4,
           Cti_Connect_Trigsrc stm STM_TRIGOUTSPTE sys_cti 5,
           Cti_Connect_Trigsrc stm STM_TRIGOUTSW sys_cti 6],
          d\<lparr>bd_itm := Some stm, bd_etb := Some etr, bd_trace_sinks := [etf]\<rparr>))"

definition do_registration_jetsontx2 :: "board_devices \<Rightarrow> registration" where
  "do_registration_jetsontx2 d =
     (let funnel_a57 = Dev 0x9010000; funnel_major = Dev 0x8010000; stm = Dev 0x8070000;
          etf = Dev 0x8030000; rep = Dev 0x8040000; etr = Dev 0x8050000; tpiu = Dev 0x8060000;
          sys_cti = 0x8020000
      in ([Register_Romtable 0x8000000] @
          affinities [0x9820000, 0x9920000, 0x9A20000, 0x9B20000] @
          affinities [0x9830000, 0x9930000, 0x9A30000, 0x9B30000] @
          affinities [0x9840000, 0x9940000, 0x9A40000, 0x9B40000] @
          [Atb_Register (Cpu_Source 0) 0 funnel_a57 0, Atb_Register (Cpu_Source 1) 0 funnel_a57 1,
           Atb_Register (Cpu_Source 2) 0 funnel_a57 2, Atb_Register (Cpu_Source 3) 0 funnel_a57 3,
           Atb_Register funnel_a57 0 funnel_major 0, Atb_Register stm 0 funnel_major 3,
           Atb_Register funnel_major 0 etf 0, Atb_Register etf 0 rep 0, Atb_Register rep 1 etr 0,
           Atb_Register rep 0 tpiu 0, Stm_Config_Master stm 0 0x0a000000, Stm_Select_Master stm 0,
           Device_Register sys_cti] @
          etb_trigs etf sys_cti 0 @ etb_trigs etr sys_cti 2 @
          [Cti_Connect_Trigsrc stm STM_ASYNCOUT sys_cti 4,
           Cti_Connect_Trigsrc stm STM_TRIGOUTSPTE sys_cti 5,
           Cti_Connect_Trigsrc stm STM_TRIGOUTSW sys_cti 6],
          d\<lparr>bd_itm := Some stm, bd_etb := Some etr, bd_trace_sinks := [etf]\<rparr>))"

definition do_registration_hi1616 :: "board_devices \<Rightarrow> registration" where
  "do_registration_hi1616 d =
     (let cluster_funnel = [0x44802000, 0x45002000, 0x45802000, 0x46002000];
          etm_bases = [0x44c40000, 0x45440000, 0x45c40000, 0x46440000 :: u64];
          etf = [0x44803000, 0x45003000, 0x45803000, 0x46003000];
          main_funnel = 0x44005000; etr = 0x44001000; tpiu = 0x44004000
      in ([Register_Romtable 0x44000000] @ map Device_Register cluster_funnel @
          concat (map (\<lambda>i. concat (map (\<lambda>j.
              let etm = etm_bases ! i + of_nat j * 0x100000; cpu_id = 4 * i + j
              in [Device_Register etm, Set_Affinity etm cpu_id,
                  Atb_Register (Cpu_Source cpu_id) 0 (Dev (cluster_funnel ! i)) j]) [0..<4])) [0..<4]) @
          map Device_Register etf @ [Device_Register main_funnel] @
          concat (map (\<lambda>i. [Atb_Register (Dev (cluster_funnel ! i)) 0 (Dev (etf ! i)) 0,
                            Atb_Register (Dev (etf ! i)) 0 (Dev main_funnel) i]) [0..<4]) @
          [Device_Register etr, Device_Register tpiu, Atb_Register (Dev main_funnel) 0 (Dev etr) 0,
           Trace_Enable (Dev (etf ! 0))],
          d\<lparr>bd_etb := Some (Dev etr), bd_trace_sinks := map Dev etf\<rparr>))"

definition do_registration_zcu104 :: "board_devices \<Rightarrow> registration" where
  "do_registration_zcu104 d =
     (let stm = Dev 0xFE9C0000; tsgen = Dev 0xFE900000; funnel1 = Dev 0xFE920000;
          etf1 = Dev 0xFE940000; funnel2 = Dev 0xFE930000; etf2 = Dev 0xFE950000;
          rep = Replicator 2; etr = Dev 0xFE970000; tpiu = Dev 0xFE980000;
          cti0 = 0xFE990000; cti1 = 0xFE9A0000
      in ([Exclude_Range 0xFE9E0000 0xFEC00000, Register_Romtable 0xFE800000] @
          affinities [0xFEC20000, 0xFED20000, 0xFEE20000, 0xFEF20000] @
          affinities [0xFEC30000, 0xFED30000, 0xFEE30000, 0xFEF30000] @
          affinities [0xFEC40000, 0xFED40000, 0xFEE40000, 0xFEF40000] @
          [Stm_Config_Master stm 0 0xF8000000, Stm_Select_Master stm 0,
           Atb_Register (Cpu_Source 0) 0 funnel1 0, Atb_Register (Cpu_Source 1) 0 funnel1 1,
           Atb_Register (Cpu_Source 2) 0 funnel1 2, Atb_Register (Cpu_Source 3) 0 funnel1 3,
           Atb_Register funnel1 0 etf1 0, Atb_Register stm 0 funnel2 0,
           Atb_Register etf1 0 funnel2 2, Atb_Register funnel2 0 etf2 0,
           Atb_Register etf2 0 rep 0, Atb_Register rep 0 etr 0, Atb_Register rep 1 tpiu 0,
           Device_Register cti0, Device_Register cti1,
           Cti_Connect_Trigsrc etf1 ETB_FULL cti0 0, Cti_Connect_Trigsrc etf1 ETB_ACQCOMP cti0 1,
           Cti_Connect_Trigsrc etf2 ETB_FULL cti0 2, Cti_Connect_Trigsrc etf2 ETB_ACQCOMP cti0 3,
           Cti_Connect_Trigdst cti0 0 etf1 ETB_FLUSHIN, Cti_Connect_Trigdst cti0 1 etf1 ETB_TRIGIN,
           Cti_Connect_Trigdst cti0 2 etf2 ETB_FLUSHIN, Cti_Connect_Trigdst cti0 3 etf2 ETB_TRIGIN,
           Cti_Connect_Trigsrc etr ETB_FULL cti0 4, Cti_Connect_Trigsrc etr ETB_ACQCOMP cti0 5,
           Cti_Connect_Trigdst cti0 4 etr ETB_FLUSHIN, Cti_Connect_Trigdst cti0 5 etr ETB_TRIGIN,
           Cti_Connect_Trigdst cti0 6 tpiu ETB_FLUSHIN, Cti_Connect_Trigdst cti0 7 tpiu ETB_TRIGIN,
           Cti_Connect_Trigsrc stm STM_TRIGOUTSPTE cti1 4,
           Cti_Connect_Trigsrc stm STM_TRIGOUTSW cti1 5,
           Cti_Connect_Trigsrc stm STM_TRIGOUTHETE cti1 6,
           Cti_Connect_Trigsrc stm STM_ASYNCOUT cti1 7],
          d\<lparr>bd_itm := Some stm, bd_etb := Some etr, bd_tpiu := Some tpiu,
            bd_trace_sinks := [etf1, etf2], bd_num_trace_sinks := 2, bd_tsgen := Some tsgen\<rparr>))"

datatype wr_burst = WR_BURST_16 | WR_BURST_4

text \<open>\<open>axictl\<close> is the write-burst bit next to \<open>AXICTL_COMMON\<close>, \<open>None\<close> where the field is left 0.\<close>

record board =
  do_registration :: "board_devices \<Rightarrow> registration"
  n_cpu :: nat
  hardware :: string
  axictl :: "wr_burst option"

definition known_boards :: "board list" where
  "known_boards =
     [\<lparr>do_registration = do_registration_thunderx2, n_cpu = 32, hardware = ''Marvell ThunderX2'',
       axictl = Some WR_BURST_16\<rparr>,
      \<lparr>do_registration = do_registration_jetson_nano, n_cpu = 4, hardware = ''Jetson Nano'',
       axictl = Some WR_BURST_4\<rparr>,
      \<lparr>do_registration = do_registration_jetsontx2, n_cpu = 4, hardware = ''Jetson TX2'',
       axictl = Some WR_BURST_4\<rparr>,
      \<lparr>do_registration = do_registration_hi1616, n_cpu = 16, hardware = ''Hi1616'', axictl = None\<rparr>,
      \<lparr>do_registration = do_registration_zcu104, n_cpu = 4, hardware = ''ZCU 104'',
       axictl = Some WR_BURST_16\<rparr>]"

definition get_trace_id :: "string \<Rightarrow> int \<Rightarrow> int" where
  "get_trace_id hw cpu =
     (if hw = ''Marvell ThunderX2'' then 0x10 + (cpu smod 28) * 4 + cpu sdiv 28
      else if hw = ''Jetson TX2''
        then (if cpu = 0 then 0x10 + cpu else if 3 \<le> cpu \<and> cpu \<le> 5 then 0x10 + cpu - 2 else - 1)
      else if hw = ''Jetson Nano'' then 0x10 + cpu
      else if hw = ''Hi1616'' then 0x10 + cpu
      else if hw = ''ZCU 104'' then 0x10 + cpu
      else - 1)"

section \<open>Every traced core reaches the sink\<close>

definition atb_edges :: "cs_call list \<Rightarrow> (cs_dev \<times> cs_dev) list" where
  "atb_edges cs =
     concat (map (\<lambda>c. case c of Atb_Register a _ b _ \<Rightarrow> [(a, b)] | _ \<Rightarrow> []) cs)"

text \<open>The devices at the end of paths of at most \<open>n\<close> connections.\<close>

fun atb_within :: "(cs_dev \<times> cs_dev) list \<Rightarrow> nat \<Rightarrow> cs_dev \<Rightarrow> cs_dev \<Rightarrow> bool" where
  "atb_within es 0 a b = (a = b)"
| "atb_within es (Suc n) a b = (a = b \<or> list_ex (\<lambda>(x, y). x = a \<and> atb_within es n y b) es)"

lemma atb_within_path: "atb_within es n a b \<Longrightarrow> (a, b) \<in> (set es)\<^sup>*"
  by (induction n arbitrary: a)
    (auto simp: list_ex_iff split: if_splits intro: converse_rtrancl_into_rtrancl)

definition sources_connected :: "board \<Rightarrow> bool" where
  "sources_connected b =
     (let (cs, d) = do_registration b board_devices0
      in (case bd_etb d of
            None \<Rightarrow> False
          | Some sink \<Rightarrow>
              list_all (\<lambda>cpu. atb_within (atb_edges cs) 6 (Cpu_Source cpu) sink) [0..<n_cpu b]))"

lemma sources_connected_known:
  "list_all (\<lambda>b. hardware b \<noteq> ''Marvell ThunderX2'' \<longrightarrow> sources_connected b) known_boards"
  by code_simp

text \<open>
  C32: On every known board but the ThunderX2 (whose funnel the code itself wires for three cores
  only) the ATB connections registered with CSAL lead from the trace source of each of the
  board's \<open>n_cpu\<close> cores to the device used as the trace sink. A missing or misdirected
  \<open>cs_atb_register\<close> would leave a core whose trace never arrives.
\<close>

theorem every_source_reaches_sink:
  assumes "b \<in> set known_boards" and "hardware b \<noteq> ''Marvell ThunderX2''" and "cpu < n_cpu b"
    and "do_registration b board_devices0 = (calls, devs)"
  shows "\<exists>sink. bd_etb devs = Some sink \<and> (Cpu_Source cpu, sink) \<in> (set (atb_edges calls))\<^sup>*"
proof -
  have "sources_connected b" using sources_connected_known assms(1,2) by (auto simp: list_all_iff)
  with assms(3,4) show ?thesis
    by (auto simp: sources_connected_def list_all_iff split: option.splits intro: atb_within_path)
qed

theorem every_source_reaches_sink_witness:
  "\<exists>sink. bd_etb (snd (do_registration_zcu104 board_devices0)) = Some sink \<and>
     (Cpu_Source 3, sink) \<in> (set (atb_edges (fst (do_registration_zcu104 board_devices0))))\<^sup>*"
  using every_source_reaches_sink [of "\<lparr>do_registration = do_registration_zcu104, n_cpu = 4,
      hardware = ''ZCU 104'', axictl = Some WR_BURST_16\<rparr>" 3]
  by (simp add: known_boards_def)

section \<open>Trace source identifiers\<close>

text \<open>The CPU numbers of the operating system a board's cores are known by, in device order.\<close>

definition os_cpus :: "board \<Rightarrow> int list" where
  "os_cpus b =
     (if hardware b = ''Jetson TX2'' then [0, 3, 4, 5]
      else if hardware b = ''Marvell ThunderX2'' then map (\<lambda>i. int (i mod 4 * 28 + i div 4)) [0..<n_cpu b]
      else map int [0..<n_cpu b])"

lemma trace_ids_known:
  "list_all (\<lambda>b. list_all (\<lambda>i. i < n_cpu b \<and> get_trace_id (hardware b) (os_cpus b ! i) = 0x10 + int i)
     [0..<length (os_cpus b)]) known_boards"
  by code_simp

text \<open>
  The decoder is told the identifier the hardware stamps. \<open>configure_trace\<close> gives the
  trace source of device number \<open>i\<close> the identifier \<open>0x10 + i\<close>; \<open>get_trace_id\<close>, which computes
  from the board's name and the operating system's CPU number what the decoder will filter on,
  yields the same value for every core in its numbering.
\<close>

theorem trace_id_matches_source:
  assumes "b \<in> set known_boards" and "i < length (os_cpus b)"
  shows "get_trace_id (hardware b) (os_cpus b ! i) = 0x10 + int i \<and> i < n_cpu b"
  using trace_ids_known assms by (auto simp: list_all_iff)

theorem trace_id_matches_source_witness: "get_trace_id ''Jetson TX2'' 4 = 0x12"
  using trace_id_matches_source [of "\<lparr>do_registration = do_registration_jetsontx2, n_cpu = 4,
      hardware = ''Jetson TX2'', axictl = Some WR_BURST_4\<rparr>" 2]
  by (simp add: known_boards_def os_cpus_def)

text \<open>
  Only the ZCU 104 registration sets \<open>num_trace_sinks\<close>. On every other board the
  registration stores its ETFs in \<open>trace_sinks\<close> but leaves the count at zero, so the loops of
  \<open>enable_trace\<close> and \<open>enable_trace_sinks_only\<close> over the count set up none of them.
\<close>

theorem sinks_not_counted:
  "map (\<lambda>b. let d = snd (do_registration b board_devices0)
            in (hardware b, length (bd_trace_sinks d), bd_num_trace_sinks d)) known_boards =
   [(''Marvell ThunderX2'', 1, 0), (''Jetson Nano'', 1, 0), (''Jetson TX2'', 1, 0), (''Hi1616'', 4, 0),
    (''ZCU 104'', 2, 2)]"
  by code_simp

end
