(* ===== verification/Etm_Config.thy ===== *)
theory Etm_Config
  imports Boards Decoder
begin

text \<open>
  \<open>src/src/config.c\<close>, with \<open>stalker_configure_addr_range\<close> of \<open>src/src/stalker.c\<close>: programming
  the trace sources and sinks. The hardware is reached through CSAL only, which is not part of
  the sources: its functions and the register constants of its headers are the fields of
  \<open>csal\<close>, over a hardware state the model does not look into. A configuration is the part of
  \<open>cs_etmv4_config_t\<close> the code touches. A failed assertion or an \<open>exit\<close> ends the process and
  is \<open>None\<close>. The functions that only print (\<open>show_etm_config\<close>, \<open>cs_cti_diag\<close>) are left out.
\<close>

unbundle bit_operations_syntax

section \<open>CSAL\<close>

record adrcmp =
  acvr_l :: u32
  acvr_h :: u32
  acatr_l :: u32

record etm_config =
  flags :: u32
  vmidsize :: nat
  cidsize :: nat
  configr_vmid :: bool
  configr_cid :: bool
  configr_rs :: bool
  configr_bb :: bool
  cidcvr_l :: u32
  cidcvr_h :: u32
  cidcctlr0 :: u32
  cxid_comps_acc_mask :: u32
  addr_comps :: "adrcmp list"
  addr_comps_acc_mask :: u32
  victlr :: u32
  viiectlr :: u32
  vissctlr :: u32
  eventctlr0r :: u32
  eventctlr1r :: u32
  stallcrlr :: u32
  syncpr :: u32
  bbctlr :: u32

datatype cs_reg = ETB_FLFMT_CTRL | ETMV4_CIDCVR0 | ETMV4_CIDCVR0_HI

record csal_consts =
  CS_ETMC_TRACE_ENABLE :: u32
  CS_ETMC_CONFIG :: u32
  CS_ETMC_EVENTSELECT :: u32
  CS_ETMC_CXID_COMP :: u32
  CS_ETMC_ADDR_COMP :: u32
  CS_ETMV4_ACATR_ExEL0_S :: u32
  CS_ETMV4_ACATR_ExEL1_S :: u32
  CS_ETMV4_ACATR_ExEL2_S :: u32
  CS_ETMV4_ACATR_ExEL1_NS :: u32
  CS_ETMV4_ACATR_ExEL2_NS :: u32
  CS_ETMV4_ACATR_CTXT :: u32
  CS_ETMV4_ACATR_CTXTID0 :: u32
  CS_ETMV4_VICTLR_ExEL0_S :: u32
  CS_ETMV4_VICTLR_ExEL1_S :: u32
  CS_ETMV4_VICTLR_ExEL2_S :: u32
  CS_ETMV4_VICTLR_ExEL3_S :: u32
  CS_ETMV4_VICTLR_ExEL1_NS :: u32
  CS_ETMV4_VICTLR_ExEL2_NS :: u32
  CS_ETMV4_VICTLR_SSSTATUS :: u32
  CS_ETMV4_VICTLR_ALWAYS :: u32
  CS_ETB_FLFMT_CTRL_FOnMan :: u32
  CS_ETB_FLFMT_CTRL_StopFl :: u32
  CS_ETB_FLFMT_CTRL_EnFTC :: u32
  CS_ETB_FLFMT_CTRL_EnFCont :: u32

record 'h csal = csal_consts +
  cs_device_set_wait_repeats :: "int \<Rightarrow> 'h \<Rightarrow> 'h"
  cs_disable_tpiu :: "'h \<Rightarrow> 'h"
  cs_sink_disable :: "cs_dev \<Rightarrow> 'h \<Rightarrow> 'h"
  cs_sink_enable :: "cs_dev \<Rightarrow> 'h \<Rightarrow> int \<times> 'h"
  cs_sink_is_enabled :: "cs_dev \<Rightarrow> 'h \<Rightarrow> bool"
  cs_sink_etr_setup :: "cs_dev \<Rightarrow> u64 \<Rightarrow> u64 \<Rightarrow> wr_burst option \<Rightarrow> 'h \<Rightarrow> int \<times> 'h"
  cs_sink_etf_setup :: "cs_dev \<Rightarrow> 'h \<Rightarrow> int \<times> 'h"
  cs_tmc_hw_fifo_enable :: "cs_dev \<Rightarrow> 'h \<Rightarrow> int \<times> 'h"
  cs_tmc_hw_fifo_disable :: "cs_dev \<Rightarrow> 'h \<Rightarrow> 'h"
  cs_cpu_get_device :: "nat \<Rightarrow> 'h \<Rightarrow> cs_dev option"
  cs_set_trace_source_id :: "cs_dev \<Rightarrow> nat \<Rightarrow> 'h \<Rightarrow> int \<times> 'h"
  cs_device_is_source :: "cs_dev \<Rightarrow> 'h \<Rightarrow> bool"
  cs_etm_version_major :: "cs_dev \<Rightarrow> 'h \<Rightarrow> nat"
  cs_etm_clean :: "cs_dev \<Rightarrow> 'h \<Rightarrow> int \<times> 'h"
  cs_etm_config_init_ex :: "cs_dev \<Rightarrow> 'h \<Rightarrow> etm_config"
  cs_etm_config_get_ex :: "cs_dev \<Rightarrow> etm_config \<Rightarrow> 'h \<Rightarrow> etm_config"
  cs_etm_config_put_ex :: "cs_dev \<Rightarrow> etm_config \<Rightarrow> 'h \<Rightarrow> 'h"
  cs_trace_enable :: "cs_dev \<Rightarrow> 'h \<Rightarrow> int \<times> 'h"
  cs_trace_disable :: "cs_dev \<Rightarrow> 'h \<Rightarrow> 'h"
  cs_device_read :: "cs_dev \<Rightarrow> cs_reg \<Rightarrow> 'h \<Rightarrow> u32"
  cs_device_write :: "cs_dev \<Rightarrow> cs_reg \<Rightarrow> u32 \<Rightarrow> 'h \<Rightarrow> int \<times> 'h"
  cs_device_clear :: "cs_dev \<Rightarrow> cs_reg \<Rightarrow> u32 \<Rightarrow> 'h \<Rightarrow> int \<times> 'h"
  cs_device_wait_empty :: "cs_dev \<Rightarrow> 'h \<Rightarrow> 'h"
  cs_checkpoint :: "'h \<Rightarrow> 'h"
  cs_error_count :: "'h \<Rightarrow> int"
  cs_reset_error_count :: "'h \<Rightarrow> 'h"
  cs_shutdown :: "'h \<Rightarrow> 'h"
  cs_get_buffer_size_bytes :: "cs_dev \<Rightarrow> 'h \<Rightarrow> u64"

text \<open>
  What does not change while the program runs: the backend, the environment, the sinks
  (\<open>trace_sinks\<close> up to \<open>num_trace_sinks\<close>), the first entry of \<open>trace_sinks\<close> whatever that number
  is, the board's numbers and the ETR's memory.
\<close>

record cs_cfg =
  cfg_backend :: backend
  cfg_env :: environ
  cfg_etb :: cs_dev
  cfg_sinks :: "cs_dev list"
  cfg_sink0 :: "cs_dev option"
  cfg_n_cpu :: nat
  cfg_axictl :: "wr_burst option"
  cfg_etr_addr :: u64
  cfg_etr_size :: u64

record 'h cs_state =
  hw :: 'h
  ptm :: "nat \<Rightarrow> cs_dev"
  traced_pid :: int

section \<open>Loops\<close>

text \<open>A loop over a list that leaves at the first non-zero result.\<close>

fun each :: "('x \<Rightarrow> 's \<Rightarrow> int \<times> 's) \<Rightarrow> 'x list \<Rightarrow> 's \<Rightarrow> int \<times> 's" where
  "each f [] s = (0, s)"
| "each f (x # xs) s = (let (r, s) = f x s in if r \<noteq> 0 then (r, s) else each f xs s)"

fun each_opt :: "('x \<Rightarrow> 's \<Rightarrow> (int \<times> 's) option) \<Rightarrow> 'x list \<Rightarrow> 's \<Rightarrow> (int \<times> 's) option" where
  "each_opt f [] s = Some (0, s)"
| "each_opt f (x # xs) s =
     (case f x s of
        None \<Rightarrow> None
      | Some (r, s) \<Rightarrow> if r \<noteq> 0 then Some (r, s) else each_opt f xs s)"

text \<open>The closing check most routines make.\<close>

definition error_result :: "'h csal \<Rightarrow> 'h cs_state \<Rightarrow> int \<times> 'h cs_state" where
  "error_result H s = (if cs_error_count H (hw s) > 0 then - 1 else 0, s)"

section \<open>PID filter\<close>

definition pid_filter_enabled :: "backend \<Rightarrow> environ \<Rightarrow> bool" where
  "pid_filter_enabled B env =
     (case B of
        Stalker \<Rightarrow> env ''AFLCS_PID_FILTER'' \<noteq> Some ''0''
      | Armored \<Rightarrow> env ''AFLCS_PID_FILTER'' = Some ''1'')"

definition set_etm_trace_pid :: "int \<Rightarrow> 'h cs_state \<Rightarrow> 'h cs_state" where
  "set_etm_trace_pid pid s = s\<lparr>traced_pid := pid\<rparr>"

definition etm_cycled_per_window :: "backend \<Rightarrow> environ \<Rightarrow> bool" where
  "etm_cycled_per_window B env = (case B of Stalker \<Rightarrow> True | Armored \<Rightarrow> pid_filter_enabled B env)"

definition cs_etb_flush_and_wait_stop :: "'h csal \<Rightarrow> cs_cfg \<Rightarrow> 'h cs_state \<Rightarrow> 'h cs_state" where
  "cs_etb_flush_and_wait_stop H c s =
     (if cs_sink_is_enabled H (cfg_etb c) (hw s)
      then
        let ffcr_val = cs_device_read H (cfg_etb c) ETB_FLFMT_CTRL (hw s) OR CS_ETB_FLFMT_CTRL_FOnMan H;
            h = snd (cs_device_write H (cfg_etb c) ETB_FLFMT_CTRL ffcr_val (hw s))
        in s\<lparr>hw := cs_device_wait_empty H (cfg_etb c) h\<rparr>
      else s)"

section \<open>Address ranges\<close>

definition set_etmv4_addr_range ::
  "'h csal \<Rightarrow> map_info \<Rightarrow> nat \<Rightarrow> u32 \<Rightarrow> adrcmp list \<Rightarrow> adrcmp list" where
  "set_etmv4_addr_range H rng idx acc_type_ex comps =
     (let acc_type = CS_ETMV4_ACATR_ExEL0_S H OR CS_ETMV4_ACATR_ExEL1_S H OR
            CS_ETMV4_ACATR_ExEL2_S H OR CS_ETMV4_ACATR_ExEL1_NS H OR CS_ETMV4_ACATR_ExEL2_NS H OR
            acc_type_ex
      in comps[idx := \<lparr>acvr_l = ucast (mi_start rng AND 0xFFFFFFFF),
                       acvr_h = ucast (drop_bit 32 (mi_start rng) AND 0xFFFFFFFF),
                       acatr_l = acc_type\<rparr>,
               Suc idx := \<lparr>acvr_l = ucast (mi_end rng AND 0xFFFFFFFF),
                           acvr_h = ucast (drop_bit 32 (mi_end rng) AND 0xFFFFFFFF),
                           acatr_l = acc_type\<rparr>])"

text \<open>The first element of the static array, all zero when no range was found.\<close>

definition first_range :: "map_info list \<Rightarrow> map_info" where
  "first_range rs =
     (case rs of
        [] \<Rightarrow> \<lparr>mi_start = 0, mi_end = 0, mi_offset = 0, mi_buf = 0, mi_path = []\<rparr>
      | r # _ \<Rightarrow> r)"

definition stalker_configure_addr_range ::
  "'h csal \<Rightarrow> environ \<Rightarrow> map_info list \<Rightarrow> u32 \<Rightarrow> etm_config \<Rightarrow> etm_config option" where
  "stalker_configure_addr_range H env rng acc_type_ex t =
     (if env ''AFLCS_STALKER_EL0_VIEW'' = Some ''1''
      then
        if acc_type_ex = 0 then None
        else
          let el0 = \<lparr>mi_start = 0, mi_end = 0x0000FFFFFFFFFFFF, mi_offset = 0, mi_buf = 0, mi_path = []\<rparr>;
              t = t\<lparr>addr_comps := set_etmv4_addr_range H el0 0 acc_type_ex (addr_comps t)\<rparr>;
              t = t\<lparr>addr_comps := set_etmv4_addr_range H (first_range rng) 2 0 (addr_comps t)\<rparr>;
              t = t\<lparr>addr_comps_acc_mask := addr_comps_acc_mask t OR 0xf\<rparr>;
              t = t\<lparr>viiectlr := viiectlr t OR 1\<rparr>
          in Some (t\<lparr>bbctlr := push_bit 1 1 OR push_bit 8 1\<rparr>)
      else
        let t = t\<lparr>addr_comps := set_etmv4_addr_range H (first_range rng) 0 acc_type_ex (addr_comps t)\<rparr>;
            t = t\<lparr>addr_comps_acc_mask := addr_comps_acc_mask t OR 0x3\<rparr>
        in Some (t\<lparr>viiectlr := viiectlr t OR 1\<rparr>))"

text \<open>The loop over the ranges of the default backend.\<close>

definition add_range :: "'h csal \<Rightarrow> u32 \<Rightarrow> nat \<times> map_info \<Rightarrow> etm_config \<Rightarrow> etm_config" where
  "add_range H acc_type_ex p t =
     (let (i, rng) = p;
          t = t\<lparr>addr_comps := set_etmv4_addr_range H rng (i * 2) acc_type_ex (addr_comps t)\<rparr>;
          t = t\<lparr>addr_comps_acc_mask := addr_comps_acc_mask t OR push_bit (i * 2) 0x3\<rparr>
      in t\<lparr>viiectlr := viiectlr t OR push_bit i 1\<rparr>)"

text \<open>
  The context ID part of \<open>configure_etmv4_addr_range_cid\<close>, and the whole configuration it
  writes back. \<open>return_stack\<close> is the constant \<open>false\<close>.
\<close>

definition cid_config :: "'h csal \<Rightarrow> u64 \<Rightarrow> etm_config \<Rightarrow> etm_config" where
  "cid_config H cid t =
     (let t = (if vmidsize t > 0 then t\<lparr>configr_vmid := False\<rparr> else t);
          t = t\<lparr>configr_cid := (cidsize t > 0 \<and> cid > 0)\<rparr>
      in if cid > 0
         then
           t\<lparr>cidcvr_l := ucast (cid AND 0xFFFFFFFF),
             cidcvr_h := ucast (drop_bit 32 cid AND 0xFFFFFFFF),
             cidcctlr0 := cidcctlr0 t AND NOT 1,
             cxid_comps_acc_mask := cxid_comps_acc_mask t OR 1,
             flags := flags t OR CS_ETMC_CXID_COMP H\<rparr>
         else t)"

definition addr_range_cid_config ::
  "'h csal \<Rightarrow> cs_cfg \<Rightarrow> map_info list \<Rightarrow> u64 \<Rightarrow> etm_config \<Rightarrow> etm_config option" where
  "addr_range_cid_config H c ranges cid t =
     (let t = cid_config H cid t;
          acc_type_ex = (if cid > 0 \<and> pid_filter_enabled (cfg_backend c) (cfg_env c)
                         then CS_ETMV4_ACATR_CTXT H OR CS_ETMV4_ACATR_CTXTID0 H else 0);
          r = (case cfg_backend c of
                 Stalker \<Rightarrow> stalker_configure_addr_range H (cfg_env c) ranges acc_type_ex t
               | Armored \<Rightarrow> Some (fold (add_range H acc_type_ex) (enumerate 0 ranges) t))
      in map_option (\<lambda>t. t\<lparr>flags := flags t OR CS_ETMC_ADDR_COMP H\<rparr>) r)"

definition configure_etmv4_addr_range_cid ::
  "'h csal \<Rightarrow> cs_cfg \<Rightarrow> cs_dev \<Rightarrow> map_info list \<Rightarrow> u64 \<Rightarrow> 'h cs_state \<Rightarrow> (int \<times> 'h cs_state) option" where
  "configure_etmv4_addr_range_cid H c etm ranges cid s =
     (let t = cs_etm_config_init_ex H etm (hw s);
          t = t\<lparr>flags := CS_ETMC_TRACE_ENABLE H OR CS_ETMC_CONFIG H OR CS_ETMC_EVENTSELECT H\<rparr>;
          t = cs_etm_config_get_ex H etm t (hw s)
      in (case addr_range_cid_config H c ranges cid t of
            None \<Rightarrow> None
          | Some t \<Rightarrow> Some (error_result H (s\<lparr>hw := cs_etm_config_put_ex H etm t (hw s)\<rparr>))))"

section \<open>Programming the ETMs\<close>

definition strtoul_env :: "environ \<Rightarrow> string \<Rightarrow> u32 \<Rightarrow> u32" where
  "strtoul_env env name dflt = (case env name of None \<Rightarrow> dflt | Some v \<Rightarrow> ucast (strtoul0 v))"

definition init_etm_config :: "'h csal \<Rightarrow> cs_cfg \<Rightarrow> etm_config \<Rightarrow> etm_config" where
  "init_etm_config H c t =
     (let t = t\<lparr>flags := flags t OR CS_ETMC_TRACE_ENABLE H OR CS_ETMC_EVENTSELECT H\<rparr>;
          dflt = (case cfg_backend c of
                    Stalker \<Rightarrow> CS_ETMV4_VICTLR_ExEL0_S H OR CS_ETMV4_VICTLR_ExEL1_S H OR
                      CS_ETMV4_VICTLR_ExEL2_S H OR CS_ETMV4_VICTLR_ExEL3_S H OR
                      CS_ETMV4_VICTLR_ExEL1_NS H OR CS_ETMV4_VICTLR_ExEL2_NS H OR
                      CS_ETMV4_VICTLR_SSSTATUS H OR CS_ETMV4_VICTLR_ALWAYS H
                  | Armored \<Rightarrow> CS_ETMV4_VICTLR_SSSTATUS H OR CS_ETMV4_VICTLR_ALWAYS H)
      in t\<lparr>victlr := strtoul_env (cfg_env c) ''AFLCS_ETM_VICTLR'' dflt,
           viiectlr := 0, vissctlr := 0, eventctlr0r := 0, eventctlr1r := 0,
           stallcrlr := strtoul_env (cfg_env c) ''AFLCS_ETM_STALLCRLR''
             (case cfg_backend c of Stalker \<Rightarrow> 0 | Armored \<Rightarrow> 0x2100),
           syncpr := (case cfg_env c ''AFLCS_ETM_SYNCPR'' of
                        None \<Rightarrow> 0 | Some v \<Rightarrow> word_of_int (atoi v))\<rparr>)"

definition init_etm :: "'h csal \<Rightarrow> cs_cfg \<Rightarrow> cs_dev \<Rightarrow> 'h cs_state \<Rightarrow> (int \<times> 'h cs_state) option" where
  "init_etm H c dev s =
     (if \<not> cs_device_is_source H dev (hw s) then None
      else
        let (rc, h) = cs_etm_clean H dev (hw s); s' = s\<lparr>hw := h\<rparr>
        in if rc \<noteq> 0 then Some (rc, s')
           else if cs_etm_version_major H dev (hw s) < 4 then None
           else
             let t = cs_etm_config_init_ex H dev (hw s');
                 t = t\<lparr>flags := CS_ETMC_CONFIG H\<rparr>;
                 t = cs_etm_config_get_ex H dev t (hw s')
             in Some (0, s'\<lparr>hw := cs_etm_config_put_ex H dev (init_etm_config H c t) (hw s')\<rparr>))"

text \<open>The two loops of \<open>configure_trace\<close>: naming and cleaning the sources, then the ranges.\<close>

definition prepare_source ::
  "'h csal \<Rightarrow> cs_cfg \<Rightarrow> nat \<Rightarrow> 'h cs_state \<Rightarrow> (int \<times> 'h cs_state) option" where
  "prepare_source H c i s =
     (case cs_cpu_get_device H i (hw s) of
        None \<Rightarrow> Some (- 1, s)
      | Some d \<Rightarrow>
          let s = s\<lparr>ptm := (ptm s)(i := d)\<rparr>;
              (r, h) = cs_set_trace_source_id H d (0x10 + i) (hw s);
              s = s\<lparr>hw := h\<rparr>
          in if r < 0 then Some (- 1, s)
             else (case init_etm H c d s of
                     None \<Rightarrow> None
                   | Some (r, s) \<Rightarrow> Some (if r < 0 then - 1 else 0, s)))"

definition configure_source ::
  "'h csal \<Rightarrow> cs_cfg \<Rightarrow> map_info list \<Rightarrow> int \<Rightarrow> nat \<Rightarrow> 'h cs_state \<Rightarrow> (int \<times> 'h cs_state) option" where
  "configure_source H c ranges pid i s =
     (if cs_etm_version_major H (ptm s i) (hw s) \<ge> 4
      then configure_etmv4_addr_range_cid H c (ptm s i) ranges (word_of_int pid) s
      else Some (0, s))"

definition configure_trace ::
  "'h csal \<Rightarrow> cs_cfg \<Rightarrow> map_info list \<Rightarrow> int \<Rightarrow> 'h cs_state \<Rightarrow> (int \<times> 'h cs_state) option" where
  "configure_trace H c ranges pid s =
     (let s = s\<lparr>hw := cs_device_set_wait_repeats H 320000 (hw s)\<rparr>;
          s = s\<lparr>hw := cs_disable_tpiu H (hw s)\<rparr>;
          s = s\<lparr>hw := cs_sink_disable H (cfg_etb c) (hw s)\<rparr>
      in (case each_opt (prepare_source H c) [0..<cfg_n_cpu c] s of
            None \<Rightarrow> None
          | Some (r, s) \<Rightarrow>
              if r \<noteq> 0 then Some (r, s)
              else
                let s = s\<lparr>hw := cs_checkpoint H (hw s)\<rparr>
                in (case each_opt (configure_source H c ranges pid) [0..<cfg_n_cpu c] s of
                      None \<Rightarrow> None
                    | Some (r, s) \<Rightarrow>
                        if r \<noteq> 0 then Some (r, s)
                        else
                          let ffcr_val = cs_device_read H (cfg_etb c) ETB_FLFMT_CTRL (hw s) OR
                                CS_ETB_FLFMT_CTRL_StopFl H;
                              (_, h) = cs_device_write H (cfg_etb c) ETB_FLFMT_CTRL ffcr_val (hw s)
                          in Some (error_result H (s\<lparr>hw := h\<rparr>)))))"

definition set_bb_one :: "'h csal \<Rightarrow> bool \<Rightarrow> nat \<Rightarrow> 'h cs_state \<Rightarrow> int \<times> 'h cs_state" where
  "set_bb_one H bb i s =
     (let etm = ptm s i;
          t = cs_etm_config_init_ex H etm (hw s);
          t = t\<lparr>flags := CS_ETMC_CONFIG H\<rparr>;
          t = cs_etm_config_get_ex H etm t (hw s);
          t = t\<lparr>configr_bb := bb\<rparr>;
          t = t\<lparr>flags := CS_ETMC_CONFIG H\<rparr>;
          s = s\<lparr>hw := cs_etm_config_put_ex H etm t (hw s)\<rparr>;
          (r, h) = cs_trace_enable H etm (hw s)
      in (if r \<noteq> 0 then - 1 else 0, s\<lparr>hw := h\<rparr>))"

definition set_etm_bb_mode :: "'h csal \<Rightarrow> cs_cfg \<Rightarrow> int \<Rightarrow> 'h cs_state \<Rightarrow> int \<times> 'h cs_state" where
  "set_etm_bb_mode H c bb_mode s =
     (let (r, s) = each (set_bb_one H (bb_mode \<noteq> 0)) [0..<cfg_n_cpu c] s
      in if r \<noteq> 0 then (- 1, s) else error_result H s)"

section \<open>Switching the trace on and off\<close>

definition set_etr_formatter_bypass :: "'h csal \<Rightarrow> cs_cfg \<Rightarrow> bool \<Rightarrow> 'h cs_state \<Rightarrow> int \<times> 'h cs_state" where
  "set_etr_formatter_bypass H c disable_formatter s =
     (if \<not> disable_formatter then (0, s)
      else
        let (r, h) = cs_device_clear H (cfg_etb c) ETB_FLFMT_CTRL
              (CS_ETB_FLFMT_CTRL_EnFTC H OR CS_ETB_FLFMT_CTRL_EnFCont H) (hw s)
        in (if r \<noteq> 0 then - 1 else 0, s\<lparr>hw := h\<rparr>))"

definition enable_etf :: "'h csal \<Rightarrow> cs_dev \<Rightarrow> 'h cs_state \<Rightarrow> int \<times> 'h cs_state" where
  "enable_etf H d s =
     (let (r, h) = cs_sink_etf_setup H d (hw s); s = s\<lparr>hw := h\<rparr>
      in if r \<noteq> 0 then (- 1, s)
         else let (r, h) = cs_tmc_hw_fifo_enable H d (hw s)
              in (if r \<noteq> 0 then - 1 else 0, s\<lparr>hw := h\<rparr>))"

text \<open>The sinks, as \<open>enable_trace\<close> and \<open>enable_trace_sinks_only\<close> both start.\<close>

definition enable_sinks :: "'h csal \<Rightarrow> cs_cfg \<Rightarrow> 'h cs_state \<Rightarrow> int \<times> 'h cs_state" where
  "enable_sinks H c s =
     (let (r, h) = cs_sink_etr_setup H (cfg_etb c) (cfg_etr_addr c) (cfg_etr_size c) (cfg_axictl c) (hw s);
          s = s\<lparr>hw := h\<rparr>
      in if r \<noteq> 0 then (- 1, s)
         else
           let (r, h) = cs_sink_enable H (cfg_etb c) (hw s); s = s\<lparr>hw := h\<rparr>
           in if r \<noteq> 0 then (- 1, s)
              else
                let (r, s) = (case cfg_backend c of
                                Stalker \<Rightarrow> set_etr_formatter_bypass H c True s
                              | Armored \<Rightarrow> (0, s))
                in if r \<noteq> 0 then (- 1, s) else each (enable_etf H) (cfg_sinks c) s)"

definition enable_trace :: "'h csal \<Rightarrow> cs_cfg \<Rightarrow> 'h cs_state \<Rightarrow> int \<times> 'h cs_state" where
  "enable_trace H c s =
     (let (r, s) = enable_sinks H c s
      in if r \<noteq> 0 then (- 1, s)
         else
           let s = fold (\<lambda>i s. s\<lparr>hw := snd (cs_trace_enable H (ptm s i) (hw s))\<rparr>) [0..<cfg_n_cpu c] s;
               s = s\<lparr>hw := cs_checkpoint H (hw s)\<rparr>
           in error_result H s)"

definition disable_trace :: "'h csal \<Rightarrow> cs_cfg \<Rightarrow> 'h cs_state \<Rightarrow> int \<times> 'h cs_state" where
  "disable_trace H c s =
     (let s = cs_etb_flush_and_wait_stop H c s;
          s = fold (\<lambda>i s. s\<lparr>hw := cs_trace_disable H (ptm s i) (hw s)\<rparr>) [0..<cfg_n_cpu c] s;
          s = fold (\<lambda>d s. s\<lparr>hw := cs_tmc_hw_fifo_disable H d (hw s)\<rparr>) (cfg_sinks c) s;
          s = s\<lparr>hw := cs_sink_disable H (cfg_etb c) (hw s)\<rparr>
      in error_result H s)"

text \<open>One ETM of the per-window cycle: the new PID goes into the context ID comparator.\<close>

definition arm_window :: "'h csal \<Rightarrow> cs_cfg \<Rightarrow> nat \<Rightarrow> 'h cs_state \<Rightarrow> 'h cs_state" where
  "arm_window H c i s =
     (let s = (if traced_pid s > 0 \<and> pid_filter_enabled (cfg_backend c) (cfg_env c)
               then
                 let h = snd (cs_device_write H (ptm s i) ETMV4_CIDCVR0 (word_of_int (traced_pid s)) (hw s));
                     h = snd (cs_device_write H (ptm s i) ETMV4_CIDCVR0_HI 0 h)
                 in s\<lparr>hw := h\<rparr>
               else s)
      in s\<lparr>hw := snd (cs_trace_enable H (ptm s i) (hw s))\<rparr>)"

definition enable_trace_sinks_only :: "'h csal \<Rightarrow> cs_cfg \<Rightarrow> 'h cs_state \<Rightarrow> int \<times> 'h cs_state" where
  "enable_trace_sinks_only H c s =
     (let (r, s) = enable_sinks H c s
      in if r \<noteq> 0 then (- 1, s)
         else
           let s = (if etm_cycled_per_window (cfg_backend c) (cfg_env c)
                    then fold (arm_window H c) [0..<cfg_n_cpu c] s else s);
               s = s\<lparr>hw := cs_checkpoint H (hw s)\<rparr>
           in error_result H s)"

definition disable_trace_sinks_only :: "'h csal \<Rightarrow> cs_cfg \<Rightarrow> 'h cs_state \<Rightarrow> int \<times> 'h cs_state" where
  "disable_trace_sinks_only H c s =
     (let s = cs_etb_flush_and_wait_stop H c s;
          s = (if etm_cycled_per_window (cfg_backend c) (cfg_env c)
               then fold (\<lambda>i s. s\<lparr>hw := cs_trace_disable H (ptm s i) (hw s)\<rparr>) [0..<cfg_n_cpu c] s
               else s);
          s = fold (\<lambda>d s. s\<lparr>hw := cs_tmc_hw_fifo_disable H d (hw s)\<rparr>) (cfg_sinks c) s;
          s = s\<lparr>hw := cs_sink_disable H (cfg_etb c) (hw s)\<rparr>
      in error_result H s)"

section \<open>A simulated CSAL\<close>

text \<open>
  A concrete library for the witnesses: a configuration and a register file per device, and
  which devices are on. Every call succeeds; \<open>put\<close> writes the whole configuration, \<open>get\<close> reads it.
\<close>

record sim_hw =
  sim_cfg :: "cs_dev \<Rightarrow> etm_config"
  sim_reg :: "cs_dev \<Rightarrow> cs_reg \<Rightarrow> u32"
  sim_on :: "cs_dev \<Rightarrow> bool"
  sim_errors :: int

definition etm_config0 :: etm_config where
  "etm_config0 =
     \<lparr>flags = 0, vmidsize = 0, cidsize = 4, configr_vmid = False, configr_cid = False,
      configr_rs = False, configr_bb = False, cidcvr_l = 0, cidcvr_h = 0, cidcctlr0 = 0,
      cxid_comps_acc_mask = 0, addr_comps = replicate 8 \<lparr>acvr_l = 0, acvr_h = 0, acatr_l = 0\<rparr>,
      addr_comps_acc_mask = 0, victlr = 0, viiectlr = 0, vissctlr = 0, eventctlr0r = 0,
      eventctlr1r = 0, stallcrlr = 0, syncpr = 0, bbctlr = 0\<rparr>"

definition sim_hw0 :: sim_hw where
  "sim_hw0 = \<lparr>sim_cfg = (\<lambda>_. etm_config0), sim_reg = (\<lambda>_ _. 0), sim_on = (\<lambda>_. False), sim_errors = 0\<rparr>"

definition sim_switch :: "bool \<Rightarrow> cs_dev \<Rightarrow> sim_hw \<Rightarrow> sim_hw" where
  "sim_switch b d h = h\<lparr>sim_on := (sim_on h)(d := b)\<rparr>"

definition sim_write :: "cs_dev \<Rightarrow> cs_reg \<Rightarrow> u32 \<Rightarrow> sim_hw \<Rightarrow> int \<times> sim_hw" where
  "sim_write d r v h = (0, h\<lparr>sim_reg := (sim_reg h)(d := (sim_reg h d)(r := v))\<rparr>)"

definition sim_csal :: "sim_hw csal" where
  "sim_csal =
     \<lparr>CS_ETMC_TRACE_ENABLE = 1, CS_ETMC_CONFIG = 2, CS_ETMC_EVENTSELECT = 4, CS_ETMC_CXID_COMP = 8,
      CS_ETMC_ADDR_COMP = 16, CS_ETMV4_ACATR_ExEL0_S = 1, CS_ETMV4_ACATR_ExEL1_S = 2,
      CS_ETMV4_ACATR_ExEL2_S = 4, CS_ETMV4_ACATR_ExEL1_NS = 8, CS_ETMV4_ACATR_ExEL2_NS = 16,
      CS_ETMV4_ACATR_CTXT = 32, CS_ETMV4_ACATR_CTXTID0 = 64, CS_ETMV4_VICTLR_ExEL0_S = 1,
      CS_ETMV4_VICTLR_ExEL1_S = 2, CS_ETMV4_VICTLR_ExEL2_S = 4, CS_ETMV4_VICTLR_ExEL3_S = 8,
      CS_ETMV4_VICTLR_ExEL1_NS = 16, CS_ETMV4_VICTLR_ExEL2_NS = 32, CS_ETMV4_VICTLR_SSSTATUS = 64,
      CS_ETMV4_VICTLR_ALWAYS = 128, CS_ETB_FLFMT_CTRL_FOnMan = 1, CS_ETB_FLFMT_CTRL_StopFl = 2,
      CS_ETB_FLFMT_CTRL_EnFTC = 4, CS_ETB_FLFMT_CTRL_EnFCont = 8,
      cs_device_set_wait_repeats = (\<lambda>_ h. h), cs_disable_tpiu = id,
      cs_sink_disable = sim_switch False, cs_sink_enable = (\<lambda>d h. (0, sim_switch True d h)),
      cs_sink_is_enabled = (\<lambda>d h. sim_on h d), cs_sink_etr_setup = (\<lambda>_ _ _ _ h. (0, h)),
      cs_sink_etf_setup = (\<lambda>_ h. (0, h)), cs_tmc_hw_fifo_enable = (\<lambda>d h. (0, sim_switch True d h)),
      cs_tmc_hw_fifo_disable = sim_switch False, cs_cpu_get_device = (\<lambda>i _. Some (Cpu_Source i)),
      cs_set_trace_source_id = (\<lambda>_ _ h. (0, h)), cs_device_is_source = (\<lambda>_ _. True),
      cs_etm_version_major = (\<lambda>_ _. 4),
      cs_etm_clean = (\<lambda>d h. (0, h\<lparr>sim_cfg := (sim_cfg h)(d := etm_config0)\<rparr>)),
      cs_etm_config_init_ex = (\<lambda>_ _. etm_config0),
      cs_etm_config_get_ex = (\<lambda>d t h. (sim_cfg h d)\<lparr>flags := flags t\<rparr>),
      cs_etm_config_put_ex = (\<lambda>d t h. h\<lparr>sim_cfg := (sim_cfg h)(d := t)\<rparr>),
      cs_trace_enable = (\<lambda>d h. (0, sim_switch True d h)), cs_trace_disable = sim_switch False,
      cs_device_read = (\<lambda>d r h. sim_reg h d r), cs_device_write = sim_write,
      cs_device_clear = (\<lambda>d r m h. sim_write d r (sim_reg h d r AND NOT m) h),
      cs_device_wait_empty = (\<lambda>_ h. h), cs_checkpoint = id, cs_error_count = sim_errors,
      cs_reset_error_count = (\<lambda>h. h\<lparr>sim_errors := 0\<rparr>), cs_shutdown = id,
      cs_get_buffer_size_bytes = (\<lambda>_ _. 0x10000)\<rparr>"

lemma sim_csal_ops [simp]:
  "cs_trace_enable sim_csal = (\<lambda>d h. (0, sim_switch True d h))"
  "cs_device_write sim_csal = sim_write" "cs_device_read sim_csal = (\<lambda>d r h. sim_reg h d r)"
  "cs_device_clear sim_csal = (\<lambda>d r m h. sim_write d r (sim_reg h d r AND NOT m) h)"
  "cs_sink_enable sim_csal = (\<lambda>d h. (0, sim_switch True d h))"
  "cs_sink_etr_setup sim_csal = (\<lambda>_ _ _ _ h. (0, h))" "cs_sink_etf_setup sim_csal = (\<lambda>_ h. (0, h))"
  "cs_tmc_hw_fifo_enable sim_csal = (\<lambda>d h. (0, sim_switch True d h))"
  "cs_checkpoint sim_csal = id" "cs_error_count sim_csal = sim_errors"
  "cs_etm_config_put_ex sim_csal = (\<lambda>d t h. h\<lparr>sim_cfg := (sim_cfg h)(d := t)\<rparr>)"
  "cs_etm_config_get_ex sim_csal = (\<lambda>d t h. (sim_cfg h d)\<lparr>flags := flags t\<rparr>)"
  "cs_reset_error_count sim_csal = (\<lambda>h. h\<lparr>sim_errors := 0\<rparr>)" "cs_shutdown sim_csal = id"
  "cs_trace_disable sim_csal = sim_switch False" "cs_sink_disable sim_csal = sim_switch False"
  "cs_tmc_hw_fifo_disable sim_csal = sim_switch False" "cs_device_wait_empty sim_csal = (\<lambda>_ h. h)"
  by (simp_all add: sim_csal_def)

lemma sim_errors_ops [simp]:
  "sim_errors (sim_switch b d h) = sim_errors h" "fst (sim_write d r v h) = 0"
  "sim_errors (snd (sim_write d r v h)) = sim_errors h"
  by (simp_all add: sim_switch_def sim_write_def)

definition sim_cs_cfg :: "backend \<Rightarrow> environ \<Rightarrow> cs_cfg" where
  "sim_cs_cfg B env =
     \<lparr>cfg_backend = B, cfg_env = env, cfg_etb = Dev 0xFE970000, cfg_sinks = [Dev 0xFE940000],
      cfg_sink0 = Some (Dev 0xFE940000), cfg_n_cpu = 4, cfg_axictl = None, cfg_etr_addr = 0x10000000, cfg_etr_size = 0x100000\<rparr>"

definition sim_cs_state :: "sim_hw cs_state" where
  "sim_cs_state = \<lparr>hw = sim_hw0, ptm = Cpu_Source, traced_pid = 0\<rparr>"

section \<open>The comparators hold the ranges\<close>

text \<open>The 64-bit address an address comparator holds.\<close>

definition comp_addr :: "adrcmp \<Rightarrow> u64" where
  "comp_addr a = push_bit 32 (ucast (acvr_h a)) OR ucast (acvr_l a)"

lemma split_join_64:
  "push_bit 32 (ucast (ucast (drop_bit 32 x AND 0xFFFFFFFF) :: u32)) OR
     ucast (ucast (x AND 0xFFFFFFFF) :: u32) = (x :: u64)"
proof -
  have m: "(0xFFFFFFFF :: u64) = mask 32" by (simp add: mask_eq_exp_minus_1)
  show ?thesis
    unfolding m
    by (rule bit_word_eqI) (auto simp: bit_simps dest: bit_imp_le_length)
qed

lemma set_range_comps:
  assumes "Suc idx < length comps"
  shows "comp_addr (set_etmv4_addr_range H r idx x comps ! idx) = mi_start r"
    and "comp_addr (set_etmv4_addr_range H r idx x comps ! Suc idx) = mi_end r"
    and "length (set_etmv4_addr_range H r idx x comps) = length comps"
    and "j \<noteq> idx \<Longrightarrow> j \<noteq> Suc idx \<Longrightarrow> set_etmv4_addr_range H r idx x comps ! j = comps ! j"
  using assms by (simp_all add: set_etmv4_addr_range_def Let_def comp_addr_def split_join_64)

definition holds_range :: "etm_config \<Rightarrow> nat \<Rightarrow> map_info \<Rightarrow> bool" where
  "holds_range t i r \<longleftrightarrow>
     comp_addr (addr_comps t ! (2 * i)) = mi_start r \<and>
     comp_addr (addr_comps t ! Suc (2 * i)) = mi_end r \<and>
     bit (addr_comps_acc_mask t) (2 * i) \<and> bit (addr_comps_acc_mask t) (Suc (2 * i)) \<and>
     bit (viiectlr t) i"

lemma bit_three_u32: "bit (3 :: u32) m \<longleftrightarrow> m = 0 \<or> m = 1"
proof -
  have "(3 :: u32) = mask 2" by (simp add: mask_eq_exp_minus_1)
  then show ?thesis by (simp only: bit_mask_iff) (auto simp: less_2_cases_iff)
qed

lemma bit_3_32: "bit (push_bit k (0x3 :: u32)) j \<longleftrightarrow> j < 32 \<and> (j = k \<or> j = Suc k)"
  unfolding bit_push_bit_iff bit_three_u32 by auto

lemma add_range_holds:
  assumes "Suc (2 * i) < length (addr_comps t)" and "length (addr_comps t) \<le> 16"
  shows "holds_range (add_range H x (i, r) t) i r"
    and "length (addr_comps (add_range H x (i, r) t)) = length (addr_comps t)"
    and "j \<noteq> i \<Longrightarrow> holds_range t j q \<Longrightarrow> holds_range (add_range H x (i, r) t) j q"
proof -
  have i: "Suc (i * 2) < length (addr_comps t)" "i * 2 = 2 * i" "i < 32" "Suc (2 * i) < 32"
    using assms by simp_all
  note c = set_range_comps [OF i(1), where H = H and r = r and x = x]
  have b: "bit (push_bit i (1 :: u32)) i" using i(3) unfolding bit_push_bit_iff by simp
  show "holds_range (add_range H x (i, r) t) i r"
    using c(1,2) b i(4) unfolding i(2)
    by (simp add: holds_range_def add_range_def i(2) bit_or_iff bit_3_32)
  show "length (addr_comps (add_range H x (i, r) t)) = length (addr_comps t)"
    using c(3) by (simp add: add_range_def)
  assume "j \<noteq> i" "holds_range t j q"
  moreover from \<open>j \<noteq> i\<close> have "2 * j \<noteq> i * 2" "2 * j \<noteq> Suc (i * 2)" "Suc (2 * j) \<noteq> i * 2" "Suc (2 * j) \<noteq> Suc (i * 2)"
    by presburger+
  ultimately show "holds_range (add_range H x (i, r) t) j q"
    using c(4) by (simp add: holds_range_def add_range_def bit_or_iff)
qed

lemma fold_add_range:
  assumes "2 * (k + length rs) \<le> length (addr_comps t)" and "length (addr_comps t) \<le> 16"
  shows "(\<forall>i < length rs. holds_range (fold (add_range H x) (enumerate k rs) t) (k + i) (rs ! i)) \<and>
    (\<forall>j < k. \<forall>q. holds_range t j q \<longrightarrow> holds_range (fold (add_range H x) (enumerate k rs) t) j q)"
  using assms
proof (induction rs arbitrary: k t)
  case (Cons r rs)
  let ?t = "add_range H x (k, r) t"
  have a: "Suc (2 * k) < length (addr_comps t)" using Cons.prems by simp
  note h = add_range_holds [OF a Cons.prems(2), where H = H and x = x and r = r]
  have ih: "(\<forall>i < length rs. holds_range (fold (add_range H x) (enumerate (Suc k) rs) ?t) (Suc k + i) (rs ! i)) \<and>
    (\<forall>j < Suc k. \<forall>q. holds_range ?t j q \<longrightarrow> holds_range (fold (add_range H x) (enumerate (Suc k) rs) ?t) j q)"
    using Cons.prems h(2) by (intro Cons.IH) simp_all
  then show ?case using h(1,3) by (auto simp: nth_Cons split: nat.split)
qed simp

text \<open>
  C21: The ETM filters on exactly the mapped ranges. With the default decoder the configuration
  \<open>configure_etmv4_addr_range_cid\<close> writes holds, for every traced range, its start and end in a
  pair of address comparators of its own (split into two 32-bit registers each, nothing lost),
  marks both comparators for writing and selects the pair for inclusion; later ranges do not
  disturb earlier ones. The ETM has at most sixteen comparators.
\<close>

theorem comparators_hold_ranges:
  assumes "cfg_backend c = Armored" and "2 * length ranges \<le> length (addr_comps t)"
    and "length (addr_comps t) \<le> 16" and "i < length ranges"
    and "addr_range_cid_config H c ranges cid t = Some t'"
  shows "comp_addr (addr_comps t' ! (2 * i)) = mi_start (ranges ! i) \<and>
    comp_addr (addr_comps t' ! Suc (2 * i)) = mi_end (ranges ! i) \<and>
    bit (addr_comps_acc_mask t') (2 * i) \<and> bit (addr_comps_acc_mask t') (Suc (2 * i)) \<and>
    bit (viiectlr t') i"
proof -
  let ?u = "cid_config H cid t"
  have u: "addr_comps ?u = addr_comps t" by (simp add: cid_config_def Let_def)
  obtain x where t': "t' = (fold (add_range H x) (enumerate 0 ranges) ?u)
      \<lparr>flags := flags (fold (add_range H x) (enumerate 0 ranges) ?u) OR CS_ETMC_ADDR_COMP H\<rparr>"
    using assms(1,5) by (auto simp: addr_range_cid_config_def Let_def)
  have "holds_range (fold (add_range H x) (enumerate 0 ranges) ?u) i (ranges ! i)"
    using fold_add_range [of 0 ranges ?u H x] assms(2-4) u by simp
  then show ?thesis by (simp add: t' holds_range_def)
qed

theorem comparators_hold_ranges_witness:
  "let r = \<lparr>mi_start = 0x400000, mi_end = 0xAAAA00001000, mi_offset = 0, mi_buf = 0, mi_path = ''/bin/t''\<rparr>;
       t' = the (addr_range_cid_config sim_csal (sim_cs_cfg Armored (\<lambda>_. None)) [r] 0 etm_config0)
   in comp_addr (addr_comps t' ! 1) = 0xAAAA00001000 \<and> bit (addr_comps_acc_mask t') 1 \<and> bit (viiectlr t') 0"
  using comparators_hold_ranges [of "sim_cs_cfg Armored (\<lambda>_. None)"
      "[\<lparr>mi_start = 0x400000, mi_end = 0xAAAA00001000, mi_offset = 0, mi_buf = 0, mi_path = ''/bin/t''\<rparr>]"
      etm_config0 0 sim_csal 0]
  by (simp add: sim_cs_cfg_def etm_config0_def addr_range_cid_config_def Let_def)

section \<open>Branch broadcast and the per-window PID\<close>

text \<open>
  What the two theorems rely on of CSAL: a configuration put with the \<open>CS_ETMC_CONFIG\<close> flag is
  the one got with it and reaches no other device, a register reads back as written, and
  switching a device on writes neither.
\<close>

definition csal_keeps_config :: "'h csal \<Rightarrow> bool" where
  "csal_keeps_config H \<longleftrightarrow>
     (\<forall>d t u h. flags t = CS_ETMC_CONFIG H \<longrightarrow> flags u = CS_ETMC_CONFIG H \<longrightarrow>
        configr_bb (cs_etm_config_get_ex H d u (cs_etm_config_put_ex H d t h)) = configr_bb t) \<and>
     (\<forall>d e t u h. d \<noteq> e \<longrightarrow>
        cs_etm_config_get_ex H e u (cs_etm_config_put_ex H d t h) = cs_etm_config_get_ex H e u h) \<and>
     (\<forall>d e u h. cs_etm_config_get_ex H e u (snd (cs_trace_enable H d h)) = cs_etm_config_get_ex H e u h)"

definition csal_keeps_registers :: "'h csal \<Rightarrow> bool" where
  "csal_keeps_registers H \<longleftrightarrow>
     (\<forall>d r v h. cs_device_read H d r (snd (cs_device_write H d r v h)) = v) \<and>
     (\<forall>d r e q v h. (e, q) \<noteq> (d, r) \<longrightarrow>
        cs_device_read H e q (snd (cs_device_write H d r v h)) = cs_device_read H e q h) \<and>
     (\<forall>d e q h. cs_device_read H e q (snd (cs_trace_enable H d h)) = cs_device_read H e q h) \<and>
     (\<forall>e q h. cs_device_read H e q (cs_checkpoint H h) = cs_device_read H e q h)"

text \<open>The branch-broadcast bit a device's configuration register holds.\<close>

definition hw_bb :: "'h csal \<Rightarrow> cs_dev \<Rightarrow> 'h \<Rightarrow> bool" where
  "hw_bb H d h = configr_bb (cs_etm_config_get_ex H d (etm_config0\<lparr>flags := CS_ETMC_CONFIG H\<rparr>) h)"

lemma set_bb_one_effect:
  assumes "csal_keeps_config H" and "set_bb_one H bb i s = (r, s')"
  shows "ptm s' = ptm s" and "traced_pid s' = traced_pid s"
    and "hw_bb H d (hw s') = (if d = ptm s i then bb else hw_bb H d (hw s))"
  using assms
  by (auto simp: set_bb_one_def Let_def hw_bb_def csal_keeps_config_def case_prod_beta)

lemma each_set_bb:
  assumes "csal_keeps_config H" and "each (set_bb_one H bb) js s = (0, s')"
  shows "ptm s' = ptm s \<and> traced_pid s' = traced_pid s \<and>
    (\<forall>d. hw_bb H d (hw s') = (if d \<in> ptm s ` set js then bb else hw_bb H d (hw s)))"
  using assms(2)
proof (induction js arbitrary: s)
  case (Cons i js)
  obtain r s1 where f: "set_bb_one H bb i s = (r, s1)" by fastforce
  with Cons.prems have "r = 0" "each (set_bb_one H bb) js s1 = (0, s')"
    by (auto split: if_splits)
  then show ?case
    using Cons.IH [of s1] set_bb_one_effect [OF assms(1) f] by auto
qed simp

text \<open>
  Setting the branch-broadcast mode reaches every core. When \<open>set_etm_bb_mode\<close> returns 0,
  the configuration register of the trace source of each of the board's cores holds the
  requested mode, and no error is pending; the other devices keep theirs.
\<close>

theorem bb_mode_reaches_every_core:
  assumes "csal_keeps_config H" and "set_etm_bb_mode H c bb_mode s = (0, s')"
  shows "(\<forall>d. hw_bb H d (hw s') =
      (if d \<in> ptm s ` {0..<cfg_n_cpu c} then bb_mode \<noteq> 0 else hw_bb H d (hw s))) \<and>
    cs_error_count H (hw s') \<le> 0"
proof -
  obtain r s1 where e: "each (set_bb_one H (bb_mode \<noteq> 0)) [0..<cfg_n_cpu c] s = (r, s1)" by fastforce
  with assms(2) have "r = 0" "s' = s1" and "cs_error_count H (hw s') \<le> 0"
    by (auto simp: set_etm_bb_mode_def error_result_def split: if_splits)
  then show ?thesis using each_set_bb [OF assms(1)] e by fastforce
qed

text \<open>The simulated CSAL meets both.\<close>

lemma sim_csal_keeps_config: "csal_keeps_config sim_csal"
  by (simp add: csal_keeps_config_def sim_csal_def sim_switch_def)

lemma sim_csal_keeps_registers: "csal_keeps_registers sim_csal"
  by (auto simp: csal_keeps_registers_def sim_csal_def sim_switch_def sim_write_def)

lemma sim_each_set_bb:
  "fst (each (set_bb_one sim_csal b) js s) = 0 \<and>
   sim_errors (hw (snd (each (set_bb_one sim_csal b) js s))) = sim_errors (hw s)"
  by (induction js arbitrary: s) (simp_all add: set_bb_one_def Let_def case_prod_beta)

theorem bb_mode_reaches_every_core_witness:
  "hw_bb sim_csal (Cpu_Source 3) (hw (snd (set_etm_bb_mode sim_csal (sim_cs_cfg Armored (\<lambda>_. None)) 1 sim_cs_state)))"
proof -
  let ?c = "sim_cs_cfg Armored (\<lambda>_. None)"
  have r: "set_etm_bb_mode sim_csal ?c 1 sim_cs_state =
      (0, snd (set_etm_bb_mode sim_csal ?c 1 sim_cs_state))"
    using sim_each_set_bb [of True _ sim_cs_state]
    by (simp add: set_etm_bb_mode_def case_prod_beta error_result_def)
      (simp add: sim_cs_state_def sim_hw0_def)
  show ?thesis
    using bb_mode_reaches_every_core [OF sim_csal_keeps_config r]
    by (simp add: sim_cs_cfg_def sim_cs_state_def)
qed

lemma arm_window_effect:
  assumes "csal_keeps_registers H" and "traced_pid s > 0"
    and "pid_filter_enabled (cfg_backend c) (cfg_env c)"
  shows "ptm (arm_window H c i s) = ptm s" and "traced_pid (arm_window H c i s) = traced_pid s"
    and "cs_device_read H d ETMV4_CIDCVR0 (hw (arm_window H c i s)) =
      (if d = ptm s i then word_of_int (traced_pid s) else cs_device_read H d ETMV4_CIDCVR0 (hw s))"
    and "cs_device_read H d ETMV4_CIDCVR0_HI (hw (arm_window H c i s)) =
      (if d = ptm s i then 0 else cs_device_read H d ETMV4_CIDCVR0_HI (hw s))"
  using assms by (auto simp: arm_window_def Let_def csal_keeps_registers_def)

lemma fold_arm_window:
  assumes "csal_keeps_registers H" and "traced_pid s > 0"
    and "pid_filter_enabled (cfg_backend c) (cfg_env c)"
  shows "ptm (fold (arm_window H c) js s) = ptm s \<and>
    (\<forall>d. cs_device_read H d ETMV4_CIDCVR0 (hw (fold (arm_window H c) js s)) =
      (if d \<in> ptm s ` set js then word_of_int (traced_pid s) else cs_device_read H d ETMV4_CIDCVR0 (hw s)) \<and>
     cs_device_read H d ETMV4_CIDCVR0_HI (hw (fold (arm_window H c) js s)) =
      (if d \<in> ptm s ` set js then 0 else cs_device_read H d ETMV4_CIDCVR0_HI (hw s)))"
  using assms(2)
proof (induction js arbitrary: s)
  case (Cons i js)
  note w = arm_window_effect [OF assms(1) Cons.prems assms(3)]
  then show ?case using Cons.IH [of "arm_window H c i s"] Cons.prems by auto
qed simp

lemma enable_etf_keeps: "ptm (snd (enable_etf H d s)) = ptm s \<and> traced_pid (snd (enable_etf H d s)) = traced_pid s"
  by (simp add: enable_etf_def Let_def case_prod_beta)

lemma each_enable_etf_keeps:
  "ptm (snd (each (enable_etf H) ds s)) = ptm s \<and> traced_pid (snd (each (enable_etf H) ds s)) = traced_pid s"
proof (induction ds arbitrary: s)
  case (Cons d ds)
  then show ?case using enable_etf_keeps [of H d s] by (auto simp: case_prod_beta Let_def)
qed simp

lemma enable_sinks_keeps [frame_simps]:
  "ptm (snd (enable_sinks H c s)) = ptm s \<and> traced_pid (snd (enable_sinks H c s)) = traced_pid s"
  using each_enable_etf_keeps [of H "cfg_sinks c"]
  by (auto simp: enable_sinks_def set_etr_formatter_bypass_def Let_def case_prod_beta split: backend.splits)

text \<open>
  C22: Under the PID filter every window is armed for the child about to run. When
  \<open>enable_trace_sinks_only\<close> returns 0 with a child PID set and the filter on, context ID
  comparator 0 of each of the board's ETMs holds that PID in its low word and zero in its high
  word, whatever the previous window left there.
\<close>

theorem window_armed_for_child:
  assumes "csal_keeps_registers H" and "pid_filter_enabled (cfg_backend c) (cfg_env c)"
    and "traced_pid s > 0" and "enable_trace_sinks_only H c s = (0, s')" and "i < cfg_n_cpu c"
  shows "cs_device_read H (ptm s i) ETMV4_CIDCVR0 (hw s') = word_of_int (traced_pid s) \<and>
    cs_device_read H (ptm s i) ETMV4_CIDCVR0_HI (hw s') = 0"
proof -
  obtain r s1 where e: "enable_sinks H c s = (r, s1)" by fastforce
  then have k: "ptm s1 = ptm s" "traced_pid s1 = traced_pid s" using enable_sinks_keeps [of H c s] by simp_all
  have cyc: "etm_cycled_per_window (cfg_backend c) (cfg_env c)"
    using assms(2) by (cases "cfg_backend c") (simp_all add: etm_cycled_per_window_def)
  let ?f = "fold (arm_window H c) [0..<cfg_n_cpu c] s1"
  have "s' = ?f\<lparr>hw := cs_checkpoint H (hw ?f)\<rparr>"
    using assms(4) e cyc
    by (auto simp: enable_trace_sinks_only_def error_result_def Let_def split: if_splits)
  moreover have "ptm s i \<in> ptm s1 ` set [0..<cfg_n_cpu c]" using k assms(5) by simp
  ultimately show ?thesis
    using fold_arm_window [OF assms(1), of s1 c "[0..<cfg_n_cpu c]"] assms(1,2,3) k
    by (simp add: csal_keeps_registers_def)
qed

lemma sim_fold_arm: "sim_errors (hw (fold (arm_window sim_csal c) js s)) = sim_errors (hw s)"
  by (induction js arbitrary: s) (simp_all add: arm_window_def Let_def)

lemma sim_each_etf:
  "fst (each (enable_etf sim_csal) js s) = 0 \<and>
   sim_errors (hw (snd (each (enable_etf sim_csal) js s))) = sim_errors (hw s)"
  by (induction js arbitrary: s) (simp_all add: enable_etf_def Let_def case_prod_beta)

lemma sim_enable_sinks:
  "fst (enable_sinks sim_csal c s) = 0 \<and> sim_errors (hw (snd (enable_sinks sim_csal c s))) = sim_errors (hw s)"
  by (cases "cfg_backend c")
    (simp_all add: enable_sinks_def set_etr_formatter_bypass_def sim_each_etf Let_def case_prod_beta)

lemma sim_enable_window:
  "sim_errors (hw s) = 0 \<Longrightarrow>
   enable_trace_sinks_only sim_csal c s = (0, snd (enable_trace_sinks_only sim_csal c s))"
  by (simp add: enable_trace_sinks_only_def sim_enable_sinks sim_fold_arm error_result_def Let_def case_prod_beta)

theorem window_armed_for_child_witness:
  "cs_device_read sim_csal (Cpu_Source 2) ETMV4_CIDCVR0
     (hw (snd (enable_trace_sinks_only sim_csal (sim_cs_cfg Stalker (\<lambda>_. None))
       (set_etm_trace_pid 1234 sim_cs_state)))) = 1234"
proof -
  let ?c = "sim_cs_cfg Stalker (\<lambda>_. None)" and ?s = "set_etm_trace_pid 1234 sim_cs_state"
  have "enable_trace_sinks_only sim_csal ?c ?s = (0, snd (enable_trace_sinks_only sim_csal ?c ?s))"
    by (rule sim_enable_window) (simp add: set_etm_trace_pid_def sim_cs_state_def sim_hw0_def)
  from window_armed_for_child [OF sim_csal_keeps_registers _ _ this, of 2] show ?thesis
    by (simp add: sim_cs_cfg_def sim_cs_state_def set_etm_trace_pid_def pid_filter_enabled_def)
qed

end
