(* ===== verification/Session.thy ===== *)
theory Session
  imports Trace_Buffer Etm_Config
begin

text \<open>
  The tracing session of \<open>src/src/common.c\<close>: \<open>enable_cs_trace\<close>, \<open>disable_cs_trace\<close>,
  \<open>trace_set_bb_mode\<close>, \<open>start_trace\<close>, \<open>stop_trace\<close>, \<open>init_trace\<close>, \<open>fini_trace\<close>, \<open>decoder_worker\<close>,
  \<open>trace_sink_polling\<close> and the exports, over one record that gathers the file's static
  variables. The hardware is one state that both the CSAL interface of \<open>Etm_Config\<close> and the ETR
  interface of \<open>Trace_Buffer\<close> act on. Here the decoder thread's work is a function run at the
  points where the code waits for it; that it is run at exactly those points is
  \<open>Decoder_Sync\<close>. Answers of the operating system are the fields of \<open>sys_env\<close>. A failed
  assertion ends the process and is \<open>None\<close> or \<open>Faults\<close>; \<open>Loops\<close> is a call that never returns. Mutexes are
  taken and released around each body and leave no trace here; the configuration dump of
  \<open>export_config\<close> only prints.
\<close>

section \<open>State\<close>

datatype trace_state = init_state | fini_state | ready_state | running_state | suspended_state

record ('h, 'd) session =
  cs :: "'h cs_state"
  conf :: cs_cfg
  buf :: buf_state
  dec :: "'d dec_state"
  board_name :: string
  udmabuf_num :: int
  decoding_on :: bool
  trace_cpu :: int
  ranges :: "map_info list"
  child_pid :: int
  is_first_trace :: bool
  trace_ever_configured :: bool
  current_bb_mode :: int
  tstate :: trace_state
  ev_start :: bool
  ev_suspend :: bool
  ev_stop :: bool
  ev_fini :: bool
  ready :: bool
  has_thread :: bool
  drain_threshold :: u64
  decoder_cpu :: "int option"
  failed_exports :: u32
  args_files :: "(string \<times> string) list"
  trace_files :: "(string \<times> u8 list) list"

text \<open>
  What the operating system answers: procfs and sysfs, the affinity calls, \<open>mmap\<close>, \<open>mremap\<close>
  and opening the u-dma-buf, the working directory, which files open for writing, the memory
  \<open>malloc\<close> gives for the bitmap and the result of \<open>pthread_create\<close>. \<open>sy_vars\<close> is what the
  uninitialised variables of \<open>setup_map_info\<close> hold.
\<close>

record sys_env =
  sy_rd :: "string \<Rightarrow> string option"
  sy_isdir :: "string \<Rightarrow> bool"
  sy_nprocs :: nat
  sy_affinity :: "int \<Rightarrow> cpu_set option"
  sy_proc :: "proc_entry list option"
  sy_files :: file_env
  sy_maps :: "int \<Rightarrow> string option"
  sy_vars :: maps_vars
  sy_setaffinity :: "int \<Rightarrow> cpu_set \<Rightarrow> int"
  sy_setaffinity_np :: "cpu_set \<Rightarrow> nat"
  sy_pthread_create :: int
  sy_mmap :: "u64 option"
  sy_mremap :: "u64 option"
  sy_etr_opens :: "string \<Rightarrow> bool"
  sy_bitmap_mem :: "u8 list option"
  sy_cwd :: "string option"
  sy_fopen_w :: "string \<Rightarrow> bool"

text \<open>CSAL's board set-up: the board found, its devices and the hardware, or a failure.\<close>

type_synonym 'h board_setup = "string \<Rightarrow> board list \<Rightarrow> 'h \<Rightarrow> (board \<times> board_devices \<times> 'h) option"

abbreviation (input) DEFAULT_TRACE_CPU :: int where "DEFAULT_TRACE_CPU \<equiv> 0"
abbreviation (input) DEFAULT_DECODER_CPU :: int where "DEFAULT_DECODER_CPU \<equiv> 1"
abbreviation (input) TRACE_DISABLE_TRIAL :: nat where "TRACE_DISABLE_TRIAL \<equiv> 8"

definition direct_read :: "('h, 'd) session \<Rightarrow> bool" where
  "direct_read s = etr_direct_read_enabled (cfg_backend (conf s)) (cfg_env (conf s))"

definition set_trace_state :: "trace_state \<Rightarrow> ('h, 'd) session \<Rightarrow> ('h, 'd) session" where
  "set_trace_state t s = s\<lparr>tstate := t\<rparr>"

section \<open>Switching the trace\<close>

definition fail_shutdown :: "'h csal \<Rightarrow> ('h, 'd) session \<Rightarrow> int \<times> ('h, 'd) session" where
  "fail_shutdown H s = (- 1, s\<lparr>cs := (cs s)\<lparr>hw := cs_shutdown H (hw (cs s))\<rparr>\<rparr>)"

definition first_enable :: "'h csal \<Rightarrow> int \<Rightarrow> ('h, 'd) session \<Rightarrow> (int \<times> ('h, 'd) session) option" where
  "first_enable H pid s =
     (let c = conf s;
          (c1, p) = (if cfg_backend c = Armored \<and> \<not> pid_filter_enabled (cfg_backend c) (cfg_env c)
                     then (cs s, pid) else (set_etm_trace_pid (child_pid s) (cs s), child_pid s))
      in (case configure_trace H c (ranges s) p c1 of
            None \<Rightarrow> None
          | Some (r, c2) \<Rightarrow>
              let s = s\<lparr>cs := c2\<rparr>
              in if r < 0 then Some (fail_shutdown H s)
                 else
                   let (r, c3) = enable_trace H c (cs s); s = s\<lparr>cs := c3\<rparr>
                   in if r < 0 then Some (fail_shutdown H s)
                      else
                        let s = s\<lparr>is_first_trace := False, trace_ever_configured := True\<rparr>
                        in if current_bb_mode s \<noteq> 0
                           then
                             let (r, c4) = set_etm_bb_mode H c (current_bb_mode s) (cs s);
                                 s = s\<lparr>cs := c4\<rparr>
                             in Some (if r < 0 then fail_shutdown H s else (0, s))
                           else Some (0, s)))"

definition enable_cs_trace :: "'h csal \<Rightarrow> int \<Rightarrow> ('h, 'd) session \<Rightarrow> (int \<times> ('h, 'd) session) option" where
  "enable_cs_trace H pid s =
     (if is_first_trace s then first_enable H pid s
      else
        let (r, c) = enable_trace_sinks_only H (conf s) (set_etm_trace_pid (child_pid s) (cs s));
            s = s\<lparr>cs := c\<rparr>
        in Some (if r < 0 then fail_shutdown H s else (0, s)))"

text \<open>The trials of \<open>disable_cs_trace\<close>, the error count reset after each that failed.\<close>

fun disable_trials ::
  "'h csal \<Rightarrow> cs_cfg \<Rightarrow> bool \<Rightarrow> nat \<Rightarrow> int \<Rightarrow> 'h cs_state \<Rightarrow> int \<times> 'h cs_state" where
  "disable_trials H c disable_all 0 ret s = (ret, s)"
| "disable_trials H c disable_all (Suc n) ret s =
     (let (ret, s) = (if disable_all then disable_trace H c s else disable_trace_sinks_only H c s)
      in if ret < 0
         then disable_trials H c disable_all n ret (s\<lparr>hw := cs_reset_error_count H (hw s)\<rparr>)
         else (ret, s))"

definition disable_cs_trace :: "'h csal \<Rightarrow> bool \<Rightarrow> ('h, 'd) session \<Rightarrow> int \<times> ('h, 'd) session" where
  "disable_cs_trace H disable_all s =
     (let (ret, c) = disable_trials H (conf s) disable_all TRACE_DISABLE_TRIAL (- 1) (cs s)
      in (ret, s\<lparr>cs := c\<rparr>))"

definition trace_set_bb_mode ::
  "'h csal \<Rightarrow> 'd declib \<Rightarrow> int \<Rightarrow> ('h, 'd) session \<Rightarrow> int \<times> ('h, 'd) session" where
  "trace_set_bb_mode H L bb_mode s =
     (let (ret, s) = (if trace_ever_configured s
                      then (let (r, c) = set_etm_bb_mode H (conf s) bb_mode (cs s) in (r, s\<lparr>cs := c\<rparr>))
                      else (0, s));
          s = s\<lparr>current_bb_mode := (if bb_mode \<noteq> 0 then 1 else 0)\<rparr>;
          s = s\<lparr>is_first_trace := True\<rparr>;
          s = (case cfg_backend (conf s) of
                 Stalker \<Rightarrow> s\<lparr>dec := stalker_set_bb_mode L bb_mode (dec s)\<rparr>
               | Armored \<Rightarrow> s)
      in (ret, s))"

section \<open>Exports\<close>

definition export_trace ::
  "sys_env \<Rightarrow> string \<Rightarrow> string \<Rightarrow> ('h, 'd) session \<Rightarrow> int \<times> ('h, 'd) session" where
  "export_trace sys trace_name trace_args_name s =
     (case sy_cwd sys of
        None \<Rightarrow> (- 1, s)
      | Some cwd \<Rightarrow>
          let trace_path = snprintf_str PATH_MAX (cwd @ ''/'' @ trace_name);
              args_path = snprintf_str PATH_MAX (cwd @ ''/'' @ trace_args_name)
          in (case export_decoder_args (sy_fopen_w sys) (trace_id (dec s)) (Some trace_path)
                     (Some args_path) (Some (ranges s)) of
                None \<Rightarrow> (- 1, s)
              | Some args \<Rightarrow>
                  let s = s\<lparr>args_files := (args_path, args) # args_files s\<rparr>
                  in if \<not> sy_fopen_w sys trace_path then (- 1, s)
                     else
                       (0, s\<lparr>trace_files :=
                               (trace_path, take (unat (trace_captured_bytes (buf s))) (buf_mem (buf s))) #
                               trace_files s\<rparr>)))"

definition export_failed_trace :: "sys_env \<Rightarrow> ('h, 'd) session \<Rightarrow> ('h, 'd) session" where
  "export_failed_trace sys s =
     (if cfg_env (conf s) ''AFLCS_EXPORT_ON_DECODE_FAIL'' = None then s
      else
        let n = dec_string (unat (failed_exports s));
            trace_name = snprintf_str 64 (''cstrace-'' @ n @ ''.bin'');
            args_name = snprintf_str 64 (''decoderargs-'' @ n @ ''.txt'');
            s = s\<lparr>failed_exports := failed_exports s + 1\<rparr>
        in snd (export_trace sys trace_name args_name s))"

section \<open>Fetching and decoding in a session\<close>

definition obind :: "'a outcome \<Rightarrow> ('a \<Rightarrow> 'b outcome) \<Rightarrow> 'b outcome" where
  "obind m f = (case m of Returns x \<Rightarrow> f x | Loops \<Rightarrow> Loops | Faults \<Rightarrow> Faults)"

lemma obind_simps [simp]:
  "obind (Returns x) f = f x" "obind Loops f = Loops" "obind Faults f = Faults"
  by (simp_all add: obind_def)

definition or_dies :: "'a option \<Rightarrow> 'a outcome" where
  "or_dies x = (case x of None \<Rightarrow> Faults | Some v \<Rightarrow> Returns v)"

definition etr_map_open :: "sys_env \<Rightarrow> int \<Rightarrow> bool" where
  "etr_map_open sys num = sy_etr_opens sys (''/dev/udmabuf'' @ int_string num)"

definition session_fetch ::
  "'h etr_lib \<Rightarrow> sys_env \<Rightarrow> ('h, 'd) session \<Rightarrow> (int \<times> ('h, 'd) session) outcome" where
  "session_fetch E sys s =
     obind (fetch_trace E (direct_read s) (etr_map_open sys (udmabuf_num s)) (sy_mremap sys) (buf s) (hw (cs s)))
       (\<lambda>(r, b, h). Returns (r, s\<lparr>buf := b, cs := (cs s)\<lparr>hw := h\<rparr>\<rparr>))"

definition session_decode :: "'d declib \<Rightarrow> ('h, 'd) session \<Rightarrow> int \<times> ('h, 'd) session" where
  "session_decode L s =
     (let (r, b, d) = decode_trace (cfg_backend (conf s)) L (buf s) (dec s)
      in (r, s\<lparr>buf := b, dec := d\<rparr>))"

section \<open>The decoder thread's work on one execution\<close>

text \<open>The fill level of the ETR above which \<open>decoder_worker\<close> drains while the child runs.\<close>

definition decoding_threshold :: "backend \<Rightarrow> environ \<Rightarrow> u64 option \<Rightarrow> u64 \<Rightarrow> u64" where
  "decoding_threshold B env etf_size etr_size =
     (case B of
        Stalker \<Rightarrow> - 1
      | Armored \<Rightarrow>
          (case (env ''AFLCS_DRAIN_AT_2XETF'', etf_size) of
             (Some v, Some etf) \<Rightarrow>
               if atoi v \<noteq> 0 then (if etf < etr_size then etf * 2 else etr_size) else etr_size
           | _ \<Rightarrow> etr_size))"

text \<open>
  What \<open>decoder_worker\<close> does once, before its first wait: an unknown size of the ETR's memory is
  asked from CSAL, and the threshold is fixed.
\<close>

definition decoder_worker :: "'h csal \<Rightarrow> ('h, 'd) session \<Rightarrow> ('h, 'd) session" where
  "decoder_worker H s =
     (let s = (if etr_ram_size (buf s) = 0
               then
                 let z = cs_get_buffer_size_bytes H (cfg_etb (conf s)) (hw (cs s))
                 in s\<lparr>buf := (buf s)\<lparr>etr_ram_size := z\<rparr>, conf := (conf s)\<lparr>cfg_etr_size := z\<rparr>\<rparr>
               else s);
          etf = map_option (\<lambda>d. cs_get_buffer_size_bytes H d (hw (cs s))) (cfg_sink0 (conf s))
      in s\<lparr>drain_threshold :=
             decoding_threshold (cfg_backend (conf s)) (cfg_env (conf s)) etf (etr_ram_size (buf s))\<rparr>)"

text \<open>
  One turn of the polling loop, the child still being there: what the hardware did since the
  turn before, what the two \<open>kill\<close> calls answer if the threshold is passed, and the system.
  \<open>None\<close> continues the loop; otherwise it is left for the \<open>killed\<close> or the \<open>exit\<close> label.
\<close>

datatype kill_result = Kill_OK | Kill_ESRCH | Kill_Error

datatype poll_exit = Killed | Exit int

record 'h poll_env =
  pl_run :: "'h \<Rightarrow> 'h"
  pl_stop :: kill_result
  pl_cont :: kill_result
  pl_sys :: sys_env

definition hw_runs :: "('h \<Rightarrow> 'h) \<Rightarrow> ('h, 'd) session \<Rightarrow> ('h, 'd) session" where
  "hw_runs f s = s\<lparr>cs := (cs s)\<lparr>hw := f (hw (cs s))\<rparr>\<rparr>"

lemma hw_runs_id [simp]: "hw_runs id s = s"
  by (simp add: hw_runs_def)

definition poll_round ::
  "'h csal \<Rightarrow> 'h etr_lib \<Rightarrow> 'd declib \<Rightarrow> 'h poll_env \<Rightarrow> u64 \<Rightarrow> ('h, 'd) session
   \<Rightarrow> (poll_exit option \<times> u64 \<times> ('h, 'd) session) outcome" where
  "poll_round H E L p init_pos s =
     (let s = hw_runs (pl_run p) s;
          curr_offset = cs_get_buffer_rwp E (hw (cs s)) - init_pos
      in if \<not> curr_offset > drain_threshold s then Returns (None, init_pos, s)
         else
           (case pl_stop p of
              Kill_ESRCH \<Rightarrow> Returns (Some Killed, init_pos, s)
            | Kill_Error \<Rightarrow> Returns (Some (Exit (- 1)), init_pos, s)
            | Kill_OK \<Rightarrow>
                let s = s\<lparr>ev_suspend := False\<rparr>;
                    (r, s) = disable_cs_trace H False s
                in if r < 0 then Returns (Some (Exit r), init_pos, s)
                   else
                     obind (session_fetch E (pl_sys p) s) (\<lambda>(_, s).
                       let init_pos = cs_get_buffer_rwp E (hw (cs s))
                       in obind (or_dies (enable_cs_trace H (child_pid s) s)) (\<lambda>(_, s).
                            case pl_cont p of
                              Kill_ESRCH \<Rightarrow> Returns (Some Killed, init_pos, s)
                            | Kill_Error \<Rightarrow> Returns (Some (Exit (- 1)), init_pos, s)
                            | Kill_OK \<Rightarrow>
                                let (r, s) = session_decode L s
                                in Returns (if r < 0
                                            then (Some (Exit r), init_pos, export_failed_trace (pl_sys p) s)
                                            else (None, init_pos, s))))))"

text \<open>The loop ends in \<open>killed\<close> when \<open>kill(child_pid, 0)\<close> finds no process.\<close>

fun poll_rounds ::
  "'h csal \<Rightarrow> 'h etr_lib \<Rightarrow> 'd declib \<Rightarrow> 'h poll_env list \<Rightarrow> u64 \<Rightarrow> ('h, 'd) session
   \<Rightarrow> (poll_exit \<times> ('h, 'd) session) outcome" where
  "poll_rounds H E L [] init_pos s = Returns (Killed, s)"
| "poll_rounds H E L (p # ps) init_pos s =
     obind (poll_round H E L p init_pos s)
       (\<lambda>(x, init_pos, s). case x of Some e \<Rightarrow> Returns (e, s) | None \<Rightarrow> poll_rounds H E L ps init_pos s)"

text \<open>\<open>trace_sink_polling\<close> up to the \<open>killed\<close> label.\<close>

definition trace_sink_polling ::
  "'h csal \<Rightarrow> 'h etr_lib \<Rightarrow> 'd declib \<Rightarrow> 'h poll_env list \<Rightarrow> ('h, 'd) session
   \<Rightarrow> (poll_exit \<times> ('h, 'd) session) outcome" where
  "trace_sink_polling H E L ps s =
     (let s = s\<lparr>ready := False\<rparr>
      in poll_rounds H E L ps (cs_get_buffer_rwp E (hw (cs s))) s)"

text \<open>From the \<open>killed\<close> label, once the stop event has come, to the publication of \<open>decoder_ready\<close>.\<close>

definition poll_final ::
  "'h etr_lib \<Rightarrow> 'd declib \<Rightarrow> sys_env \<Rightarrow> poll_exit \<Rightarrow> ('h, 'd) session \<Rightarrow> ('h, 'd) session outcome" where
  "poll_final E L sys e s =
     (case e of
        Exit r \<Rightarrow> Returns (s\<lparr>ready := True\<rparr>)
      | Killed \<Rightarrow>
          obind (session_fetch E sys (s\<lparr>ev_stop := False\<rparr>)) (\<lambda>(_, s).
            let (r, s) = session_decode L s;
                s = (if r < 0 then export_failed_trace sys s else s)
            in Returns (s\<lparr>ready := True\<rparr>)))"

section \<open>Start and stop\<close>

definition clear_bitmap :: "'d dec_state \<Rightarrow> 'd dec_state" where
  "clear_bitmap d =
     d\<lparr>trace_bitmap :=
         map_option (\<lambda>m. replicate (trace_bitmap_size d) 0 @ drop (trace_bitmap_size d) m) (trace_bitmap d)\<rparr>"

definition start_trace ::
  "'h csal \<Rightarrow> 'd declib \<Rightarrow> sys_env \<Rightarrow> int \<Rightarrow> bool \<Rightarrow> ('h, 'd) session \<Rightarrow> (int \<times> ('h, 'd) session) outcome" where
  "start_trace H L sys pid use_pid_trace s =
     (let r = set_cpu_affinity (sy_setaffinity sys pid) (sy_nprocs sys) (trace_cpu s)
      in if r < 0 then Returns (r, s)
         else
           let s = s\<lparr>buf := snd (alloc_trace_buf (direct_read s) (sy_mmap sys) (buf s))\<rparr>;
               s = s\<lparr>dec := clear_bitmap (dec s)\<rparr>;
               s = (if decoding_on s then s\<lparr>ready := False\<rparr> else s);
               (r, s) = (if decoding_on s
                         then (let (r, d) = reset_decoder (cfg_backend (conf s)) L (ranges s) (dec s)
                               in (r, s\<lparr>dec := d\<rparr>))
                         else (r, s))
           in if r < 0 then Returns (r, s)
              else
                let s = s\<lparr>child_pid := pid\<rparr>
                in obind (or_dies (enable_cs_trace H (if use_pid_trace then pid else 0) s)) (\<lambda>(r, s).
                     Returns (if r < 0 then (r, s)
                              else (r, (set_trace_state running_state s)\<lparr>ev_start := True\<rparr>))))"

text \<open>
  \<open>worker\<close> is what the decoder thread does from the stop event until it blocks again; if it
  has not published \<open>decoder_ready\<close> by then, \<open>stop_trace\<close> waits for ever.
\<close>

definition stop_trace ::
  "'h csal \<Rightarrow> 'h etr_lib \<Rightarrow> sys_env \<Rightarrow> (('h, 'd) session \<Rightarrow> ('h, 'd) session outcome) \<Rightarrow> bool
   \<Rightarrow> ('h, 'd) session \<Rightarrow> (int \<times> ('h, 'd) session) outcome" where
  "stop_trace H E sys worker disable_all s =
     (let (ret, s) = disable_cs_trace H disable_all s
      in if ret < 0 then Returns (ret, s)
         else
           let s = set_trace_state ready_state s
           in if decoding_on s
              then obind (worker (s\<lparr>ev_stop := True\<rparr>)) (\<lambda>s. if ready s then Returns (ret, s) else Loops)
              else obind (session_fetch E sys s) (\<lambda>(r, s). Returns (if r < 0 then - 1 else ret, s)))"

definition trace_suspend_resume_callback :: "('h, 'd) session \<Rightarrow> ('h, 'd) session" where
  "trace_suspend_resume_callback s = (set_trace_state suspended_state s)\<lparr>ev_suspend := True\<rparr>"

definition trace_child_exited_callback :: "('h, 'd) session \<Rightarrow> ('h, 'd) session" where
  "trace_child_exited_callback s = s\<lparr>ev_suspend := True\<rparr>"

section \<open>Initialisation and the end\<close>

text \<open>
  The core to trace on. In the code the fallback reads
  \<open>preferred_cpu = find_free_cpu() < 0\<close>: the comparison is evaluated first.
\<close>

definition choose_trace_cpu :: "sys_env \<Rightarrow> int \<Rightarrow> int \<Rightarrow> int" where
  "choose_trace_cpu sys parent_pid cpu =
     (if cpu < 0
      then
        let preferred_cpu = get_preferred_cpu (sy_rd sys) (sy_nprocs sys) (sy_affinity sys parent_pid);
            preferred_cpu = (if preferred_cpu < 0
                             then (if find_free_cpu (sy_nprocs sys) (sy_proc sys) < 0 then 1 else 0)
                             else preferred_cpu)
        in if preferred_cpu \<ge> 0 then preferred_cpu else DEFAULT_TRACE_CPU
      else cpu)"

text \<open>The board's numbers and devices, as the configuration code reads them.\<close>

definition set_board :: "board \<Rightarrow> board_devices \<Rightarrow> cs_cfg \<Rightarrow> cs_cfg" where
  "set_board b d c =
     c\<lparr>cfg_etb := (case bd_etb d of None \<Rightarrow> cfg_etb c | Some e \<Rightarrow> e),
       cfg_sinks := take (bd_num_trace_sinks d) (bd_trace_sinks d),
       cfg_sink0 := (case bd_trace_sinks d of [] \<Rightarrow> None | x # _ \<Rightarrow> Some x),
       cfg_n_cpu := n_cpu b, cfg_axictl := axictl b\<rparr>"

text \<open>The decoder's part of \<open>init_trace\<close>: the handle, Stalker's set-up, the thread, which runs up to its
  first wait, and its core.\<close>

definition init_decoding ::
  "'h csal \<Rightarrow> 'd declib \<Rightarrow> sys_env \<Rightarrow> int \<Rightarrow> ('h, 'd) session \<Rightarrow> int \<times> ('h, 'd) session" where
  "init_decoding H L sys pid s =
     (let B = cfg_backend (conf s);
          (ok, d) = init_decoder B L (sy_bitmap_mem sys) (ranges s) (dec s);
          s = s\<lparr>dec := d\<lparr>decoder := ok\<rparr>\<rparr>
      in if \<not> ok then (- 1, s)
         else
           let (r, d) = (case B of
                           Stalker \<Rightarrow> stalker_setup L (cfg_env (conf s)) pid (ranges s) (trace_id (dec s)) (dec s)
                         | Armored \<Rightarrow> (0, dec s));
               s = s\<lparr>dec := d\<rparr>
           in if r < 0 then (- 1, s)
              else
                let s = s\<lparr>ready := False\<rparr>;
                    r = sy_pthread_create sys
                in if r \<noteq> 0 then (r, s)
                   else
                     let s = decoder_worker H (s\<lparr>has_thread := True\<rparr>);
                         cpu = get_preferred_cpu (sy_rd sys) (sy_nprocs sys) (sy_affinity sys pid);
                         cpu = (if cpu < 0 \<or> cpu = trace_cpu s then DEFAULT_DECODER_CPU else cpu);
                         aff = set_pthread_cpu_affinity (sy_setaffinity_np sys) (sy_nprocs sys) cpu
                     in (0, s\<lparr>decoder_cpu := (if aff < 0 then None else Some cpu)\<rparr>))"

definition init_steps ::
  "'h csal \<Rightarrow> 'h board_setup \<Rightarrow> 'd declib \<Rightarrow> sys_env \<Rightarrow> int \<Rightarrow> int \<Rightarrow> ('h, 'd) session \<Rightarrow> int \<times> ('h, 'd) session" where
  "init_steps H setup L sys parent_pid pid s =
     (let s = s\<lparr>trace_cpu := choose_trace_cpu sys parent_pid (trace_cpu s)\<rparr>;
          (r, addr, sz) = get_udmabuf_info (sy_isdir sys) (sy_rd sys) (udmabuf_num s)
             (etr_ram_addr (buf s)) (etr_ram_size (buf s));
          s = s\<lparr>buf := (buf s)\<lparr>etr_ram_addr := addr, etr_ram_size := sz\<rparr>,
                conf := (conf s)\<lparr>cfg_etr_addr := addr, cfg_etr_size := sz\<rparr>\<rparr>
      in if r < 0 then (- 1, s)
         else
           let (n, infos) = setup_map_info (sy_files sys) (cfg_env (conf s)) (sy_maps sys pid) (sy_vars sys) RANGE_MAX;
               s = s\<lparr>ranges := infos\<rparr>
           in if n < 0 then (- 1, s)
              else
                (case setup (board_name s) known_boards (hw (cs s)) of
                   None \<Rightarrow> (- 1, s)
                 | Some (b, d, h) \<Rightarrow>
                     let s = s\<lparr>conf := set_board b d (conf s), cs := (cs s)\<lparr>hw := h\<rparr>\<rparr>;
                         tid = get_trace_id (board_name s) (trace_cpu s);
                         s = s\<lparr>dec := (dec s)\<lparr>trace_id := tid\<rparr>\<rparr>
                     in if tid < 0 then (- 1, s)
                        else if decoding_on s then init_decoding H L sys pid s else (0, s)))"

definition init_trace ::
  "'h csal \<Rightarrow> 'h board_setup \<Rightarrow> 'd declib \<Rightarrow> sys_env \<Rightarrow> int \<Rightarrow> int \<Rightarrow> ('h, 'd) session
   \<Rightarrow> int \<times> ('h, 'd) session" where
  "init_trace H setup L sys parent_pid pid s =
     (let (r, s) = init_steps H setup L sys parent_pid pid s
      in if r \<noteq> 0 then (r, s\<lparr>cs := (cs s)\<lparr>hw := cs_shutdown H (hw (cs s))\<rparr>\<rparr>)
         else (0, set_trace_state ready_state s))"

definition fini_trace ::
  "'h csal \<Rightarrow> 'h etr_lib \<Rightarrow> 'd declib \<Rightarrow> sys_env \<Rightarrow> ('h, 'd) session \<Rightarrow> ('h, 'd) session outcome" where
  "fini_trace H E L sys s =
     obind (if decoding_on s
            then Returns (0, (set_trace_state fini_state s)\<lparr>ev_fini := True, has_thread := False\<rparr>)
            else session_fetch E sys s) (\<lambda>(_, s).
       let (_, s) = export_trace sys ''cstrace.bin'' ''decoderargs.txt'' s;
           (_, d) = fini_decoder (cfg_backend (conf s)) L (dec s);
           s = s\<lparr>dec := d\<rparr>;
           (b, h) = free_trace_buf E True (buf s, hw (cs s));
           s = s\<lparr>buf := b, cs := (cs s)\<lparr>hw := cs_shutdown H h\<rparr>\<rparr>
       in Returns s)"

section \<open>What the switching routines leave alone\<close>

lemma disable_cs_trace_frame [frame_simps]:
  "snd (disable_cs_trace H a s) = s\<lparr>cs := snd (disable_trials H (conf s) a TRACE_DISABLE_TRIAL (- 1) (cs s))\<rparr>"
  by (simp add: disable_cs_trace_def case_prod_beta Let_def)

lemma enable_cs_trace_frame:
  assumes "enable_cs_trace H pid s = Some (r, s')"
  shows "buf s' = buf s \<and> dec s' = dec s \<and> conf s' = conf s \<and> ranges s' = ranges s \<and>
    decoding_on s' = decoding_on s \<and> ready s' = ready s \<and> child_pid s' = child_pid s \<and>
    udmabuf_num s' = udmabuf_num s \<and> ev_start s' = ev_start s \<and> tstate s' = tstate s \<and>
    current_bb_mode s' = current_bb_mode s \<and> drain_threshold s' = drain_threshold s"
  using assms
  by (auto simp: enable_cs_trace_def first_enable_def fail_shutdown_def Let_def case_prod_beta
      split: if_splits option.splits)

text \<open>What a \<open>start_trace\<close> that succeeds has set up.\<close>

lemma start_trace_success:
  assumes "start_trace H L sys pid use s = Returns (r, s')" and "0 \<le> r" and "decoding_on s"
  shows "buf s' = snd (alloc_trace_buf (direct_read s) (sy_mmap sys) (buf s)) \<and>
    dec s' = snd (reset_decoder (cfg_backend (conf s)) L (ranges s) (clear_bitmap (dec s))) \<and>
    conf s' = conf s \<and> decoding_on s' \<and> \<not> ready s' \<and> ev_start s' \<and> child_pid s' = pid \<and>
    udmabuf_num s' = udmabuf_num s \<and> tstate s' = running_state \<and> drain_threshold s' = drain_threshold s \<and>
    0 \<le> fst (reset_decoder (cfg_backend (conf s)) L (ranges s) (clear_bitmap (dec s)))"
proof -
  let ?R = "reset_decoder (cfg_backend (conf s)) L (ranges s) (clear_bitmap (dec s))"
  let ?s1 = "s\<lparr>buf := snd (alloc_trace_buf (direct_read s) (sy_mmap sys) (buf s)), ready := False, dec := snd ?R,
    child_pid := pid\<rparr>"
  have a: "\<not> set_cpu_affinity (sy_setaffinity sys pid) (sy_nprocs sys) (trace_cpu s) < 0"
    and r: "\<not> fst ?R < 0"
    using assms by (auto simp: start_trace_def Let_def case_prod_beta split: if_splits)
  obtain r2 s2 where e: "enable_cs_trace H (if use then pid else 0) ?s1 = Some (r2, s2)"
    and s': "r2 = r" "s' = (set_trace_state running_state s2)\<lparr>ev_start := True\<rparr>"
    using assms a r
    by (cases "enable_cs_trace H (if use then pid else 0) ?s1")
      (auto simp: start_trace_def Let_def case_prod_beta or_dies_def split: if_splits)
  show ?thesis
    using enable_cs_trace_frame [OF e] r assms(3) by (simp add: s' set_trace_state_def)
qed

section \<open>An execution's map is its own\<close>

text \<open>What the system must answer for the trace buffer to be filled and grown.\<close>

definition maps_ok :: "('h, 'd) session \<Rightarrow> sys_env \<Rightarrow> bool" where
  "maps_ok s sys \<longleftrightarrow>
     (direct_read s \<longrightarrow> etr_map_open sys (udmabuf_num s)) \<and> (\<exists>q. sy_mremap sys = Some q \<and> user_addr q)"

text \<open>
  The hardware states the polling loop drains, each as the switched-off trace left it; and \<open>D\<close>
  naming what the ETR hands over in each state, in whole trace frames.
\<close>

fun drained ::
  "'h csal \<Rightarrow> 'h etr_lib \<Rightarrow> 'd declib \<Rightarrow> 'h poll_env list \<Rightarrow> u64 \<Rightarrow> ('h, 'd) session \<Rightarrow> 'h list" where
  "drained H E L [] init_pos s = []"
| "drained H E L (p # ps) init_pos s =
     (let s1 = hw_runs (pl_run p) s
      in (if cs_get_buffer_rwp E (hw (cs s1)) - init_pos > drain_threshold s1 \<and> pl_stop p = Kill_OK
          then [hw (cs (snd (disable_cs_trace H False s1)))] else []) @
         (case poll_round H E L p init_pos s of
            Returns (None, init_pos, s) \<Rightarrow> drained H E L ps init_pos s
          | _ \<Rightarrow> []))"

definition etr_gives :: "'h etr_lib \<Rightarrow> ('h, 'd) session \<Rightarrow> ('h \<Rightarrow> u8 list) \<Rightarrow> bool" where
  "etr_gives E s D \<longleftrightarrow>
     (\<forall>h. delivers E (direct_read s) (etr_ram_addr (buf s)) (etr_ram_size (buf s)) h (D h) \<and> length (D h) mod 8 = 0)"

text \<open>
  The state of an execution between two steps of the decoder thread: \<open>T\<close> has been captured in at
  most \<open>n\<close> fetches, and the decoder has been given what is decoded of it.
\<close>

definition exec_inv :: "'d declib \<Rightarrow> ('h, 'd) session \<Rightarrow> 'd dec_state \<Rightarrow> nat \<Rightarrow> u8 list \<Rightarrow> ('h, 'd) session \<Rightarrow> bool" where
  "exec_inv L s0 d0 n T s \<longleftrightarrow>
     buf_inv (buf s) \<and> captured (buf s) = T \<and> length T mod 8 = 0 \<and> length T \<le> n * 2 ^ 31 \<and>
     decoded_len (buf s) \<le> length T \<and>
     (\<exists>passes. dec s = run_passes (cfg_backend (conf s0)) L passes d0 \<and> concat passes = take (decoded_len (buf s)) T) \<and>
     etr_ram_addr (buf s) = etr_ram_addr (buf s0) \<and> etr_ram_size (buf s) = etr_ram_size (buf s0) \<and>
     conf s = conf s0 \<and> udmabuf_num s = udmabuf_num s0 \<and> decoding_on s = decoding_on s0"

lemma exec_inv_cong:
  assumes "buf s' = buf s" and "dec s' = dec s" and "conf s' = conf s" and "udmabuf_num s' = udmabuf_num s"
    and "decoding_on s' = decoding_on s"
  shows "exec_inv L s0 d0 n T s' = exec_inv L s0 d0 n T s"
  using assms by (simp add: exec_inv_def)

lemma exec_inv_updates [simp]:
  "exec_inv L s0 d0 n T (s\<lparr>cs := k\<rparr>) = exec_inv L s0 d0 n T s"
  "exec_inv L s0 d0 n T (s\<lparr>ready := b\<rparr>) = exec_inv L s0 d0 n T s"
  "exec_inv L s0 d0 n T (s\<lparr>ev_start := b\<rparr>) = exec_inv L s0 d0 n T s"
  "exec_inv L s0 d0 n T (s\<lparr>ev_stop := b\<rparr>) = exec_inv L s0 d0 n T s"
  "exec_inv L s0 d0 n T (s\<lparr>ev_suspend := b\<rparr>) = exec_inv L s0 d0 n T s"
  "exec_inv L s0 d0 n T (s\<lparr>tstate := t\<rparr>) = exec_inv L s0 d0 n T s"
  "exec_inv L s0 d0 n T (set_trace_state t s) = exec_inv L s0 d0 n T s"
  "exec_inv L s0 d0 n T (hw_runs f s) = exec_inv L s0 d0 n T s"
  by (simp_all add: exec_inv_def set_trace_state_def hw_runs_def)

lemma exec_inv_disable:
  "exec_inv L s0 d0 n T (snd (disable_cs_trace H a s)) = exec_inv L s0 d0 n T s"
  by (simp add: disable_cs_trace_frame)

text \<open>A fetch appends what the ETR gives.\<close>

lemma session_fetch_exec:
  assumes "exec_inv L s0 d0 n T s" and "etr_gives E s0 D" and "maps_ok s0 sys" and "n < 2 ^ 13"
  shows "\<exists>s'. session_fetch E sys s = Returns (0, s') \<and> exec_inv L s0 d0 (Suc n) (T @ D (hw (cs s))) s' \<and>
    (\<exists>b h. s' = s\<lparr>buf := b, cs := (cs s)\<lparr>hw := h\<rparr>\<rparr>)"
proof -
  let ?data = "D (hw (cs s))"
  note I = assms(1) [unfolded exec_inv_def]
  have dr: "direct_read s = direct_read s0" using I by (simp add: direct_read_def)
  have g: "delivers E (direct_read s) (etr_ram_addr (buf s)) (etr_ram_size (buf s)) (hw (cs s)) ?data"
    and m: "length ?data mod 8 = 0" and small: "length ?data < 2 ^ 31"
    using assms(2) I dr by (auto simp: etr_gives_def delivers_def)
  obtain q where q: "sy_mremap sys = Some q" "user_addr q" using assms(3) by (auto simp: maps_ok_def)
  have p8: "pad8 (length (captured (buf s))) = length T" using I by (simp add: pad8_id)
  have "length T \<le> 2 ^ 13 * 2 ^ 31" using I assms(4) by (meson le_trans less_imp_le mult_le_mono1)
  then have fits: "pad8 (length (captured (buf s))) + length ?data \<le> 2 ^ 45" using small p8 by simp
  have ok: "direct_read s \<longrightarrow> etr_mapped (buf s) \<or> etr_map_open sys (udmabuf_num s)"
    using assms(3) I dr by (auto simp: maps_ok_def)
  obtain b h where f: "fetch_trace E (direct_read s) (etr_map_open sys (udmabuf_num s)) (Some q) (buf s) (hw (cs s)) =
        Returns (0, b, h)" and b: "buf_inv b" "captured b = take (pad8 (length (captured (buf s)))) (buf_mem (buf s)) @ ?data"
      "decoded_len b = decoded_len (buf s)" "etr_ram_addr b = etr_ram_addr (buf s)" "etr_ram_size b = etr_ram_size (buf s)"
    using fetch_trace_appends [OF _ g ok q(2) fits] I by auto
  have T: "take (length T) (buf_mem (buf s)) = T" using I by (auto simp: captured_def min_def)
  let ?s' = "s\<lparr>buf := b, cs := (cs s)\<lparr>hw := h\<rparr>\<rparr>"
  have "exec_inv L s0 d0 (Suc n) (T @ ?data) ?s'"
    using I b m small T p8 by (simp add: exec_inv_def mod_add_eq [symmetric])
  with f q show ?thesis by (auto simp: session_fetch_def)
qed

text \<open>A decode pass is given what was not decoded yet.\<close>

lemma session_decode_exec:
  assumes "exec_inv L s0 d0 n T s" and "session_decode L s = (r, s')"
  shows "\<exists>passes. dec s' = run_passes (cfg_backend (conf s0)) L passes d0 \<and> concat passes = T"
    and "captured (buf s') = T" and "0 \<le> r \<Longrightarrow> exec_inv L s0 d0 n T s'"
proof -
  note I = assms(1) [unfolded exec_inv_def]
  obtain passes where ps: "dec s = run_passes (cfg_backend (conf s0)) L passes d0" "concat passes = take (decoded_len (buf s)) T"
    using I by blast
  let ?B = "cfg_backend (conf s0)" and ?rest = "drop (decoded_len (buf s)) T"
  let ?R = "run_decoder ?B L ?rest (dec s)"
  have d: "decode_trace ?B L (buf s) (dec s) =
      (fst ?R, if fst ?R < 0 then buf s else (buf s)\<lparr>decoded_trace_buf := trace_buf_ptr (buf s)\<rparr>, snd ?R)"
    using I by (simp add: decode_trace_buffer Let_def case_prod_beta)
  have s': "r = fst ?R" "s' = s\<lparr>buf := (if fst ?R < 0 then buf s
      else (buf s)\<lparr>decoded_trace_buf := trace_buf_ptr (buf s)\<rparr>), dec := snd ?R\<rparr>"
    using assms(2) I d by (auto simp: session_decode_def)
  have "dec s' = run_passes ?B L (passes @ [?rest]) d0" "concat (passes @ [?rest]) = T"
    using ps by (simp_all add: s' run_passes_def)
  then show P: "\<exists>passes. dec s' = run_passes ?B L passes d0 \<and> concat passes = T" by blast
  show "captured (buf s') = T" using I by (simp add: s' captured_def)
  show "exec_inv L s0 d0 n T s'" if "0 \<le> r"
  proof -
    let ?b = "(buf s)\<lparr>decoded_trace_buf := trace_buf_ptr (buf s)\<rparr>"
    have b: "buf s' = ?b" using that by (simp add: s')
    have "buf_inv ?b" "captured ?b = T" using I by (auto simp: buf_inv_def captured_def)
    moreover from this have "decoded_len ?b = length T" using length_captured [of ?b] by (simp add: decoded_len_def)
    ultimately show ?thesis using I P by (simp add: exec_inv_def b) (simp add: s')
  qed
qed

lemma enable_exec:
  assumes "enable_cs_trace H pid s = Some (r, s')"
  shows "exec_inv L s0 d0 n T s' = exec_inv L s0 d0 n T s"
  using enable_cs_trace_frame [OF assms] by (intro exec_inv_cong) simp_all

lemma export_failed_trace_frame [frame_simps]:
  "dec (export_failed_trace sys s) = dec s" "buf (export_failed_trace sys s) = buf s"
  "decoding_on (export_failed_trace sys s) = decoding_on s"
  by (simp_all add: export_failed_trace_def export_trace_def Let_def split: option.split)

lemma poll_round_exec:
  assumes "exec_inv L s0 d0 n T s" and "etr_gives E s0 D" and "maps_ok s0 (pl_sys p)"
    and "poll_round H E L p pos s = Returns (x, pos', s')" and "x = None \<or> x = Some Killed"
  defines "t \<equiv> hw_runs (pl_run p) s"
  defines "hs \<equiv> if cs_get_buffer_rwp E (hw (cs t)) - pos > drain_threshold t \<and> pl_stop p = Kill_OK
      then [hw (cs (snd (disable_cs_trace H False t)))] else []"
  assumes "n + length hs < 2 ^ 13"
  shows "exec_inv L s0 d0 (n + length hs) (T @ concat (map D hs)) s'"
proof (cases "hs = []")
  case True
  then have "s' = t" "hs = []"
    using assms(4,5) by (auto simp: poll_round_def hs_def t_def [symmetric] Let_def split: if_splits kill_result.splits)
  with assms(1) show ?thesis by (simp add: t_def)
next
  case False
  define u where "u = snd (disable_cs_trace H False (t\<lparr>ev_suspend := False\<rparr>))"
  have go: "drain_threshold t < cs_get_buffer_rwp E (hw (cs t)) - pos" "pl_stop p = Kill_OK"
    using False by (auto simp: hs_def split: if_splits)
  then have hs: "hs = [hw (cs u)]" and n: "n < 2 ^ 13"
    using assms(8) by (simp_all add: hs_def u_def disable_cs_trace_frame)
  have "exec_inv L s0 d0 n T u" using assms(1) by (simp add: u_def t_def exec_inv_disable)
  from session_fetch_exec [OF this assms(2,3) n] obtain v where
    v: "session_fetch E (pl_sys p) u = Returns (0, v)" "exec_inv L s0 d0 (Suc n) (T @ D (hw (cs u))) v" by blast
  obtain r w where w: "enable_cs_trace H (child_pid v) v = Some (r, w)"
    using assms(4,5) go v(1)
    by (cases "enable_cs_trace H (child_pid v) v")
      (auto simp: poll_round_def t_def [symmetric] u_def [symmetric] Let_def case_prod_beta or_dies_def
        split: if_splits)
  have i: "exec_inv L s0 d0 (Suc n) (T @ D (hw (cs u))) w" using v(2) enable_exec [OF w] by simp
  have "s' = w \<or> (\<exists>r. session_decode L w = (r, s') \<and> 0 \<le> r)"
    using assms(4,5) go v(1) w
    by (auto simp: poll_round_def t_def [symmetric] u_def [symmetric] Let_def case_prod_beta or_dies_def prod_eq_iff
        split: if_splits kill_result.splits)
  then show ?thesis using i session_decode_exec(3) [OF i] by (auto simp: hs)
qed

lemma poll_rounds_exec:
  assumes "exec_inv L s0 d0 n T s" and "etr_gives E s0 D" and "\<forall>p \<in> set ps. maps_ok s0 (pl_sys p)"
    and "poll_rounds H E L ps pos s = Returns (Killed, s')" and "n + length (drained H E L ps pos s) < 2 ^ 13"
  shows "exec_inv L s0 d0 (n + length (drained H E L ps pos s)) (T @ concat (map D (drained H E L ps pos s))) s'"
  using assms
proof (induction ps arbitrary: n T pos s)
  case (Cons p ps)
  let ?t = "hw_runs (pl_run p) s"
  define hs where "hs = (if cs_get_buffer_rwp E (hw (cs ?t)) - pos > drain_threshold ?t \<and> pl_stop p = Kill_OK
      then [hw (cs (snd (disable_cs_trace H False ?t)))] else [])"
  obtain x pos1 s1 where r: "poll_round H E L p pos s = Returns (x, pos1, s1)"
    using Cons.prems(4) by (cases "poll_round H E L p pos s") auto
  have x: "x = None \<or> x = Some Killed" using Cons.prems(4) r by (auto split: option.splits)
  have d: "drained H E L (p # ps) pos s = hs @ (case x of None \<Rightarrow> drained H E L ps pos1 s1 | Some _ \<Rightarrow> [])"
    by (simp add: r hs_def Let_def split: option.split)
  have i: "exec_inv L s0 d0 (n + length hs) (T @ concat (map D hs)) s1"
    unfolding hs_def using Cons.prems(5) d
    by (intro poll_round_exec [OF Cons.prems(1,2) _ r x]) (use Cons.prems(3) in \<open>auto simp: hs_def\<close>)
  show ?case
  proof (cases x)
    case None
    then have "poll_rounds H E L ps pos1 s1 = Returns (Killed, s')" using Cons.prems(4) r by simp
    with Cons.IH [OF i Cons.prems(2)] Cons.prems(3,5) d None show ?thesis by (simp add: add.assoc)
  next
    case (Some e)
    with x Cons.prems(4) r i d show ?thesis by auto
  qed
qed simp

text \<open>The state \<open>start_trace\<close> hands to the decoder thread.\<close>

lemma start_trace_exec:
  assumes "start_trace H L sys pid use s0 = Returns (r, s1)" and "0 \<le> r" and "decoding_on s0"
    and "sy_mmap sys = Some p" and "user_addr p"
    and "trace_buf (buf s0) \<noteq> 0 \<and> direct_read s0 \<Longrightarrow> buf_inv (buf s0)"
    and "unat (etr_ram_size (buf s0)) \<le> 2 ^ 46" and "unat (etr_ram_size (buf s0)) mod 8 = 0"
  shows "exec_inv L s0 (snd (reset_decoder (cfg_backend (conf s0)) L (ranges s0) (clear_bitmap (dec s0)))) 0 [] s1"
proof -
  note st = start_trace_success [OF assms(1-3)]
  have al: "alloc_trace_buf (direct_read s0) (Some p) (buf s0) = (0, buf s1)"
    using st assms(4) by (auto simp: alloc_trace_buf_def Let_def)
  have "\<exists>passes. d = run_passes B L passes d \<and> concat passes = []" for B and d :: "'b dec_state"
    by (rule exI [of _ "[]"]) (simp add: run_passes_def)
  with alloc_trace_buf_spec [OF al assms(5-8)] st assms(3) show ?thesis by (simp add: exec_inv_def)
qed

text \<open>From the stop event to the return of \<open>stop_trace\<close>.\<close>

lemma stop_trace_exec:
  assumes "exec_inv L s0 d0 n T s" and "etr_gives E s0 D" and "maps_ok s0 sys" and "n < 2 ^ 13" and "decoding_on s0"
    and "disable_cs_trace H a s = (0, s1)"
  shows "\<exists>s2 passes. stop_trace H E sys (poll_final E L sys Killed) a s = Returns (0, s2) \<and>
    dec s2 = run_passes (cfg_backend (conf s0)) L passes d0 \<and> concat passes = T @ D (hw (cs s1)) \<and>
    captured (buf s2) = T @ D (hw (cs s1)) \<and> decoding_on s2"
proof -
  define t where "t = (set_trace_state ready_state s1)\<lparr>ev_stop := False\<rparr>"
  have "exec_inv L s0 d0 n T s1" using assms(1,6) exec_inv_disable [of L s0 d0 n T H a s] by simp
  then have "exec_inv L s0 d0 n T t" "decoding_on s1" "hw (cs t) = hw (cs s1)"
    using assms(5) by (simp_all add: t_def exec_inv_def set_trace_state_def)
  moreover from session_fetch_exec [OF this(1) assms(2-4)] obtain u where
    u: "session_fetch E sys t = Returns (0, u)" "exec_inv L s0 d0 (Suc n) (T @ D (hw (cs t))) u" by blast
  obtain r v where v: "session_decode L u = (r, v)" by fastforce
  moreover have "decoding_on v"
    using u(2) assms(5) v by (auto simp: session_decode_def exec_inv_def case_prod_beta Let_def)
  moreover have "((set_trace_state ready_state s1)\<lparr>ev_stop := True\<rparr>)\<lparr>ev_stop := False\<rparr> = t" by (simp add: t_def)
  ultimately show ?thesis
    using assms(6) u(1) session_decode_exec(1,2) [OF u(2) v]
    by (auto simp: stop_trace_def set_trace_state_def [of _ s1] poll_final_def Let_def frame_simps)
qed

text \<open>The decoder thread's whole work on one execution.\<close>

lemma polled_execution:
  assumes "exec_inv L s0 d0 0 [] s" and "etr_gives E s0 D" and "decoding_on s0"
    and "maps_ok s0 sys" and "\<forall>q \<in> set ps. maps_ok s0 (pl_sys q)"
    and "trace_sink_polling H E L ps ((hw_runs run s)\<lparr>ev_start := False\<rparr>) = Returns (Killed, s2)"
    and "disable_cs_trace H False (hw_runs rest s2) = (0, s3)"
    and "hs = drained H E L ps (cs_get_buffer_rwp E (run (hw (cs s)))) ((hw_runs run s)\<lparr>ev_start := False, ready := False\<rparr>)"
    and "length hs < 2 ^ 13"
  shows "\<exists>s4 passes.
    stop_trace H E sys (poll_final E L sys Killed) False (hw_runs rest s2) = Returns (0, s4) \<and>
    dec s4 = run_passes (cfg_backend (conf s0)) L passes d0 \<and>
    concat passes = concat (map D (hs @ [hw (cs s3)])) \<and> captured (buf s4) = concat passes \<and> decoding_on s4"
proof -
  let ?t = "(hw_runs run s)\<lparr>ev_start := False, ready := False\<rparr>"
  have t: "exec_inv L s0 d0 0 [] ?t" using assms(1) by simp
  have "poll_rounds H E L ps (cs_get_buffer_rwp E (run (hw (cs s)))) ?t = Returns (Killed, s2)"
    using assms(6) by (simp add: trace_sink_polling_def hw_runs_def)
  from poll_rounds_exec [OF t assms(2,5) this] assms(8,9)
  have "exec_inv L s0 d0 (length hs) (concat (map D hs)) (hw_runs rest s2)" by simp
  from stop_trace_exec [OF this assms(2,4,9,3,7)] show ?thesis by (elim exE, intro exI) (simp, force)
qed

text \<open>
  C1: What AFL++ is shown for an execution comes from that execution's trace alone, and from all of
  it. After a \<open>start_trace\<close> that succeeds, let the child run, be drained any number of times while it
  runs and exit, whatever it does to the hardware; if the decoder thread then reaches the \<open>killed\<close>
  label and the trace is switched off, \<open>stop_trace\<close> returns 0, and bitmap, overflow flag and decoder
  state are those of decode passes over exactly the bytes the ETR held at each drain and at the end,
  every byte once and in order, begun with an all-zero bitmap, a lowered overflow flag and the
  decoder just reset. Nothing an earlier execution or a failed attempt left in the bitmap, in the
  trace buffer or in the flag takes part. The hypotheses are the system's contracts: mappings that
  succeed, an ETR that hands over whole trace frames, and fewer than \<open>2\<^sup>1\<^sup>3\<close> drains.
\<close>

theorem execution_map_is_own:
  assumes "start_trace H L sys pid False s0 = Returns (r, s1)" and "0 \<le> r" and "decoding_on s0"
    and "trace_sink_polling H E L ps ((hw_runs run s1)\<lparr>ev_start := False\<rparr>) = Returns (Killed, s2)"
    and "disable_cs_trace H False (hw_runs rest s2) = (0, s3)"
    and "sy_mmap sys = Some p" and "user_addr p" and "maps_ok s0 sys" and "\<forall>q \<in> set ps. maps_ok s0 (pl_sys q)"
    and "trace_buf (buf s0) \<noteq> 0 \<and> direct_read s0 \<Longrightarrow> buf_inv (buf s0)"
    and "unat (etr_ram_size (buf s0)) \<le> 2 ^ 46" and "unat (etr_ram_size (buf s0)) mod 8 = 0"
    and "etr_gives E s0 D"
    and "hs = drained H E L ps (cs_get_buffer_rwp E (run (hw (cs s1)))) ((hw_runs run s1)\<lparr>ev_start := False, ready := False\<rparr>)"
    and "length hs < 2 ^ 13"
  shows "\<exists>s4 d0 passes.
    d0 = snd (reset_decoder (cfg_backend (conf s0)) L (ranges s0) (clear_bitmap (dec s0))) \<and>
    stop_trace H E sys (poll_final E L sys Killed) False (hw_runs rest s2) = Returns (0, s4) \<and>
    dec s4 = run_passes (cfg_backend (conf s0)) L passes d0 \<and>
    concat passes = concat (map D (hs @ [hw (cs s3)])) \<and> captured (buf s4) = concat passes \<and>
    \<not> trace_did_overflow d0 \<and>
    (\<forall>m. trace_bitmap d0 = Some m \<longrightarrow> (\<forall>i < trace_bitmap_size d0. m ! i = 0))"
proof -
  define d0 where "d0 = snd (reset_decoder (cfg_backend (conf s0)) L (ranges s0) (clear_bitmap (dec s0)))"
  have "exec_inv L s0 d0 0 [] s1"
    unfolding d0_def by (rule start_trace_exec [OF assms(1-3,6,7,10-12)])
  note polled_execution [OF this assms(13,3,8,9,4,5,14,15)]
  moreover have "\<not> trace_did_overflow d0" "\<forall>m. trace_bitmap d0 = Some m \<longrightarrow> (\<forall>i < trace_bitmap_size d0. m ! i = 0)"
    using start_trace_success [OF assms(1-3)]
    by (auto simp: d0_def reset_decoder_def trace_did_overflow_def clear_bitmap_def Let_def
        case_prod_beta nth_append split: backend.splits cov_type.splits if_splits)
  ultimately show ?thesis using d0_def by blast
qed

section \<open>A simulated session\<close>

definition const_etr :: "u8 list \<Rightarrow> 'h etr_lib" where
  "const_etr data =
     \<lparr>cs_device_read32x2 = (\<lambda>_ _. 0), cs_buffer_has_wrapped = (\<lambda>_. False),
      cs_get_buffer_unread_bytes = (\<lambda>_. int (length data)), cs_get_buffer_rwp = (\<lambda>_. 0), cs_get_trace_data = (\<lambda>h _. (int (length data), data, h)),
      cs_empty_trace_buffer = id, etr_memory = (\<lambda>_. [])\<rparr>"

definition sim_sys :: sys_env where
  "sim_sys =
     \<lparr>sy_rd = (\<lambda>_. None), sy_isdir = (\<lambda>_. True), sy_nprocs = 4, sy_affinity = (\<lambda>_. None), sy_proc = Some [],
      sy_files = \<lparr>open_file = \<lambda>_. 3, mmap_file = \<lambda>_ _ _. 0x7000\<rparr>, sy_maps = (\<lambda>_. None),
      sy_vars = \<lparr>v_start = 0, v_end = 0, v_x = CHR ''-'', v_offset = 0\<rparr>, sy_setaffinity = (\<lambda>_ _. 0),
      sy_setaffinity_np = (\<lambda>_. 0), sy_pthread_create = 0, sy_mmap = Some 0x10000, sy_mremap = Some 0x20000,
      sy_etr_opens = (\<lambda>_. True), sy_bitmap_mem = Some [0], sy_cwd = Some ''/tmp'', sy_fopen_w = (\<lambda>_. True)\<rparr>"

definition sim_session :: "(sim_hw, u64) session" where
  "sim_session =
     \<lparr>cs = sim_cs_state, conf = sim_cs_cfg Armored (\<lambda>_. None),
      buf = \<lparr>trace_buf = 0, trace_buf_size = 0, trace_buf_ptr = 0, decoded_trace_buf = 0, buf_mem = [],
             etr_mapped = False, etr_ram_addr = 0x10000000, etr_ram_size = 0x100000\<rparr>,
      dec = (dec_state0 0)\<lparr>trace_bitmap := Some [7], trace_overflow_occurred := True\<rparr>,
      board_name = ''ZCU 104'', udmabuf_num = 0, decoding_on = True, trace_cpu = 2, ranges = [],
      child_pid = - 1, is_first_trace = False, trace_ever_configured = True, current_bb_mode = 0,
      tstate = ready_state, ev_start = False, ev_suspend = False, ev_stop = False, ev_fini = False,
      ready = True, has_thread = True, drain_threshold = 0x100000, decoder_cpu = Some 1, failed_exports = 0, args_files = [],
      trace_files = []\<rparr>"

lemma sim_flush: "sim_errors (hw (cs_etb_flush_and_wait_stop sim_csal c s)) = sim_errors (hw s)"
  by (simp add: cs_etb_flush_and_wait_stop_def Let_def)

lemma sim_fold_errors:
  assumes "\<And>x s. sim_errors (hw (f x s)) = sim_errors (hw s)"
  shows "sim_errors (hw (fold f xs s)) = sim_errors (hw s)"
  using assms by (induction xs arbitrary: s) simp_all

lemma sim_disable_window:
  "sim_errors (hw s) = 0 \<Longrightarrow>
   fst (disable_trace_sinks_only sim_csal c s) = 0 \<and>
   sim_errors (hw (snd (disable_trace_sinks_only sim_csal c s))) = 0"
  by (simp add: disable_trace_sinks_only_def error_result_def Let_def sim_flush sim_fold_errors)

lemma sim_disable_all: "sim_errors (hw s) = 0 \<Longrightarrow> fst (disable_trace sim_csal c s) = 0"
  by (simp add: disable_trace_def error_result_def Let_def sim_flush sim_fold_errors)

lemma sim_disable_cs_trace:
  "sim_errors (hw (cs s)) = 0 \<Longrightarrow> \<exists>s'. disable_cs_trace sim_csal a s = (0, s')"
  using sim_disable_window [of "cs s" "conf s"] sim_disable_all [of "cs s" "conf s"]
  by (cases a) (simp_all add: disable_cs_trace_def Let_def case_prod_beta numeral_eq_Suc)

lemma sim_enable_errors:
  "sim_errors (hw s) = 0 \<Longrightarrow> sim_errors (hw (snd (enable_trace_sinks_only sim_csal c s))) = 0"
  by (simp add: enable_trace_sinks_only_def sim_enable_sinks sim_fold_arm error_result_def Let_def case_prod_beta)

lemma sim_start_trace:
  "\<exists>s1. start_trace sim_csal counting_lib sim_sys 42 False sim_session = Returns (0, s1) \<and>
     sim_errors (hw (cs s1)) = 0 \<and> \<not> is_first_trace s1 \<and> drain_threshold s1 = 0x100000"
proof -
  let ?c = "sim_cs_cfg Armored (\<lambda>_. None)" and ?k = "set_etm_trace_pid 42 sim_cs_state"
  have k: "sim_errors (hw ?k) = 0" by (simp add: set_etm_trace_pid_def sim_cs_state_def sim_hw0_def)
  have f0: "fst (enable_trace_sinks_only sim_csal ?c ?k) = 0"
    by (subst sim_enable_window [OF k]) simp
  have en: "enable_cs_trace sim_csal 0 s = Some (0, s\<lparr>cs := snd (enable_trace_sinks_only sim_csal ?c ?k)\<rparr>)"
    if "\<not> is_first_trace s" "child_pid s = 42" "cs s = sim_cs_state" "conf s = ?c" for s :: "(sim_hw, u64) session"
    using that f0 by (simp add: enable_cs_trace_def case_prod_beta Let_def)
  have f: "cs sim_session = sim_cs_state" "conf sim_session = ?c" "\<not> is_first_trace sim_session"
      "decoding_on sim_session" "ranges sim_session = []" "drain_threshold sim_session = 0x100000"
      "dec sim_session = (dec_state0 0)\<lparr>trace_bitmap := Some [7], trace_overflow_occurred := True\<rparr>"
    by (simp_all add: sim_session_def)
  have B: "cfg_backend ?c = Armored" by (simp add: sim_cs_cfg_def)
  have a: "set_cpu_affinity (sy_setaffinity sim_sys 42) n t = 0" for n t
    by (simp add: set_cpu_affinity_def sim_sys_def)
  have r: "fst (reset_decoder Armored counting_lib [] (clear_bitmap (dec sim_session))) = 0"
    by (simp add: f reset_decoder_def clear_bitmap_def dec_state0_def counting_lib_def)
  show ?thesis
    by (simp add: start_trace_def a Let_def case_prod_beta f(1-6) B r en or_dies_def set_trace_state_def
        sim_enable_errors [OF k])
qed

text \<open>
  An ETR whose write pointer is a register of the simulated hardware, and an execution that is
  drained once: the child is stopped, its trace fetched, and it is gone when it is to go on.
\<close>

definition sim_drain_etr :: "u8 list \<Rightarrow> sim_hw etr_lib" where
  "sim_drain_etr data = (const_etr data)\<lparr>cs_get_buffer_rwp := \<lambda>h. ucast (sim_reg h (Dev 0xFE970000) ETB_FLFMT_CTRL)\<rparr>"

definition sim_level :: "u32 \<Rightarrow> sim_hw \<Rightarrow> sim_hw" where
  "sim_level v h = h\<lparr>sim_reg := \<lambda>_ _. v\<rparr>"

definition sim_poll :: "sim_hw poll_env" where
  "sim_poll = \<lparr>pl_run = sim_level 0x200000, pl_stop = Kill_OK, pl_cont = Kill_ESRCH, pl_sys = sim_sys\<rparr>"

lemma sim_drain_gives:
  assumes "\<not> direct_read s" and "length data < 2 ^ 31" and "length data mod 8 = 0"
  shows "etr_gives (sim_drain_etr data) s (\<lambda>_. data)"
  using assms by (simp add: etr_gives_def delivers_def sim_drain_etr_def const_etr_def)

lemma sim_maps_ok: "maps_ok s sim_sys"
  by (simp add: maps_ok_def sim_sys_def etr_map_open_def user_addr_def)

lemma sim_drain_round:
  assumes "exec_inv counting_lib s0 d0 0 [] s" and "etr_gives (sim_drain_etr data) s0 D"
    and "sim_errors (hw (cs s)) = 0" and "\<not> is_first_trace s" and "drain_threshold s = 0x100000"
  shows "\<exists>pos' s'. poll_round sim_csal (sim_drain_etr data) counting_lib sim_poll 0 s = Returns (Some Killed, pos', s') \<and>
    drained sim_csal (sim_drain_etr data) counting_lib [sim_poll] 0 s =
      [hw (cs (snd (disable_cs_trace sim_csal False (hw_runs (sim_level 0x200000) s))))]"
proof -
  let ?E = "sim_drain_etr data" and ?t = "(hw_runs (sim_level 0x200000) s)\<lparr>ev_suspend := False\<rparr>"
  have up: "drain_threshold s < cs_get_buffer_rwp ?E (sim_level 0x200000 h)" for h
    by (simp add: assms(5) sim_drain_etr_def sim_level_def)
  obtain u where u: "disable_cs_trace sim_csal False ?t = (0, u)"
    using sim_disable_cs_trace [of ?t] assms(3) by (auto simp: hw_runs_def sim_level_def)
  then have u': "u = snd (disable_cs_trace sim_csal False ?t)" by simp
  have "exec_inv counting_lib s0 d0 0 [] u" using assms(1) by (simp add: u' exec_inv_disable)
  from session_fetch_exec [OF this assms(2) sim_maps_ok] obtain v where
    v: "session_fetch ?E sim_sys u = Returns (0, v)" "\<exists>b h. v = u\<lparr>buf := b, cs := (cs u)\<lparr>hw := h\<rparr>\<rparr>" by auto
  have "\<not> is_first_trace v" using v(2) assms(4) by (auto simp: u' disable_cs_trace_frame hw_runs_def)
  then have "enable_cs_trace sim_csal (child_pid v) v \<noteq> None"
    by (simp add: enable_cs_trace_def Let_def case_prod_beta)
  then obtain r w where "enable_cs_trace sim_csal (child_pid v) v = Some (r, w)" by fastforce
  then have "\<exists>pos' s'. poll_round sim_csal ?E counting_lib sim_poll 0 s = Returns (Some Killed, pos', s')"
    using u v(1) up by (simp add: poll_round_def sim_poll_def hw_runs_def or_dies_def Let_def)
  then show ?thesis using up by (auto simp: sim_poll_def hw_runs_def Let_def)
qed

lemma sim_polled:
  assumes "exec_inv counting_lib s0 d0 0 [] s" and "etr_gives (sim_drain_etr data) s0 D"
    and "sim_errors (hw (cs s)) = 0" and "\<not> is_first_trace s" and "drain_threshold s = 0x100000"
  shows "\<exists>s2 s3 h.
    trace_sink_polling sim_csal (sim_drain_etr data) counting_lib [sim_poll] ((hw_runs (sim_level 0) s)\<lparr>ev_start := False\<rparr>) =
      Returns (Killed, s2) \<and>
    disable_cs_trace sim_csal False (hw_runs (\<lambda>_. sim_hw0) s2) = (0, s3) \<and>
    [h] = drained sim_csal (sim_drain_etr data) counting_lib [sim_poll]
      (cs_get_buffer_rwp (sim_drain_etr data) (sim_level 0 (hw (cs s))))
      ((hw_runs (sim_level 0) s)\<lparr>ev_start := False, ready := False\<rparr>)"
proof -
  let ?E = "sim_drain_etr data" and ?t = "(hw_runs (sim_level 0) s)\<lparr>ev_start := False, ready := False\<rparr>"
  have rwp: "cs_get_buffer_rwp ?E (sim_level 0 h) = 0" for h by (simp add: sim_drain_etr_def sim_level_def)
  have t: "exec_inv counting_lib s0 d0 0 [] ?t" using assms(1) by simp
  have "sim_errors (hw (cs ?t)) = 0" "\<not> is_first_trace ?t" "drain_threshold ?t = 0x100000"
    using assms(3-5) by (simp_all add: hw_runs_def sim_level_def)
  from sim_drain_round [OF t assms(2) this] obtain pos s2 h where
    s2: "poll_round sim_csal ?E counting_lib sim_poll 0 ?t = Returns (Some Killed, pos, s2)"
      "drained sim_csal ?E counting_lib [sim_poll] 0 ?t = [h]" by blast
  have "trace_sink_polling sim_csal ?E counting_lib [sim_poll] ((hw_runs (sim_level 0) s)\<lparr>ev_start := False\<rparr>) =
      Returns (Killed, s2)"
    using s2(1) by (simp add: trace_sink_polling_def hw_runs_def rwp)
  moreover obtain s3 where "disable_cs_trace sim_csal False (hw_runs (\<lambda>_. sim_hw0) s2) = (0, s3)"
    using sim_disable_cs_trace [of "hw_runs (\<lambda>_. sim_hw0) s2"] by (auto simp: hw_runs_def sim_hw0_def)
  ultimately show ?thesis using s2(2) rwp by metis
qed

text \<open>The simulated session can be started and polled.\<close>

lemma sim_session_sel:
  "decoding_on sim_session" "\<not> direct_read sim_session" "trace_buf (buf sim_session) = 0"
  "etr_ram_size (buf sim_session) = 0x100000" "sy_mmap sim_sys = Some 0x10000" "user_addr 0x10000"
  by (simp_all add: direct_read_def sim_session_def sim_cs_cfg_def etr_direct_read_enabled_def sim_sys_def user_addr_def)

lemma sim_started:
  assumes "start_trace sim_csal counting_lib sim_sys 42 False sim_session = Returns (0, s1)"
  shows "exec_inv counting_lib sim_session
    (snd (reset_decoder (cfg_backend (conf sim_session)) counting_lib (ranges sim_session) (clear_bitmap (dec sim_session)))) 0 [] s1"
  by (rule start_trace_exec [OF assms _ sim_session_sel(1,5,6)]) (simp_all add: sim_session_sel)

theorem execution_map_is_own_witness:
  "\<exists>s1 s2 s4. start_trace sim_csal counting_lib sim_sys 42 False sim_session = Returns (0, s1) \<and>
     trace_sink_polling sim_csal (sim_drain_etr [1, 2, 3, 4, 5, 6, 7, 8]) counting_lib [sim_poll]
       ((hw_runs (sim_level 0) s1)\<lparr>ev_start := False\<rparr>) = Returns (Killed, s2) \<and>
     stop_trace sim_csal (sim_drain_etr [1, 2, 3, 4, 5, 6, 7, 8]) sim_sys
       (poll_final (sim_drain_etr [1, 2, 3, 4, 5, 6, 7, 8]) counting_lib sim_sys Killed) False (hw_runs (\<lambda>_. sim_hw0) s2) =
       Returns (0, s4) \<and> captured (buf s4) = [1, 2, 3, 4, 5, 6, 7, 8, 1, 2, 3, 4, 5, 6, 7, 8]"
proof -
  define data where "data = ([1, 2, 3, 4, 5, 6, 7, 8] :: u8 list)"
  let ?E = "sim_drain_etr data" and ?s = sim_session and ?D = "\<lambda>_ :: sim_hw. data"
  obtain s1 where s1: "start_trace sim_csal counting_lib sim_sys 42 False ?s = Returns (0, s1)"
    and e1: "sim_errors (hw (cs s1)) = 0" "\<not> is_first_trace s1" "drain_threshold s1 = 0x100000"
    using sim_start_trace by blast
  have g: "etr_gives ?E ?s ?D" by (rule sim_drain_gives) (simp_all add: data_def sim_session_sel)
  obtain s2 s3 h where p: "trace_sink_polling sim_csal ?E counting_lib [sim_poll] ((hw_runs (sim_level 0) s1)\<lparr>ev_start := False\<rparr>) =
        Returns (Killed, s2)"
    "disable_cs_trace sim_csal False (hw_runs (\<lambda>_. sim_hw0) s2) = (0, s3)"
    "[h] = drained sim_csal ?E counting_lib [sim_poll] (cs_get_buffer_rwp ?E (sim_level 0 (hw (cs s1))))
      ((hw_runs (sim_level 0) s1)\<lparr>ev_start := False, ready := False\<rparr>)"
    using sim_polled [OF sim_started [OF s1] g e1] by blast
  have "\<exists>s4 d0 passes.
    d0 = snd (reset_decoder (cfg_backend (conf ?s)) counting_lib (ranges ?s) (clear_bitmap (dec ?s))) \<and>
    stop_trace sim_csal ?E sim_sys (poll_final ?E counting_lib sim_sys Killed) False (hw_runs (\<lambda>_. sim_hw0) s2) = Returns (0, s4) \<and>
    dec s4 = run_passes (cfg_backend (conf ?s)) counting_lib passes d0 \<and>
    concat passes = concat (map ?D ([h] @ [hw (cs s3)])) \<and> captured (buf s4) = concat passes \<and> \<not> trace_did_overflow d0 \<and>
    (\<forall>m. trace_bitmap d0 = Some m \<longrightarrow> (\<forall>i < trace_bitmap_size d0. m ! i = 0))"
    by (rule execution_map_is_own [OF s1 _ sim_session_sel(1) p(1,2) sim_session_sel(5,6) _ _ _ _ _ g p(3)])
      (simp_all add: sim_session_sel sim_maps_ok sim_poll_def)
  with s1 p(1) show ?thesis by (auto simp: data_def)
qed

section \<open>When the child is left running\<close>

lemma poll_rounds_idle:
  assumes "\<And>h. cs_get_buffer_rwp E h - pos \<le> drain_threshold s"
  shows "poll_rounds H E L ps pos s = Returns (Killed, hw_runs (fold pl_run ps) s)"
  using assms
proof (induction ps arbitrary: s)
  case (Cons p ps)
  then have "poll_round H E L p pos s = Returns (None, pos, hw_runs (pl_run p) s)"
    by (simp add: poll_round_def hw_runs_def not_less)
  moreover have "hw_runs (fold pl_run ps) (hw_runs (pl_run p) s) = hw_runs (fold pl_run (p # ps)) s"
    by (simp add: hw_runs_def)
  ultimately show ?case using Cons by (simp add: hw_runs_def)
qed (simp add: hw_runs_def)

lemma drained_idle:
  assumes "\<And>h. cs_get_buffer_rwp E h - pos \<le> drain_threshold s"
  shows "drained H E L ps pos s = []"
  using assms
proof (induction ps arbitrary: s)
  case (Cons p ps)
  then have "poll_round H E L p pos s = Returns (None, pos, hw_runs (pl_run p) s)"
    by (simp add: poll_round_def hw_runs_def not_less)
  with Cons show ?case by (simp add: hw_runs_def not_less Let_def)
qed simp

text \<open>
  What keeps the child from being stopped. In the Stalker build the threshold \<open>decoder_worker\<close> fixes
  is one no fill level passes. In the other build the default threshold is the size of the ETR's
  memory; the hardware's write pointer always lies inside that memory, so when polling starts from
  an emptied buffer, with the pointer at its base, the distance is always less than the size: the
  default never drains, although the comment on the threshold and the README say it drains at the
  ETR size. Only \<open>AFLCS_DRAIN_AT_2XETF\<close> makes the loop stop the child.
\<close>

definition rwp_in_ring :: "'h etr_lib \<Rightarrow> u64 \<Rightarrow> u64 \<Rightarrow> bool" where
  "rwp_in_ring E base n \<longleftrightarrow>
     (\<forall>h. unat base \<le> unat (cs_get_buffer_rwp E h) \<and> unat (cs_get_buffer_rwp E h) < unat base + unat n)"

lemma child_left_running:
  assumes "drain_threshold t = drain_threshold (decoder_worker H s)"
    and "cfg_backend (conf s) = Stalker \<or>
      cfg_env (conf s) ''AFLCS_DRAIN_AT_2XETF'' = None \<and>
      rwp_in_ring E base (etr_ram_size (buf (decoder_worker H s))) \<and> cs_get_buffer_rwp E (hw (cs t)) = base"
  shows "trace_sink_polling H E L ps t = Returns (Killed, (hw_runs (fold pl_run ps) t)\<lparr>ready := False\<rparr>)"
proof -
  have ring: "cs_get_buffer_rwp E h - base \<le> n" if "rwp_in_ring E base n" for h n
  proof -
    have "base \<le> cs_get_buffer_rwp E h" using that by (simp add: rwp_in_ring_def word_le_nat_alt)
    then show ?thesis using spec [OF that [unfolded rwp_in_ring_def], of h] by (simp add: word_le_nat_alt unat_sub) linarith
  qed
  have "cs_get_buffer_rwp E h - cs_get_buffer_rwp E (hw (cs t)) \<le> drain_threshold t" for h
    using assms
    by (auto simp: decoder_worker_def decoding_threshold_def Let_def ring split: backend.splits if_splits)
  then have "poll_rounds H E L ps (cs_get_buffer_rwp E (hw (cs t))) (t\<lparr>ready := False\<rparr>) =
      Returns (Killed, hw_runs (fold pl_run ps) (t\<lparr>ready := False\<rparr>))"
    by (intro poll_rounds_idle) simp
  then show ?thesis by (simp add: trace_sink_polling_def hw_runs_def)
qed

section \<open>Errors of the switching routines\<close>

text \<open>The hardware before trial \<open>k\<close> of \<open>disable_cs_trace\<close>, all earlier ones having failed.\<close>

definition disable_once :: "'h csal \<Rightarrow> cs_cfg \<Rightarrow> bool \<Rightarrow> 'h cs_state \<Rightarrow> int \<times> 'h cs_state" where
  "disable_once H c disable_all s = (if disable_all then disable_trace H c s else disable_trace_sinks_only H c s)"

fun before_trial :: "'h csal \<Rightarrow> cs_cfg \<Rightarrow> bool \<Rightarrow> nat \<Rightarrow> 'h cs_state \<Rightarrow> 'h cs_state" where
  "before_trial H c a 0 s = s"
| "before_trial H c a (Suc k) s =
     (let s' = snd (disable_once H c a (before_trial H c a k s)) in s'\<lparr>hw := cs_reset_error_count H (hw s')\<rparr>)"

definition trial_fails :: "'h csal \<Rightarrow> cs_cfg \<Rightarrow> bool \<Rightarrow> nat \<Rightarrow> 'h cs_state \<Rightarrow> bool" where
  "trial_fails H c a k s \<longleftrightarrow> fst (disable_once H c a (before_trial H c a k s)) < 0"

lemma before_trial_shift:
  "before_trial H c a (Suc k) s =
   before_trial H c a k ((snd (disable_once H c a s))\<lparr>hw := cs_reset_error_count H (hw (snd (disable_once H c a s)))\<rparr>)"
  by (induction k) (simp_all add: Let_def)

lemma disable_trials_spec:
  "disable_trials H c a n ret s =
   (case List.find (\<lambda>k. \<not> trial_fails H c a k s) [0..<n] of
      Some k \<Rightarrow> disable_once H c a (before_trial H c a k s)
    | None \<Rightarrow> (if n = 0 then ret else fst (disable_once H c a (before_trial H c a (n - 1) s)), before_trial H c a n s))"
proof (induction n arbitrary: ret s)
  case (Suc n)
  let ?r = "fst (disable_once H c a s)" and ?t = "snd (disable_once H c a s)"
  let ?u = "?t\<lparr>hw := cs_reset_error_count H (hw ?t)\<rparr>"
  have sh: "trial_fails H c a (Suc k) s = trial_fails H c a k ?u" for k
    by (simp only: trial_fails_def before_trial_shift)
  have up: "[0..<Suc n] = 0 # map Suc [0..<n]" by (simp add: upt_conv_Cons map_Suc_upt del: upt_Suc)
  have fnd: "List.find (\<lambda>k. \<not> trial_fails H c a k s) (map Suc ks) =
      map_option Suc (List.find (\<lambda>k. \<not> trial_fails H c a k ?u) ks)" for ks
    by (induction ks) (simp_all add: sh)
  show ?case
  proof (cases "?r < 0")
    case True
    then have e: "disable_trials H c a (Suc n) ret s = disable_trials H c a n ?r ?u"
      by (simp add: disable_once_def case_prod_beta Let_def)
    have t: "trial_fails H c a 0 s" using True by (simp add: trial_fails_def)
    note bt = before_trial_shift [symmetric, of H c a _ s]
    show ?thesis
    proof (cases n)
      case 0
      then show ?thesis unfolding e using t by (simp add: up Let_def)
    next
      case (Suc m)
      show ?thesis
        unfolding e Suc.IH [of ?r ?u] bt up using t Suc
        by (simp add: fnd bt del: before_trial.simps(2) upt_Suc split: option.split)
    qed
  next
    case False
    then have "disable_trials H c a (Suc n) ret s = disable_once H c a s"
      by (simp add: disable_once_def case_prod_beta Let_def)
    with False show ?thesis by (simp add: up trial_fails_def del: upt_Suc)
  qed
qed simp

text \<open>
  C33: Stopping the trace is retried, and only a persistent failure is reported. If one of the
  eight trials succeeds, \<open>disable_cs_trace\<close> returns the first success's result and stops
  there; only when all eight fail does it return a negative result, and then the error count was
  reset after every one of them, so that the next operation starts clean. Each trial starts from
  what the failed ones before it left.
\<close>

theorem disable_cs_trace_retries:
  "(\<forall>k < 8. trial_fails H (conf s) a k (cs s)) \<and>
     fst (disable_cs_trace H a s) < 0 \<and> cs (snd (disable_cs_trace H a s)) = before_trial H (conf s) a 8 (cs s) \<or>
   (\<exists>k < 8. (\<forall>j < k. trial_fails H (conf s) a j (cs s)) \<and> \<not> trial_fails H (conf s) a k (cs s) \<and>
     (fst (disable_cs_trace H a s), cs (snd (disable_cs_trace H a s))) =
       disable_once H (conf s) a (before_trial H (conf s) a k (cs s)))"
proof (cases "List.find (\<lambda>k. \<not> trial_fails H (conf s) a k (cs s)) [0..<8]")
  case None
  then have "\<forall>k < 8. trial_fails H (conf s) a k (cs s)" by (auto simp: find_None_iff)
  moreover from this have "fst (disable_once H (conf s) a (before_trial H (conf s) a 7 (cs s))) < 0"
    by (auto simp: trial_fails_def)
  ultimately show ?thesis
    using None disable_trials_spec [of H "conf s" a 8 "- 1" "cs s"]
    by (simp add: disable_cs_trace_def case_prod_beta Let_def del: disable_trials.simps)
next
  case (Some k)
  then obtain i where "i < 8" "k = i" "\<not> trial_fails H (conf s) a k (cs s)"
      "\<forall>j < i. trial_fails H (conf s) a j (cs s)"
    by (auto simp: find_Some_iff)
  with Some disable_trials_spec [of H "conf s" a 8 "- 1" "cs s"] show ?thesis
    by (auto simp: disable_cs_trace_def case_prod_beta Let_def simp del: disable_trials.simps
        intro!: disjI2 exI [of _ i])
qed

theorem disable_cs_trace_retries_witness:
  "\<not> fst (disable_cs_trace sim_csal False
      (sim_session\<lparr>cs := sim_cs_state\<lparr>hw := sim_hw0\<lparr>sim_errors := 1\<rparr>\<rparr>\<rparr>)) < 0"
proof -
  define s where "s = sim_session\<lparr>cs := sim_cs_state\<lparr>hw := sim_hw0\<lparr>sim_errors := 1\<rparr>\<rparr>\<rparr>"
  define t where "t = (\<lambda>k. fst (disable_once sim_csal (conf s) False (before_trial sim_csal (conf s) False k (cs s))))"
  have "sim_errors (hw (before_trial sim_csal c False 1 k)) = 0" for c k by (simp add: Let_def)
  from sim_disable_window [OF this] have "t 1 = 0" by (simp only: t_def disable_once_def if_False)
  then have t1: "\<not> t 1 < 0" by simp
  from disable_cs_trace_retries [of sim_csal s False]
  consider (all) "\<forall>k < 8. trial_fails sim_csal (conf s) False k (cs s)"
    | (one) k where "\<not> trial_fails sim_csal (conf s) False k (cs s)"
        "(fst (disable_cs_trace sim_csal False s), cs (snd (disable_cs_trace sim_csal False s))) =
          disable_once sim_csal (conf s) False (before_trial sim_csal (conf s) False k (cs s))"
    by blast
  then have "\<not> fst (disable_cs_trace sim_csal False s) < 0"
  proof cases
    case all
    then have "trial_fails sim_csal (conf s) False 1 (cs s)" by simp
    with t1 show ?thesis unfolding trial_fails_def t_def by contradiction
  next
    case (one k)
    from arg_cong [OF one(2), of fst] one(1) show ?thesis unfolding trial_fails_def by (simp only: fst_conv) simp
  qed
  then show ?thesis unfolding s_def .
qed

text \<open>
  A \<open>start_trace\<close> that fails leaves no start behind. When it returns a negative result, the
  start event is not raised and the trace state is unchanged, so the decoder thread does not
  begin on an execution that is not traced; but with decoding on, the decoder has already been
  published as not ready unless the very first step, pinning the child to its core, failed.
\<close>

theorem start_trace_failure:
  assumes "start_trace H L sys pid use_pid s = Returns (r, s')" and "r < 0"
  shows "ev_start s' = ev_start s \<and> tstate s' = tstate s \<and>
    (s' = s \<or> ready s' = (\<not> decoding_on s \<and> ready s))"
proof -
  let ?a = "set_cpu_affinity (sy_setaffinity sys pid) (sy_nprocs sys) (trace_cpu s)"
  have e: "ev_start s2 = ev_start s1 \<and> tstate s2 = tstate s1 \<and> ready s2 = ready s1"
    if "enable_cs_trace H p s1 = Some (r, s2)" for p s1 s2 and r
    using enable_cs_trace_frame [OF that] by simp
  show ?thesis
    using assms
    by (auto simp: start_trace_def Let_def case_prod_beta or_dies_def obind_def dest!: e
        split: if_splits option.splits)
qed

theorem start_trace_failure_witness:
  "\<exists>s'. start_trace sim_csal counting_lib sim_sys 42 False
       (sim_session\<lparr>dec := (dec_state0 0)\<lparr>decoder := False\<rparr>\<rparr>) = Returns (- 1, s') \<and> \<not> ev_start s' \<and> \<not> ready s'"
proof -
  let ?s = "sim_session\<lparr>dec := (dec_state0 0)\<lparr>decoder := False\<rparr>\<rparr>"
  have a: "set_cpu_affinity (sy_setaffinity sim_sys 42) n t = 0" for n t
    by (simp add: set_cpu_affinity_def sim_sys_def)
  have d: "decoding_on ?s" "\<not> ev_start ?s" "ready ?s" by (simp_all add: sim_session_def)
  have "reset_decoder B counting_lib infos (clear_bitmap ((dec_state0 0)\<lparr>decoder := False\<rparr>)) =
      (- 1, clear_bitmap ((dec_state0 0)\<lparr>decoder := False\<rparr>))" for B infos
    by (simp add: reset_decoder_def clear_bitmap_def)
  then obtain s' where s': "start_trace sim_csal counting_lib sim_sys 42 False ?s = Returns (- 1, s')"
    using d(1) by (simp add: start_trace_def a Let_def)
  have "\<not> ready s'"
    using s' d(1) by (auto simp: start_trace_def a Let_def case_prod_beta reset_decoder_def clear_bitmap_def)
  with start_trace_failure [OF s'] d s' show ?thesis by auto
qed

section \<open>Branch broadcast survives reconfiguration\<close>

lemma set_etm_bb_mode_effect:
  assumes "csal_keeps_config H" and "0 \<le> fst (set_etm_bb_mode H c m k)"
  shows "i < cfg_n_cpu c \<Longrightarrow> hw_bb H (ptm k i) (hw (snd (set_etm_bb_mode H c m k))) = (m \<noteq> 0)"
    and "ptm (snd (set_etm_bb_mode H c m k)) = ptm k"
proof -
  obtain q k1 where e: "each (set_bb_one H (m \<noteq> 0)) [0..<cfg_n_cpu c] k = (q, k1)" by fastforce
  with assms(2) have "q = 0" "snd (set_etm_bb_mode H c m k) = k1"
    by (auto simp: set_etm_bb_mode_def error_result_def split: if_splits)
  then show "i < cfg_n_cpu c \<Longrightarrow> hw_bb H (ptm k i) (hw (snd (set_etm_bb_mode H c m k))) = (m \<noteq> 0)"
    and "ptm (snd (set_etm_bb_mode H c m k)) = ptm k"
    using each_set_bb [OF assms(1)] e by auto
qed

text \<open>
  C23: A requested branch-broadcast mode survives the reconfiguration it triggers.
  \<open>trace_set_bb_mode\<close> makes the next start go through a full \<open>configure_trace\<close>, which rewrites
  the ETMs' configuration registers; when that start's \<open>enable_cs_trace\<close> succeeds, the trace source
  of every core is in branch-broadcast mode again. It does not depend on whether the hardware was
  ever configured before.
\<close>

theorem bb_mode_survives_reconfiguration:
  assumes "csal_keeps_config H" and "m \<noteq> 0" and "trace_set_bb_mode H L m s = (r1, s1)"
    and "enable_cs_trace H pid s1 = Some (r2, s2)" and "0 \<le> r2"
  shows "\<forall>i < cfg_n_cpu (conf s2). hw_bb H (ptm (cs s2) i) (hw (cs s2))"
proof -
  have s1: "is_first_trace s1" "current_bb_mode s1 = 1"
    using assms(2,3) by (auto simp: trace_set_bb_mode_def Let_def case_prod_beta split: backend.splits)
  obtain k where q: "0 \<le> fst (set_etm_bb_mode H (conf s1) 1 k)" "cs s2 = snd (set_etm_bb_mode H (conf s1) 1 k)"
      "conf s2 = conf s1"
    using assms(4,5) s1
    by (auto simp: enable_cs_trace_def first_enable_def fail_shutdown_def Let_def case_prod_beta not_less
        split: if_splits option.splits)
  show ?thesis
    using set_etm_bb_mode_effect [OF assms(1) q(1)] q(2,3) by simp
qed

text \<open>The simulated CSAL carries a full configuration through.\<close>

lemma sim_each_opt:
  assumes "\<And>x s. sim_errors (hw s) = 0 \<Longrightarrow> \<exists>s'. f x s = Some (0, s') \<and> sim_errors (hw s') = 0"
    and "sim_errors (hw s) = 0"
  shows "\<exists>s'. each_opt f xs s = Some (0, s') \<and> sim_errors (hw s') = 0"
  using assms(2)
proof (induction xs arbitrary: s)
  case (Cons x xs)
  then show ?case using assms(1) [of s x] by fastforce
qed simp

lemma sim_prepare_source:
  "sim_errors (hw s) = 0 \<Longrightarrow> \<exists>s'. prepare_source sim_csal c i s = Some (0, s') \<and> sim_errors (hw s') = 0"
  by (simp add: prepare_source_def init_etm_def sim_csal_def Let_def)

lemma sim_configure_source:
  "cfg_backend c = Armored \<Longrightarrow> sim_errors (hw s) = 0 \<Longrightarrow>
   \<exists>s'. configure_source sim_csal c rs pid i s = Some (0, s') \<and> sim_errors (hw s') = 0"
  by (simp add: configure_source_def configure_etmv4_addr_range_cid_def addr_range_cid_config_def
      error_result_def Let_def)

lemma sim_configure_trace:
  assumes "cfg_backend c = Armored" and "sim_errors (hw s) = 0"
  shows "\<exists>s'. configure_trace sim_csal c rs pid s = Some (0, s') \<and> sim_errors (hw s') = 0"
proof -
  let ?s0 = "s\<lparr>hw := sim_switch False (cfg_etb c) (hw s)\<rparr>"
  have z: "cs_device_set_wait_repeats sim_csal = (\<lambda>_ h. h)" "cs_disable_tpiu sim_csal = id"
    by (simp_all add: sim_csal_def)
  obtain s1 where s1: "each_opt (prepare_source sim_csal c) [0..<cfg_n_cpu c] ?s0 = Some (0, s1)" "sim_errors (hw s1) = 0"
    using sim_each_opt [of "prepare_source sim_csal c" ?s0 "[0..<cfg_n_cpu c]", OF sim_prepare_source] assms(2)
    by auto
  obtain s2 where s2: "each_opt (configure_source sim_csal c rs pid) [0..<cfg_n_cpu c] s1 = Some (0, s2)" "sim_errors (hw s2) = 0"
    using sim_each_opt [of "configure_source sim_csal c rs pid" s1 "[0..<cfg_n_cpu c]",
        OF sim_configure_source [OF assms(1)]] s1(2) by auto
  show ?thesis
    using s1 s2 by (simp add: configure_trace_def z Let_def case_prod_beta error_result_def)
qed

lemma sim_enable_trace:
  "sim_errors (hw s) = 0 \<Longrightarrow>
   fst (enable_trace sim_csal c s) = 0 \<and> sim_errors (hw (snd (enable_trace sim_csal c s))) = 0"
  by (simp add: enable_trace_def sim_enable_sinks sim_fold_errors error_result_def Let_def case_prod_beta)

lemma sim_set_bb:
  "sim_errors (hw s) = 0 \<Longrightarrow>
   fst (set_etm_bb_mode sim_csal c m s) = 0 \<and> sim_errors (hw (snd (set_etm_bb_mode sim_csal c m s))) = 0"
  by (simp add: set_etm_bb_mode_def sim_each_set_bb error_result_def case_prod_beta)

lemma sim_first_enable:
  assumes "cfg_backend (conf s) = Armored" and "sim_errors (hw (cs s)) = 0" and "is_first_trace s"
  shows "\<exists>s'. enable_cs_trace sim_csal pid s = Some (0, s') \<and> sim_errors (hw (cs s')) = 0"
proof -
  let ?f = "pid_filter_enabled Armored (cfg_env (conf s))"
  let ?k = "if \<not> ?f then cs s else set_etm_trace_pid (child_pid s) (cs s)"
  have "sim_errors (hw ?k) = 0" using assms(2) by (simp add: set_etm_trace_pid_def)
  from sim_configure_trace [OF assms(1) this, of "ranges s" "if \<not> ?f then pid else child_pid s"]
  obtain k where "configure_trace sim_csal (conf s) (ranges s) (if \<not> ?f then pid else child_pid s) ?k =
        Some (0, k)" "sim_errors (hw k) = 0" by blast
  then show ?thesis
    using assms(1,3) sim_enable_trace [of k "conf s"] sim_set_bb [of "snd (enable_trace sim_csal (conf s) k)" "conf s"]
    by (auto simp: enable_cs_trace_def first_enable_def Let_def case_prod_beta split: if_splits)
qed

theorem bb_mode_survives_reconfiguration_witness:
  "\<exists>s2. enable_cs_trace sim_csal 0 (snd (trace_set_bb_mode sim_csal counting_lib 1 sim_session)) = Some (0, s2) \<and>
     (\<forall>i < cfg_n_cpu (conf s2). hw_bb sim_csal (ptm (cs s2) i) (hw (cs s2)))"
proof -
  let ?s = "snd (trace_set_bb_mode sim_csal counting_lib 1 sim_session)"
  have B: "cfg_backend (conf sim_session) = Armored" and e0: "sim_errors (hw (cs sim_session)) = 0"
    by (simp_all add: sim_session_def sim_cs_cfg_def sim_cs_state_def sim_hw0_def)
  have s: "cfg_backend (conf ?s) = Armored" "is_first_trace ?s"
    using B by (simp_all add: trace_set_bb_mode_def Let_def case_prod_beta)
  have e: "sim_errors (hw (cs ?s)) = 0"
    using B e0 sim_each_set_bb [of True _ "cs sim_session"]
    by (simp add: trace_set_bb_mode_def set_etm_bb_mode_def error_result_def Let_def case_prod_beta)
  obtain s2 where "enable_cs_trace sim_csal 0 ?s = Some (0, s2)"
    using sim_first_enable [OF s(1) e s(2)] by blast
  with bb_mode_survives_reconfiguration [OF sim_csal_keeps_config _ _ this, of 1 counting_lib sim_session
      "fst (trace_set_bb_mode sim_csal counting_lib 1 sim_session)"]
  show ?thesis by auto
qed

section \<open>The core and the thread\<close>

text \<open>
  The core \<open>init_trace\<close> falls back to. When no core is asked for and \<open>get_preferred_cpu\<close>
  fails, the core chosen is never the free one \<open>find_free_cpu\<close> found: it is core 0 when one was
  found, whichever it is, and core 1 when none was, where the message announces core 0.
\<close>

theorem free_cpu_is_discarded:
  assumes "cpu < 0" and "get_preferred_cpu (sy_rd sys) (sy_nprocs sys) (sy_affinity sys parent) < 0"
  shows "choose_trace_cpu sys parent cpu = (if find_free_cpu (sy_nprocs sys) (sy_proc sys) \<ge> 0 then 0 else 1)"
  using assms by (simp add: choose_trace_cpu_def)

theorem free_cpu_is_discarded_witness: "choose_trace_cpu sim_sys 7 (- 1) = 0"
proof -
  have "get_preferred_cpu (sy_rd sim_sys) (sy_nprocs sim_sys) (sy_affinity sim_sys 7) < 0"
    by (simp add: sim_sys_def get_preferred_cpu_def)
  from free_cpu_is_discarded [OF _ this, of "- 1"] show ?thesis
    by (simp add: find_free_cpu_def sim_sys_def upt_rec)
qed

lemma init_decoding_thread_failure:
  assumes "fst (init_decoding H L (sys\<lparr>sy_pthread_create := 0\<rparr>) pid s) = 0" and "sy_pthread_create sys \<noteq> 0"
  shows "fst (init_decoding H L sys pid s) = sy_pthread_create sys \<and>
    has_thread (snd (init_decoding H L sys pid s)) = has_thread s"
proof -
  let ?B = "cfg_backend (conf s)"
  obtain ok d where i: "init_decoder ?B L (sy_bitmap_mem sys) (ranges s) (dec s) = (ok, d)" by fastforce
  show ?thesis
    using assms
    by (cases ?B) (simp_all add: init_decoding_def i Let_def case_prod_beta split: if_splits)
qed

text \<open>
  A decoder thread that cannot be created is reported with the wrong sign. When everything
  else in \<open>init_trace\<close> succeeds and \<open>pthread_create\<close> fails, which it reports with a positive
  error number, \<open>init_trace\<close> shuts CSAL down and returns that positive number: a caller that
  tests for a negative result, as \<open>__afl_next_testcase\<close> does, goes on without a decoder.
\<close>

theorem init_trace_thread_failure:
  assumes "init_steps H setup L (sys\<lparr>sy_pthread_create := 0\<rparr>) parent pid s = (0, s1)" and "decoding_on s"
    and "sy_pthread_create sys > 0"
  shows "\<exists>s'. init_trace H setup L sys parent pid s = (sy_pthread_create sys, s') \<and> \<not> sy_pthread_create sys < 0 \<and>
    has_thread s' = has_thread s \<and> (\<exists>h. hw (cs s') = cs_shutdown H h)"
proof -
  have c: "choose_trace_cpu (sys\<lparr>sy_pthread_create := 0\<rparr>) parent cpu = choose_trace_cpu sys parent cpu" for cpu
    by (simp add: choose_trace_cpu_def)
  have "\<exists>s'. init_steps H setup L sys parent pid s = (sy_pthread_create sys, s') \<and> has_thread s' = has_thread s"
    using assms init_decoding_thread_failure [where H = H and L = L and sys = sys and pid = pid]
    by (auto simp: init_steps_def c Let_def case_prod_beta prod_eq_iff split: if_splits option.splits)
  with assms(3) show ?thesis by (auto simp: init_trace_def)
qed

definition sim_board_setup :: "sim_hw board_setup" where
  "sim_board_setup name boards h =
     map_option (\<lambda>b. (b, board_devices0\<lparr>bd_etb := Some (Dev 0xFE970000)\<rparr>, h)) (List.find (\<lambda>b. hardware b = name) boards)"

definition init_sys :: "int \<Rightarrow> sys_env" where
  "init_sys e = sim_sys\<lparr>sy_rd := (\<lambda>_. Some ''1000''), sy_maps := (\<lambda>_. Some []), sy_pthread_create := e\<rparr>"

lemma init_sys_create [simp]: "(init_sys e)\<lparr>sy_pthread_create := x\<rparr> = init_sys x" "sy_pthread_create (init_sys e) = e"
  by (simp_all add: init_sys_def)

lemma sim_init_parts:
  "get_udmabuf_info (sy_isdir (init_sys 0)) (sy_rd (init_sys 0)) n a z = (0, 0x1000, 1000)"
  "setup_map_info (sy_files (init_sys 0)) e (sy_maps (init_sys 0) p) v k = (0, [])"
  "sim_board_setup ''ZCU 104'' known_boards h =
    Some (\<lparr>do_registration = do_registration_zcu104, n_cpu = 4, hardware = ''ZCU 104'', axictl = Some WR_BURST_16\<rparr>,
      board_devices0\<lparr>bd_etb := Some (Dev 0xFE970000)\<rparr>, h)"
  "choose_trace_cpu (init_sys 0) 1 2 = 2"
  by (simp_all add: get_udmabuf_info_def init_sys_def sim_sys_def scan_hex_def scan_hex_unsigned_def strip_0x_def
      scan_ld_def scan_ull_def scan_unsigned_def isspace_def isxdigit_def isdigit_def xdigit_val_def
      digit_val_def setup_map_info_def sim_board_setup_def known_boards_def choose_trace_cpu_def Let_def)

lemma sim_init_steps: "fst (init_steps sim_csal sim_board_setup counting_lib (init_sys 0) 1 2 sim_session) = 0"
proof -
  have i: "fst (init_decoding sim_csal counting_lib (init_sys 0) 2 s) = 0"
    if "cfg_backend (conf s) = Armored" "dec s = (dec sim_session)\<lparr>trace_id := 0x12\<rparr>" for s :: "(sim_hw, u64) session"
    using that
    by (simp add: init_decoding_def init_decoder_def sim_session_def dec_state0_def counting_lib_def Let_def)
  have f: "board_name sim_session = ''ZCU 104''" "decoding_on sim_session" "trace_cpu sim_session = 2"
    "cfg_backend (conf sim_session) = Armored"
    by (simp_all add: sim_session_def sim_cs_cfg_def)
  show ?thesis
    by (simp add: init_steps_def f(1-3) sim_init_parts Let_def get_trace_id_def)
      (subst i, simp_all add: set_board_def f(4))
qed

text \<open>Without decoding, the simulated session is initialised and ready to be started.\<close>

lemma sim_init_off:
  "\<exists>s0. init_trace sim_csal sim_board_setup counting_lib (init_sys 0) 1 2 (sim_session\<lparr>decoding_on := False, dec := d\<rparr>) = (0, s0) \<and>
     \<not> decoding_on s0 \<and> \<not> direct_read s0 \<and> trace_buf (buf s0) = 0 \<and> etr_ram_size (buf s0) = 1000 \<and>
     cfg_backend (conf s0) = Armored \<and> sim_errors (hw (cs s0)) = 0 \<and> trace_id (dec s0) = 0x12"
proof -
  have f: "board_name sim_session = ''ZCU 104''" "trace_cpu sim_session = 2" by (simp_all add: sim_session_def)
  show ?thesis
    by (simp add: init_trace_def init_steps_def f sim_init_parts Let_def get_trace_id_def set_trace_state_def set_board_def
        direct_read_def etr_direct_read_enabled_def)
      (simp add: sim_session_def sim_cs_cfg_def sim_cs_state_def sim_hw0_def)
qed

theorem init_trace_thread_failure_witness:
  "\<exists>s'. init_trace sim_csal sim_board_setup counting_lib (init_sys 11) 1 2 sim_session = (11, s')"
proof -
  have "init_steps sim_csal sim_board_setup counting_lib ((init_sys 11)\<lparr>sy_pthread_create := 0\<rparr>) 1 2 sim_session =
      (0, snd (init_steps sim_csal sim_board_setup counting_lib (init_sys 0) 1 2 sim_session))"
    using sim_init_steps by (simp add: prod_eq_iff)
  from init_trace_thread_failure [OF this] show ?thesis
    by (auto simp: sim_session_def)
qed

end
