(* ===== verification/Proxy.thy ===== *)
theory Proxy
  imports Session Freq_Gov Hybrid
begin

text \<open>
  \<open>src/src/cs-proxy.c\<close>: the process between AFL++ and the fork server of the target. It serves
  AFL++'s requests one by one, runs the target through the tracing session of \<open>Session\<close>,
  throttles it with the governor of \<open>Freq_Gov\<close>, repeats executions whose trace overflowed, and
  in hybrid mode lets \<open>Hybrid\<close> decide what AFL++ is shown. The two pipes are streams: what is
  still to be read (\<open>None\<close> for a short read) and what has been written, and which writes
  succeed is a parameter. A read from an empty stream never returns (\<open>Loops\<close>). One execution
  of the target is an \<open>attempt\<close>: what the system answers while it is started and stopped, what
  it does to the hardware, the polling turns the decoder thread makes meanwhile, whether \<open>SIGCONT\<close>
  reached it, and the contents of the test case read after it. \<open>FATAL\<close> ends the process and is
  \<open>Faults\<close>. The counters printed for diagnosis are left out.
\<close>

unbundle bit_operations_syntax

section \<open>Wait status words\<close>

abbreviation (input) SIGSTOP :: u32 where "SIGSTOP \<equiv> 19"

definition WIFSTOPPED :: "u32 \<Rightarrow> bool" where
  "WIFSTOPPED st \<longleftrightarrow> st AND 0xff = 0x7f"

definition WSTOPSIG :: "u32 \<Rightarrow> u32" where
  "WSTOPSIG st = drop_bit 8 st AND 0xff"

definition WIFSIGNALED :: "u32 \<Rightarrow> bool" where
  "WIFSIGNALED st \<longleftrightarrow> st AND 0x7f \<noteq> 0 \<and> st AND 0x7f \<noteq> 0x7f"

section \<open>State\<close>

text \<open>
  The file that holds the test case: its bytes and, for a read at each offset, how many bytes it
  gives at most, at least one of which it gives before the end, and whether it fails.
\<close>

record input_file =
  in_bytes :: "u8 list"
  in_given :: "nat \<Rightarrow> nat"
  in_fails :: "nat \<Rightarrow> bool"

record 'h attempt =
  at_sys :: sys_env
  at_run :: "'h \<Rightarrow> 'h"
  at_polls :: "'h poll_env list"
  at_rest :: "'h \<Rightarrow> 'h"
  at_cont :: bool
  at_input :: "input_file option"

record ('h, 'd) proxy =
  ses :: "('h, 'd) session"
  gov :: freq_state
  hyb :: hybrid
  first_run :: bool
  needs_calibration :: bool
  needs_bb_enable :: bool
  total_exec_count :: u64
  overflow_exec_count :: u64
  hybrid_sample :: u64
  hybrid_discards :: u64
  fsrv_pid :: int
  afl_in :: "u32 option list"
  afl_out :: "u32 list"
  fsrv_in :: "u32 option list"
  fsrv_out :: "u32 list"
  runs :: "'h attempt list"
  cur :: "'h attempt"
  stats :: "(string \<times> (string \<times> u64 list) list) list"

text \<open>The libraries and the environment that do not change while the proxy runs.\<close>

record ('h, 'd) world =
  w_csal :: "'h csal"
  w_etr :: "'h etr_lib"
  w_dec :: "'d declib"
  w_setup :: "'h board_setup"
  w_sysfs :: sysfs_env
  w_arch :: arch
  w_init :: sys_env
  w_guard :: "(int \<times> int) option \<times> int"
  w_hybrid_mem :: "cov_map \<times> cov_map \<times> cov_map"
  w_sample_mem :: bool
  w_stats_file :: bool
  w_afl_write :: "nat \<Rightarrow> bool"
  w_ctl_write :: "nat \<Rightarrow> bool"

abbreviation cov :: "('h, 'd) proxy \<Rightarrow> cov_type" where
  "cov p \<equiv> cov_type (dec (ses p))"

abbreviation (input) STATS_PERIOD :: u64 where "STATS_PERIOD \<equiv> 256"

definition bitmap :: "('h, 'd) proxy \<Rightarrow> u8 list" where
  "bitmap p = (case trace_bitmap (dec (ses p)) of None \<Rightarrow> [] | Some m \<Rightarrow> m)"

definition set_bitmap :: "u8 list \<Rightarrow> ('h, 'd) proxy \<Rightarrow> ('h, 'd) proxy" where
  "set_bitmap m p = p\<lparr>ses := (ses p)\<lparr>dec := (dec (ses p))\<lparr>trace_bitmap := map_option (\<lambda>_. m) (trace_bitmap (dec (ses p)))\<rparr>\<rparr>\<rparr>"

section \<open>Pipes\<close>

definition afl_write :: "('h, 'd) world \<Rightarrow> u32 \<Rightarrow> ('h, 'd) proxy \<Rightarrow> bool \<times> ('h, 'd) proxy" where
  "afl_write W v p =
     (if w_afl_write W (length (afl_out p)) then (True, p\<lparr>afl_out := afl_out p @ [v]\<rparr>) else (False, p))"

definition ctl_write :: "('h, 'd) world \<Rightarrow> u32 \<Rightarrow> ('h, 'd) proxy \<Rightarrow> bool \<times> ('h, 'd) proxy" where
  "ctl_write W v p =
     (if w_ctl_write W (length (fsrv_out p)) then (True, p\<lparr>fsrv_out := fsrv_out p @ [v]\<rparr>) else (False, p))"

definition afl_read :: "('h, 'd) proxy \<Rightarrow> (u32 option \<times> ('h, 'd) proxy) outcome" where
  "afl_read p = (case afl_in p of [] \<Rightarrow> Loops | x # xs \<Rightarrow> Returns (x, p\<lparr>afl_in := xs\<rparr>))"

definition st_read :: "('h, 'd) proxy \<Rightarrow> (u32 option \<times> ('h, 'd) proxy) outcome" where
  "st_read p = (case fsrv_in p of [] \<Rightarrow> Loops | x # xs \<Rightarrow> Returns (x, p\<lparr>fsrv_in := xs\<rparr>))"

section \<open>One execution\<close>

definition current_freq_mode :: "cov_type \<Rightarrow> freq_mode" where
  "current_freq_mode ct = (if ct = edge_cov then FREQ_MODE_ADDR else FREQ_MODE_ATOM)"

definition fork_fresh_child :: "('h, 'd) world \<Rightarrow> ('h, 'd) proxy \<Rightarrow> (int \<times> ('h, 'd) proxy) outcome" where
  "fork_fresh_child W p =
     (let (ok, p) = ctl_write W 0 p
      in if \<not> ok then Returns (- 1, p)
         else obind (st_read p) (\<lambda>(x, p). Returns (case x of None \<Rightarrow> - 1 | Some v \<Rightarrow> sint v, p)))"

text \<open>The result of \<open>start_trace\<close> is ignored, as in the code.\<close>

definition start_and_resume ::
  "('h, 'd) world \<Rightarrow> int \<Rightarrow> bool \<Rightarrow> ('h, 'd) proxy \<Rightarrow> (int \<times> ('h, 'd) proxy) outcome" where
  "start_and_resume W pid report_to_afl p =
     (case runs p of
        [] \<Rightarrow> Loops
      | a # as \<Rightarrow>
          obind (start_trace (w_csal W) (w_dec W) (at_sys a) pid False (ses p)) (\<lambda>(_, s).
            let p = p\<lparr>ses := s, runs := as, cur := a\<rparr>;
                (ok, p) = (if report_to_afl then afl_write W (word_of_int pid) p else (True, p))
            in Returns (if \<not> ok then - 1 else if \<not> at_cont a then - 1 else 0, p)))"

text \<open>The status messages up to the one that is not a stop by \<open>SIGSTOP\<close>.\<close>

fun wait_child ::
  "u32 option list \<Rightarrow> ('h, 'd) session \<Rightarrow> (u32 option \<times> u32 option list \<times> ('h, 'd) session) outcome" where
  "wait_child [] s = Loops"
| "wait_child (None # r) s = Returns (None, r, s)"
| "wait_child (Some st # r) s =
     (if WIFSTOPPED st \<and> WSTOPSIG st = SIGSTOP then wait_child r (trace_suspend_resume_callback s)
      else Returns (Some st, r, trace_child_exited_callback s))"

text \<open>
  What the decoder thread has done by the time the child is gone, and what it will do once the
  stop event comes: nothing if no start was signalled.
\<close>

definition decoder_runs ::
  "('h, 'd) world \<Rightarrow> 'h attempt \<Rightarrow> ('h, 'd) session
   \<Rightarrow> ((('h, 'd) session \<Rightarrow> ('h, 'd) session outcome) \<times> ('h, 'd) session) outcome" where
  "decoder_runs W a s =
     (let s = hw_runs (at_run a) s
      in if decoding_on s \<and> ev_start s
         then obind (trace_sink_polling (w_csal W) (w_etr W) (w_dec W) (at_polls a) (s\<lparr>ev_start := False\<rparr>))
                (\<lambda>(e, s). Returns (poll_final (w_etr W) (w_dec W) (at_sys a) e, hw_runs (at_rest a) s))
         else Returns (Returns, hw_runs (at_rest a) s))"

definition wait_for_child_and_stop_trace ::
  "('h, 'd) world \<Rightarrow> ('h, 'd) proxy \<Rightarrow> (int \<times> u32 \<times> ('h, 'd) proxy) outcome" where
  "wait_for_child_and_stop_trace W p =
     obind (wait_child (fsrv_in p) (ses p)) (\<lambda>(x, r, s).
       let p = p\<lparr>fsrv_in := r, ses := s\<rparr>
       in (case x of
             None \<Rightarrow> Returns (- 1, 0, p)
           | Some st \<Rightarrow>
               obind (decoder_runs W (cur p) s) (\<lambda>(worker, s).
               obind (stop_trace (w_csal W) (w_etr W) (at_sys (cur p)) worker False s) (\<lambda>(r, s).
                 Returns (if r < 0 then - 1 else 0, st, p\<lparr>ses := s\<rparr>)))))"

definition retry_child ::
  "('h, 'd) world \<Rightarrow> freq_mode \<Rightarrow> ('h, 'd) proxy \<Rightarrow> (int \<times> ('h, 'd) proxy) outcome" where
  "retry_child W mode p =
     obind (fork_fresh_child W p) (\<lambda>(pid, p).
       if pid < 0 then Returns (- 1, p)
       else
         let p = p\<lparr>gov := freq_gov_apply (w_sysfs W) mode (gov p)\<rparr>
         in obind (start_and_resume W pid False p) (\<lambda>(r, p). Returns (if r < 0 then - 1 else pid, p)))"

text \<open>
  The calibration callback. Its context is the child handed over by the fork server, if not used
  yet, and the proxy; a run that never returns is remembered in the context and ends the ramp.
\<close>

type_synonym ('h, 'd) calib_ctx = "(int \<times> bool \<times> ('h, 'd) proxy) outcome"

definition calibration_run_one_shot :: "('h, 'd) world \<Rightarrow> ('h, 'd) calib_ctx one_shot" where
  "calibration_run_one_shot W ctx g =
     (case obind ctx (\<lambda>(child, have_child, p).
             obind (if have_child then Returns (child, p) else fork_fresh_child W p) (\<lambda>(pid, p).
               if \<not> have_child \<and> pid < 0 then Returns (None, child, p)
               else
                 obind (start_and_resume W pid False p) (\<lambda>(r, p).
                   if r < 0 then Returns (None, pid, p)
                   else
                     obind (wait_for_child_and_stop_trace W p) (\<lambda>(r, _, p).
                       if r < 0 then Returns (None, pid, p)
                       else Returns (Some (decoding_on (ses p) \<and> trace_did_overflow (dec (ses p))), pid, p))))) of
        Returns (None, pid, p) \<Rightarrow> (True, Returns (pid, False, p), g)
      | Returns (Some overflowed, pid, p) \<Rightarrow>
          (overflowed, Returns (pid, False, p), freq_gov_restore_max (w_sysfs W) g)
      | Loops \<Rightarrow> (True, Loops, g)
      | Faults \<Rightarrow> (True, Faults, g))"

section \<open>The test case\<close>

text \<open>\<open>find_input\<close>: the argument that ends in \<open>.cur_input\<close>, or whether standard input is a file.\<close>

definition cur_input_arg :: "string \<Rightarrow> bool" where
  "cur_input_arg a \<longleftrightarrow> length a \<ge> 10 \<and> drop (length a - 10) a = ''.cur_input''"

definition find_input :: "bool \<Rightarrow> string list \<Rightarrow> string option \<times> bool" where
  "find_input stdin_is_file args =
     (case List.find cur_input_arg args of
        Some a \<Rightarrow> (Some a, False)
      | None \<Rightarrow> (None, stdin_is_file))"

definition fnv_step :: "u64 \<Rightarrow> u8 \<Rightarrow> u64" where
  "fnv_step h b = (h XOR ucast b) * 0x100000001b3"

definition pread :: "input_file \<Rightarrow> nat \<Rightarrow> nat \<Rightarrow> u8 list option" where
  "pread f n off =
     (if in_fails f off then None else Some (take (min n (max 1 (in_given f off))) (drop off (in_bytes f))))"

text \<open>The loop of reads, with \<open>None\<close> once one fails. The offset grows with every turn.\<close>

function pread_loop :: "input_file \<Rightarrow> u64 \<Rightarrow> nat \<Rightarrow> (u64 \<times> nat) option" where
  "pread_loop f h off =
     (case pread f 65536 off of
        None \<Rightarrow> None
      | Some c \<Rightarrow> if c = [] then Some (h, off) else pread_loop f (foldl fnv_step h c) (off + length c))"
  by pat_completeness auto
termination
  by (relation "measure (\<lambda>(f, h, off). length (in_bytes f) - off)") (auto simp: pread_def split: if_splits)

declare pread_loop.simps [simp del]

text \<open>\<open>None\<close> when the test case was not found or cannot be opened.\<close>

definition input_key :: "input_file option \<Rightarrow> u64" where
  "input_key inp =
     (case inp of
        None \<Rightarrow> 0
      | Some f \<Rightarrow>
          (case pread_loop f 0xcbf29ce484222325 0 of
             None \<Rightarrow> 0
           | Some (h, off) \<Rightarrow> let h = h XOR of_nat off in if h \<noteq> 0 then h else 1))"

section \<open>Hybrid's second pass\<close>

definition count_exec :: "bool \<Rightarrow> ('h, 'd) proxy \<Rightarrow> ('h, 'd) proxy" where
  "count_exec overflowed p =
     p\<lparr>total_exec_count := total_exec_count p + 1,
       overflow_exec_count := (if overflowed then overflow_exec_count p + 1 else overflow_exec_count p)\<rparr>"

text \<open>
  The part the confirming and the sampling pass share: one more execution with branch broadcast
  at the address pass's frequency. The flag is whether it overflowed.
\<close>

definition proxy_bb_mode :: "('h, 'd) world \<Rightarrow> int \<Rightarrow> ('h, 'd) proxy \<Rightarrow> int \<times> ('h, 'd) proxy" where
  "proxy_bb_mode W m p =
     (let (r, s) = trace_set_bb_mode (w_csal W) (w_dec W) m (ses p) in (r, p\<lparr>ses := s\<rparr>))"

definition edge_pass :: "('h, 'd) world \<Rightarrow> ('h, 'd) proxy \<Rightarrow> (int \<times> bool \<times> ('h, 'd) proxy) outcome" where
  "edge_pass W p =
     (let (r, p) = proxy_bb_mode W 1 p
      in if r < 0 then Returns (- 1, False, p)
         else
           obind (retry_child W FREQ_MODE_ADDR p) (\<lambda>(r, p).
             if r < 0 then Returns (- 1, False, p)
             else
               obind (wait_for_child_and_stop_trace W p) (\<lambda>(r, _, p).
                 if r < 0 then Returns (- 1, False, p)
                 else
                   let p = p\<lparr>gov := freq_gov_restore_max (w_sysfs W) (gov p)\<rparr>;
                       overflowed = trace_did_overflow (dec (ses p));
                       p = count_exec overflowed p;
                       p = p\<lparr>gov := freq_gov_on_result FREQ_MODE_ADDR overflowed (gov p)\<rparr>
                   in Returns (0, overflowed, p))))"

definition confirm_with_branch_broadcast ::
  "('h, 'd) world \<Rightarrow> ('h, 'd) proxy \<Rightarrow> (int \<times> ('h, 'd) proxy) outcome" where
  "confirm_with_branch_broadcast W p =
     obind (edge_pass W p) (\<lambda>(r, overflowed, p).
       if r < 0 then Returns (- 1, p)
       else
         let p = p\<lparr>hyb := hybrid_after_confirm (bitmap p) overflowed (hyb p)\<rparr>
         in Returns (proxy_bb_mode W 0 p))"

text \<open>\<open>w_sample_mem\<close> is whether the memory for the saved map could be allocated.\<close>

definition sample_with_branch_broadcast ::
  "('h, 'd) world \<Rightarrow> ('h, 'd) proxy \<Rightarrow> (int \<times> ('h, 'd) proxy) outcome" where
  "sample_with_branch_broadcast W p =
     (if \<not> w_sample_mem W then Returns (- 1, p)
      else
        let saved = bitmap p
        in obind (edge_pass W p) (\<lambda>(r, overflowed, p).
             if r < 0 then Returns (- 1, p)
             else
               let p = p\<lparr>hyb := hybrid_after_sample (bitmap p) overflowed (hyb p)\<rparr>;
                   p = set_bitmap (memcpy (trace_bitmap_size (dec (ses p))) (bitmap p) saved) p
               in Returns (proxy_bb_mode W 0 p)))"

section \<open>The next test case\<close>

text \<open>The first request initialises the session, the governor and the hybrid state.\<close>

definition first_testcase :: "('h, 'd) world \<Rightarrow> int \<Rightarrow> ('h, 'd) proxy \<Rightarrow> int \<times> ('h, 'd) proxy" where
  "first_testcase W pid p =
     (let (r, s) = init_trace (w_csal W) (w_setup W) (w_dec W) (w_init W) (fsrv_pid p) pid (ses p);
          p = p\<lparr>ses := s\<rparr>
      in if r < 0 then (- 1, p)
         else
           let p = p\<lparr>first_run := False\<rparr>
           in (case cfg_backend (conf (ses p)) of
                 Armored \<Rightarrow> (0, p)
               | Stalker \<Rightarrow>
                   let p = p\<lparr>gov := freq_gov_init (w_sysfs W) (fst (w_guard W)) (snd (w_guard W))
                                      (trace_cpu (ses p)) (cov p = edge_cov) (gov p)\<rparr>;
                       (m1, m2, m3) = w_hybrid_mem W;
                       p = (if cov p = hybrid_cov
                            then p\<lparr>hyb := hybrid_init (trace_bitmap_size (dec (ses p))) m1 m2 m3\<rparr> else p)
                   in (0, p)))"

text \<open>The ramp over the governor's table; the number of runs, and the proxy after them.\<close>

definition calibrate ::
  "('h, 'd) world \<Rightarrow> freq_mode \<Rightarrow> int \<times> bool \<Rightarrow> ('h, 'd) proxy \<Rightarrow> (nat \<times> ('h, 'd) proxy) outcome" where
  "calibrate W mode child p =
     (let (n, ctx, g) = freq_gov_calibrate (w_sysfs W) mode (calibration_run_one_shot W)
             (Returns (fst child, snd child, p)) (gov p)
      in obind ctx (\<lambda>(_, _, p). Returns (n, p\<lparr>gov := g\<rparr>)))"

definition calibrate_first ::
  "('h, 'd) world \<Rightarrow> freq_mode \<Rightarrow> int \<Rightarrow> ('h, 'd) proxy \<Rightarrow> (bool \<times> ('h, 'd) proxy) outcome" where
  "calibrate_first W mode pid p =
     (if \<not> needs_calibration p then Returns (False, p)
      else
        let p = p\<lparr>needs_calibration := False\<rparr>
        in if cov p = hybrid_cov
           then
             let (r, p) = proxy_bb_mode W 1 p
             in if r < 0 then Faults
                else
                  obind (calibrate W FREQ_MODE_ADDR (pid, True) p) (\<lambda>(n, p).
                    let p = p\<lparr>gov := freq_gov_copy_start FREQ_MODE_ATOM FREQ_MODE_ADDR (gov p)\<rparr>;
                        (r, p) = proxy_bb_mode W 0 p
                    in if r < 0 then Faults else Returns (n > 0, p))
           else obind (calibrate W mode (pid, True) p) (\<lambda>(n, p). Returns (n > 0, p)))"

definition enable_bb_first ::
  "('h, 'd) world \<Rightarrow> freq_mode \<Rightarrow> bool \<Rightarrow> ('h, 'd) proxy \<Rightarrow> ('h, 'd) proxy outcome" where
  "enable_bb_first W mode did_calibrate p =
     (if needs_bb_enable p \<and> cov p = edge_cov
      then
        let p = p\<lparr>needs_bb_enable := False\<rparr>;
            (r, p) = proxy_bb_mode W 1 p
        in if r < 0 then Faults
           else if did_calibrate
             then obind (calibrate W mode (- 1, False) p) (\<lambda>(_, p). Returns p)
             else Returns p
      else Returns p)"

text \<open>The Stalker part: calibration, branch broadcast, the replacement child and its frequency.\<close>

definition prepare_stalker ::
  "('h, 'd) world \<Rightarrow> int \<Rightarrow> ('h, 'd) proxy \<Rightarrow> (int option \<times> ('h, 'd) proxy) outcome" where
  "prepare_stalker W pid p =
     (let mode = current_freq_mode (cov p)
      in obind (calibrate_first W mode pid p) (\<lambda>(did_calibrate, p).
         obind (enable_bb_first W mode did_calibrate p) (\<lambda>p.
         obind (if did_calibrate then fork_fresh_child W p else Returns (pid, p)) (\<lambda>(pid, p).
           if did_calibrate \<and> pid < 0 then Returns (None, p)
           else Returns (Some pid, p\<lparr>gov := freq_gov_apply (w_sysfs W) mode (gov p)\<rparr>)))))"

text \<open>The result is a \<open>u32\<close>: an error is 1 or all ones, and the caller goes on while it is positive.\<close>

definition afl_next_testcase :: "('h, 'd) world \<Rightarrow> ('h, 'd) proxy \<Rightarrow> (u32 \<times> ('h, 'd) proxy) outcome" where
  "afl_next_testcase W p =
     obind (afl_read p) (\<lambda>(x, p).
       case x of
         None \<Rightarrow> Returns (1, p)
       | Some was_killed \<Rightarrow>
           let (ok, p) = ctl_write W was_killed p
           in if \<not> ok then Returns (- 1, p)
              else
                obind (st_read p) (\<lambda>(x, p).
                  case x of
                    None \<Rightarrow> Returns (- 1, p)
                  | Some v \<Rightarrow>
                      let pid = sint v;
                          (r, p) = (if first_run p then first_testcase W pid p else (0, p))
                      in if r < 0 then Returns (- 1, p)
                         else
                           obind (case cfg_backend (conf (ses p)) of
                                    Stalker \<Rightarrow> prepare_stalker W pid p
                                  | Armored \<Rightarrow> Returns (Some pid, p)) (\<lambda>(child, p).
                             case child of
                               None \<Rightarrow> Returns (- 1, p)
                             | Some pid \<Rightarrow>
                                 obind (start_and_resume W pid True p) (\<lambda>(r, p).
                                   Returns (if r < 0 then - 1 else word_of_int pid, p)))))"

text \<open>What the handler for \<open>SIGABRT\<close> does before it ends the process.\<close>

definition save_trace_on_abort_handler :: "sys_env \<Rightarrow> ('h, 'd) proxy \<Rightarrow> ('h, 'd) proxy" where
  "save_trace_on_abort_handler sys p =
     p\<lparr>ses := snd (export_trace sys ''cstrace.bin'' ''decoderargs.txt'' (ses p))\<rparr>"

section \<open>Serving a test case\<close>

lemma obind_cong [fundef_cong]:
  assumes "m = m'" and "\<And>x. m' = Returns x \<Longrightarrow> f x = f' x"
  shows "obind m f = obind m' f'"
  using assms by (cases m') simp_all

text \<open>
  The retry loop of the Stalker build: \<open>rep\<close> hidden retries so far, \<open>forced_min\<close> once the
  final run at the lowest frequency has been made. The result is \<open>-1\<close> or 0, the status of the
  last execution, whether it overflowed, and the proxy.
\<close>

lemma should_retry_bound: "freq_gov_should_retry mode ov rep g \<Longrightarrow> rep < 3"
  by (simp add: freq_gov_should_retry_def split: if_splits)

function attempt_loop ::
  "('h, 'd) world \<Rightarrow> freq_mode \<Rightarrow> int \<Rightarrow> bool \<Rightarrow> ('h, 'd) proxy
   \<Rightarrow> (int \<times> u32 \<times> bool \<times> ('h, 'd) proxy) outcome" where
  "attempt_loop W mode rep forced_min p =
     obind (wait_for_child_and_stop_trace W p) (\<lambda>(r, st, p).
       if r < 0 then Returns (- 1, st, False, p)
       else
         let p = p\<lparr>gov := freq_gov_restore_max (w_sysfs W) (gov p)\<rparr>;
             overflowed = (decoding_on (ses p) \<and> trace_did_overflow (dec (ses p)));
             p = count_exec overflowed p;
             g = gov p;
             p = p\<lparr>gov := freq_gov_on_result mode overflowed g\<rparr>
         in if freq_gov_should_retry mode overflowed rep g
            then
              obind (retry_child W mode p) (\<lambda>(r, p).
                if r < 0 then Returns (- 1, st, overflowed, p)
                else attempt_loop W mode (rep + 1) forced_min p)
            else if overflowed \<and> mode = FREQ_MODE_ADDR \<and> \<not> forced_min \<and> \<not> freq_gov_at_floor mode (gov p) \<and>
                    rep \<ge> FREQ_GOV_MAX_REPETITION_NUM
              then
                obind (retry_child W mode (p\<lparr>gov := freq_gov_force_min (gov p)\<rparr>)) (\<lambda>(r, p).
                  if r < 0 then Returns (- 1, st, overflowed, p)
                  else attempt_loop W mode rep True p)
            else Returns (0, st, overflowed, p))"
  by pat_completeness auto
termination
  by (relation "measure (\<lambda>(W, mode, rep, forced_min, p). nat (3 - rep) + (if forced_min then 0 else 1))")
    (auto dest: should_retry_bound)

declare attempt_loop.simps [simp del]

definition hybrid_step ::
  "('h, 'd) world \<Rightarrow> bool \<Rightarrow> ('h, 'd) proxy \<Rightarrow> (int \<times> ('h, 'd) proxy) outcome" where
  "hybrid_step W overflowed p =
     (let (v, m, h) = hybrid_after_path (w_arch W) (bitmap p) overflowed (input_key (at_input (cur p))) (hyb p);
          p = (set_bitmap m p)\<lparr>hyb := h\<rparr>
      in if v = HYBRID_CONFIRM then confirm_with_branch_broadcast W p
         else if hybrid_sample p \<noteq> 0
           then
             let p = p\<lparr>hybrid_discards := hybrid_discards p + 1\<rparr>
             in if hybrid_discards p mod hybrid_sample p = 0 then sample_with_branch_broadcast W p
                else Returns (0, p)
         else Returns (0, p))"

text \<open>The text \<open>write_stats\<close> puts in place of the file, and hybrid's own lines.\<close>

definition write_stats :: "('h, 'd) world \<Rightarrow> ('h, 'd) proxy \<Rightarrow> string \<times> (string \<times> u64 list) list" where
  "write_stats W p =
     (let B = cfg_backend (conf (ses p))
      in (''execs           : '' @ dec_string (unat (total_exec_count p)) @ [CHR 0x0A] @
          ''overflow_execs  : '' @ dec_string (unat (overflow_exec_count p)) @ [CHR 0x0A] @
          ''overflow_packets: '' @
            dec_string (unat (trace_overflow_packets B (w_dec W) (dec (ses p)))) @ [CHR 0x0A],
          if B = Stalker \<and> cov p = hybrid_cov then hybrid_write_stats (hyb p) else []))"

definition serve_stalker ::
  "('h, 'd) world \<Rightarrow> ('h, 'd) proxy \<Rightarrow> (int \<times> u32 \<times> ('h, 'd) proxy) outcome" where
  "serve_stalker W p =
     obind (attempt_loop W (current_freq_mode (cov p)) 0 False p) (\<lambda>(r, st, overflowed, p).
       if r < 0 then Returns (- 1, st, p)
       else if cov p = hybrid_cov \<and> decoding_on (ses p) \<and> \<not> WIFSIGNALED st
         then obind (hybrid_step W overflowed p) (\<lambda>(r, p). Returns (if r < 0 then - 1 else 0, st, p))
       else Returns (0, st, p))"

definition serve_armored ::
  "('h, 'd) world \<Rightarrow> ('h, 'd) proxy \<Rightarrow> (int \<times> u32 \<times> ('h, 'd) proxy) outcome" where
  "serve_armored W p =
     obind (wait_for_child_and_stop_trace W p) (\<lambda>(r, st, p).
       if r < 0 then Returns (- 1, st, p)
       else Returns (0, st, count_exec (decoding_on (ses p) \<and> trace_did_overflow (dec (ses p))) p))"

definition afl_end_testcase :: "('h, 'd) world \<Rightarrow> u32 \<Rightarrow> ('h, 'd) proxy \<Rightarrow> int \<times> ('h, 'd) proxy" where
  "afl_end_testcase W st p =
     (let (ok, p) = afl_write W st p in (if ok then 0 else - 1, p))"

text \<open>The body of the main loop, after \<open>__afl_next_testcase\<close> returned a positive value.\<close>

definition serve_testcase :: "('h, 'd) world \<Rightarrow> ('h, 'd) proxy \<Rightarrow> (int \<times> ('h, 'd) proxy) outcome" where
  "serve_testcase W p =
     obind (case cfg_backend (conf (ses p)) of Stalker \<Rightarrow> serve_stalker W p | Armored \<Rightarrow> serve_armored W p)
       (\<lambda>(r, st, p).
          if r < 0 then Returns (- 1, p)
          else
            let p = (if w_stats_file W \<and> total_exec_count p mod STATS_PERIOD = 0
                     then p\<lparr>stats := write_stats W p # stats p\<rparr> else p)
            in if \<not> decoding_on (ses p) \<and> trace_bitmap (dec (ses p)) = None then Faults
               else
                 let p = (if \<not> decoding_on (ses p) then set_bitmap ((bitmap p)[0 := 1]) p else p)
                 in Returns (afl_end_testcase W st p))"

text \<open>The loop, for at most \<open>n\<close> requests; \<open>None\<close> when it would go on.\<close>

fun main_loop :: "('h, 'd) world \<Rightarrow> nat \<Rightarrow> ('h, 'd) proxy \<Rightarrow> (int option \<times> ('h, 'd) proxy) outcome" where
  "main_loop W 0 p = Returns (None, p)"
| "main_loop W (Suc n) p =
     obind (afl_next_testcase W p) (\<lambda>(x, p).
       if x > 0
       then obind (serve_testcase W p) (\<lambda>(r, p). if r < 0 then Returns (Some (- 1), p) else main_loop W n p)
       else Returns (Some 0, p))"

section \<open>What the inner protocol leaves alone\<close>

text \<open>How many further executions the retry loop can still make.\<close>

definition attempts_left :: "int \<Rightarrow> bool \<Rightarrow> nat" where
  "attempts_left rep forced = nat (3 - rep) + (if forced then 0 else 1)"

lemma obind_Returns: "obind m f = Returns y \<longleftrightarrow> (\<exists>x. m = Returns x \<and> f x = Returns y)"
  by (cases m) auto

definition keeps :: "('s \<Rightarrow> 'o) \<Rightarrow> ('x \<Rightarrow> 's) \<Rightarrow> 'o \<Rightarrow> 'x outcome \<Rightarrow> bool" where
  "keeps obs st v m \<longleftrightarrow> (\<forall>x. m = Returns x \<longrightarrow> obs (st x) = v)"

lemma keeps_simps [simp]:
  "keeps obs st v (Returns x) \<longleftrightarrow> obs (st x) = v" "keeps obs st v Loops" "keeps obs st v Faults"
  by (simp_all add: keeps_def)

lemma keepsD: "keeps obs st v m \<Longrightarrow> m = Returns x \<Longrightarrow> obs (st x) = v"
  by (simp add: keeps_def)

lemma keeps_bind:
  assumes "keeps obs st v m" and "\<And>x. obs (st x) = v \<Longrightarrow> keeps obs' st' v' (f x)"
  shows "keeps obs' st' v' (obind m f)"
  using assms by (cases m) simp_all

lemma keeps_bind_other:
  assumes "\<And>x. keeps obs st' v (f x)"
  shows "keeps obs st' v (obind m f)"
  using assms by (cases m) simp_all

text \<open>
  The interface between a test case and the executions it is made of: a property of the proxy that
  starting a child, waiting for it and the bookkeeping around an execution keep. Then repeating
  executions, in the retry loop or in the calibration ramp, keeps it as well.
\<close>

locale exec_ops =
  fixes W :: "('h, 'd) world" and ok :: "('h, 'd) proxy \<Rightarrow> bool"
  assumes kept_gov: "ok p \<Longrightarrow> ok (p\<lparr>gov := g\<rparr>)"
    and kept_needs_calibration: "ok p \<Longrightarrow> ok (p\<lparr>needs_calibration := b\<rparr>)"
    and kept_needs_bb_enable: "ok p \<Longrightarrow> ok (p\<lparr>needs_bb_enable := b\<rparr>)"
    and kept_count: "ok p \<Longrightarrow> ok (count_exec ov p)"
    and kept_bb_mode: "ok p \<Longrightarrow> ok (snd (proxy_bb_mode W m p))"
    and kept_fork: "ok p \<Longrightarrow> keeps ok snd True (fork_fresh_child W p)"
    and kept_start: "ok p \<Longrightarrow> keeps ok snd True (start_and_resume W pid False p)"
    and kept_wait: "ok p \<Longrightarrow> keeps ok (\<lambda>x. snd (snd x)) True (wait_for_child_and_stop_trace W p)"
begin

lemmas kept = kept_gov kept_needs_calibration kept_needs_bb_enable kept_count kept_bb_mode Let_def case_prod_beta

lemma retry_child_ok: "ok p \<Longrightarrow> keeps ok snd True (retry_child W mode p)"
  by (auto simp: retry_child_def kept intro!: keeps_bind [OF kept_fork] keeps_bind [OF kept_start])

lemma edge_pass_ok: "ok p \<Longrightarrow> keeps ok (\<lambda>x. snd (snd x)) True (edge_pass W p)"
  by (auto simp: edge_pass_def kept intro!: keeps_bind [OF retry_child_ok] keeps_bind [OF kept_wait])

lemma attempt_loop_ok: "ok p \<Longrightarrow> keeps ok (\<lambda>x. snd (snd (snd x))) True (attempt_loop W mode rep forced p)"
proof (induction "attempts_left rep forced" arbitrary: mode rep forced p rule: less_induct)
  case less
  note bound = should_retry_bound
  show ?case
    by (subst attempt_loop.simps, rule keeps_bind [OF kept_wait [OF less.prems]])
      (auto simp: kept attempts_left_def intro!: keeps_bind [OF retry_child_ok] less.hyps dest!: bound)
qed

lemma serve_armored_ok: "ok p \<Longrightarrow> keeps ok (\<lambda>x. snd (snd x)) True (serve_armored W p)"
  by (auto simp: serve_armored_def kept intro!: keeps_bind [OF kept_wait])

text \<open>One run of the calibration callback, and the whole ramp.\<close>

lemma one_shot_ok:
  assumes "keeps ok (\<lambda>x. snd (snd x)) True ctx"
  shows "keeps ok (\<lambda>x. snd (snd x)) True (fst (snd (calibration_run_one_shot W ctx g)))"
proof -
  let ?run = "obind ctx (\<lambda>(child, have_child, p).
     obind (if have_child then Returns (child, p) else fork_fresh_child W p) (\<lambda>(pid, p).
       if \<not> have_child \<and> pid < 0 then Returns (None, child, p)
       else obind (start_and_resume W pid False p) (\<lambda>(r, p).
         if r < 0 then Returns (None, pid, p)
         else obind (wait_for_child_and_stop_trace W p) (\<lambda>(r, _, p).
           if r < 0 then Returns (None, pid, p)
           else Returns (Some (decoding_on (ses p) \<and> trace_did_overflow (dec (ses p))), pid, p)))))"
  have f: "keeps ok snd True (if h then Returns (c, p) else fork_fresh_child W p)" if "ok p" for h c p
    using that by (auto intro: kept_fork)
  have "keeps ok (\<lambda>x. snd (snd x)) True ?run"
    by (rule keeps_bind [OF assms], simp only: case_prod_beta, rule keeps_bind [OF f], simp)
      (auto intro!: keeps_bind [OF kept_start] keeps_bind [OF kept_wait] simp: case_prod_beta)
  then show ?thesis
    by (cases ?run) (auto simp: calibration_run_one_shot_def split: option.split)
qed

lemma ramp_ok:
  assumes "keeps ok (\<lambda>x. snd (snd x)) True ctx"
  shows "keeps ok (\<lambda>x. snd (snd x)) True
    (fst (snd (calibrate_ramp e mode (calibration_run_one_shot W) i n k ctx g)))"
  using assms
proof (induction n arbitrary: i k ctx g)
  case (Suc n)
  then show ?case
    using one_shot_ok [OF Suc.prems] by (simp add: Let_def case_prod_beta)
qed simp

lemma calibrate_ok: "ok p \<Longrightarrow> keeps ok snd True (calibrate W mode child p)"
  unfolding calibrate_def Let_def case_prod_beta
  by (rule keeps_bind [where obs = ok and v = True and st = "\<lambda>x. snd (snd x)"])
    (auto simp: freq_gov_calibrate_def kept intro: ramp_ok)

lemma calibrate_first_ok: "ok p \<Longrightarrow> keeps ok snd True (calibrate_first W mode pid p)"
  by (auto simp: calibrate_first_def kept intro!: keeps_bind [OF calibrate_ok])

lemma enable_bb_first_ok: "ok p \<Longrightarrow> keeps ok id True (enable_bb_first W mode did p)"
  by (auto simp: enable_bb_first_def kept intro!: keeps_bind [OF calibrate_ok])

lemma prepare_stalker_ok: "ok p \<Longrightarrow> keeps ok snd True (prepare_stalker W pid p)"
  by (auto simp: prepare_stalker_def kept
      intro!: keeps_bind [OF calibrate_first_ok] keeps_bind [OF enable_bb_first_ok]
        keeps_bind [OF kept_fork])

end

text \<open>An observation that none of the fields one execution writes enters into has that interface for every value.\<close>

locale exec_frame =
  fixes obs :: "('h, 'd) proxy \<Rightarrow> 'o"
  assumes obs_ses: "obs (p\<lparr>ses := s\<rparr>) = obs p"
    and obs_gov: "obs (p\<lparr>gov := g\<rparr>) = obs p"
    and obs_fsrv_in: "obs (p\<lparr>fsrv_in := xs\<rparr>) = obs p"
    and obs_fsrv_out: "obs (p\<lparr>fsrv_out := ys\<rparr>) = obs p"
    and obs_runs: "obs (p\<lparr>runs := as\<rparr>) = obs p"
    and obs_cur: "obs (p\<lparr>cur := a\<rparr>) = obs p"
    and obs_total: "obs (p\<lparr>total_exec_count := n\<rparr>) = obs p"
    and obs_overflow: "obs (p\<lparr>overflow_exec_count := n\<rparr>) = obs p"
    and obs_needs_calibration: "obs (p\<lparr>needs_calibration := b\<rparr>) = obs p"
    and obs_needs_bb_enable: "obs (p\<lparr>needs_bb_enable := b\<rparr>) = obs p"
begin

lemmas exec_simps = obs_ses obs_gov obs_fsrv_in obs_fsrv_out obs_runs obs_cur obs_total obs_overflow
  obs_needs_calibration obs_needs_bb_enable

lemma ctl_write_obs: "obs (snd (ctl_write W v p)) = obs p"
  by (simp add: ctl_write_def exec_simps)

lemma count_exec_obs: "obs (count_exec ov p) = obs p"
  by (simp add: count_exec_def exec_simps)

lemma bb_mode_obs: "obs (snd (proxy_bb_mode W m p)) = obs p"
  by (simp add: proxy_bb_mode_def case_prod_beta Let_def exec_simps)

lemma set_bitmap_obs: "obs (set_bitmap m p) = obs p"
  by (simp add: set_bitmap_def exec_simps)

lemmas exec_obs = exec_simps count_exec_obs bb_mode_obs set_bitmap_obs ctl_write_obs Let_def case_prod_beta

lemma st_read_obs: "obs p = v \<Longrightarrow> keeps obs snd v (st_read p)"
  by (simp add: st_read_def exec_obs split: list.split)

lemma fork_fresh_child_obs: "obs p = v \<Longrightarrow> keeps obs snd v (fork_fresh_child W p)"
  by (auto simp: fork_fresh_child_def exec_obs intro!: keeps_bind [OF st_read_obs])

lemma start_and_resume_obs: "obs p = v \<Longrightarrow> keeps obs snd v (start_and_resume W pid False p)"
  by (auto simp: start_and_resume_def exec_obs intro!: keeps_bind_other split: list.split)

lemma wait_obs: "obs p = v \<Longrightarrow> keeps obs (\<lambda>x. snd (snd x)) v (wait_for_child_and_stop_trace W p)"
  by (auto simp: wait_for_child_and_stop_trace_def exec_obs intro!: keeps_bind_other split: option.split)

end

lemma keeps_eq: "keeps (\<lambda>s. obs s = v) st True m \<longleftrightarrow> keeps obs st v m"
  by (simp add: keeps_def)

sublocale exec_frame \<subseteq> ops: exec_ops W "\<lambda>p. obs p = v" for W v
  by unfold_locales (auto simp: exec_obs keeps_eq intro: fork_fresh_child_obs start_and_resume_obs wait_obs)

context exec_frame
begin

lemmas retry_child_obs = ops.retry_child_ok [unfolded keeps_eq]
lemmas edge_pass_obs = ops.edge_pass_ok [unfolded keeps_eq]
lemmas attempt_loop_obs = ops.attempt_loop_ok [unfolded keeps_eq]
lemmas serve_armored_obs = ops.serve_armored_ok [unfolded keeps_eq]
lemmas prepare_stalker_obs = ops.prepare_stalker_ok [unfolded keeps_eq]

end

text \<open>An observation that does not look at the hybrid state either is kept by the whole of serving a test case.\<close>

locale inner_frame = exec_frame obs for obs :: "('h, 'd) proxy \<Rightarrow> 'o" +
  assumes obs_hyb: "obs (p\<lparr>hyb := h\<rparr>) = obs p"
    and obs_discards: "obs (p\<lparr>hybrid_discards := n\<rparr>) = obs p"
begin

lemmas update_obs = exec_obs obs_hyb obs_discards

lemma confirm_obs: "obs p = v \<Longrightarrow> keeps obs snd v (confirm_with_branch_broadcast W p)"
  by (auto simp: confirm_with_branch_broadcast_def update_obs intro!: keeps_bind [OF edge_pass_obs])

lemma sample_obs: "obs p = v \<Longrightarrow> keeps obs snd v (sample_with_branch_broadcast W p)"
  by (auto simp: sample_with_branch_broadcast_def update_obs intro!: keeps_bind [OF edge_pass_obs])

lemma hybrid_step_obs: "obs p = v \<Longrightarrow> keeps obs snd v (hybrid_step W ov p)"
  by (auto simp: hybrid_step_def update_obs intro!: confirm_obs sample_obs)

lemma serve_stalker_obs: "obs p = v \<Longrightarrow> keeps obs (\<lambda>x. snd (snd x)) v (serve_stalker W p)"
  by (auto simp: serve_stalker_def update_obs intro!: keeps_bind [OF attempt_loop_obs] keeps_bind [OF hybrid_step_obs])

end

text \<open>The requests of AFL++ also go through the one-off work of the first test case.\<close>

locale outer_frame = inner_frame obs for obs :: "('h, 'd) proxy \<Rightarrow> 'o" +
  assumes obs_first_run: "obs (p\<lparr>first_run := b\<rparr>) = obs p"
begin

lemma first_testcase_obs: "obs (snd (first_testcase W pid p)) = obs p"
  by (simp add: first_testcase_def update_obs obs_first_run split: backend.split)

end

interpretation replies: outer_frame "afl_out :: ('h, 'd) proxy \<Rightarrow> u32 list"
  by unfold_locales simp_all

interpretation requests: outer_frame "afl_in :: ('h, 'd) proxy \<Rightarrow> u32 option list"
  by unfold_locales simp_all

interpretation hybrid_state: exec_frame "hyb :: ('h, 'd) proxy \<Rightarrow> hybrid"
  by unfold_locales simp_all

interpretation started: inner_frame "first_run :: ('h, 'd) proxy \<Rightarrow> bool"
  by unfold_locales simp_all

end
