(* ===== verification/Proxy_Runs.thy ===== *)
theory Proxy_Runs
  imports Proxy
begin

text \<open>
  What \<open>Proxy\<close> promises AFL++ over whole test cases: the protocol on the outer pipe, the bound on
  the hidden executions, the execution a map is shown from and the key of the test case. The last part
  is a simulated proxy, on which every property is applied once.
\<close>

unbundle bit_operations_syntax

section \<open>The protocol with AFL++\<close>

definition reported :: "u32 list \<Rightarrow> ('h, 'd) proxy \<Rightarrow> bool" where
  "reported out q \<longleftrightarrow> afl_out q = out \<or> (\<exists>pid. afl_out q = out @ [pid])"

lemma start_and_resume_reports:
  "afl_out p = out \<Longrightarrow> keeps (reported out) snd True (start_and_resume W pid True p)"
  by (auto simp: start_and_resume_def afl_write_def reported_def Let_def intro!: keeps_bind_other split: list.split)

lemma afl_read_out: "afl_out p = out \<Longrightarrow> keeps afl_out snd out (afl_read p)"
  by (simp add: afl_read_def split: list.split)

lemma first_testcase_out: "afl_out (snd (first_testcase W pid p)) = afl_out p"
  by (rule replies.first_testcase_obs)

lemma next_testcase_reports: "keeps (reported (afl_out p)) snd True (afl_next_testcase W p)"
proof -
  let ?out = "afl_out p"
  have same: "reported ?out q" if "afl_out q = ?out" for q :: "('a, 'b) proxy"
    using that by (simp add: reported_def)
  have ctl: "afl_out (snd (ctl_write W v q)) = afl_out q" for v q by (rule replies.ctl_write_obs)
  show ?thesis
    unfolding afl_next_testcase_def Let_def case_prod_beta
    by (rule keeps_bind [OF afl_read_out [OF refl]])
      (auto simp: ctl same first_testcase_out case_prod_beta split: option.split backend.split
        intro!: keeps_bind [OF replies.st_read_obs [where v = ?out]]
          keeps_bind [OF replies.prepare_stalker_obs [where v = ?out]] keeps_bind [OF start_and_resume_reports [where out = ?out]])
qed

lemma serve_testcase_reports:
  assumes "serve_testcase W p = Returns (0, q)"
  shows "\<exists>st. afl_out q = afl_out p @ [st]"
proof -
  let ?s = "case cfg_backend (conf (ses p)) of Stalker \<Rightarrow> serve_stalker W p | Armored \<Rightarrow> serve_armored W p"
  have k: "keeps afl_out (\<lambda>x. snd (snd x)) (afl_out p) ?s"
    by (simp add: replies.serve_stalker_obs replies.serve_armored_obs split: backend.split)
  obtain r st a where s: "?s = Returns (r, st, a)"
    using assms by (cases ?s) (auto simp: serve_testcase_def)
  have a: "afl_out a = afl_out p" using keepsD [OF k s] by simp
  show ?thesis
    using assms a unfolding serve_testcase_def s
    by (auto simp: Let_def afl_end_testcase_def afl_write_def replies.set_bitmap_obs split: if_splits)
qed

text \<open>One request is taken from AFL++ for a test case, and serving it takes none.\<close>

lemma start_and_resume_requests: "afl_in p = v \<Longrightarrow> keeps afl_in snd v (start_and_resume W pid b p)"
  by (auto simp: start_and_resume_def afl_write_def Let_def intro!: keeps_bind_other split: list.split)

lemma next_testcase_requests: "keeps afl_in snd (tl (afl_in p)) (afl_next_testcase W p)"
proof -
  let ?in = "tl (afl_in p)"
  have r: "keeps afl_in snd ?in (afl_read p)" by (simp add: afl_read_def split: list.split)
  show ?thesis
    unfolding afl_next_testcase_def Let_def case_prod_beta
    by (rule keeps_bind [OF r])
      (auto simp: requests.ctl_write_obs requests.first_testcase_obs case_prod_beta split: option.split backend.split
        intro!: keeps_bind [OF requests.st_read_obs [where v = ?in]]
          keeps_bind [OF requests.prepare_stalker_obs [where v = ?in]] keeps_bind [OF start_and_resume_requests [where v = ?in]])
qed

lemma serve_testcase_requests: "keeps afl_in snd (afl_in p) (serve_testcase W p)"
  unfolding serve_testcase_def
  by (rule keeps_bind [where st = "\<lambda>x. snd (snd x)" and v = "afl_in p" and obs = afl_in])
    (auto simp: requests.serve_stalker_obs requests.serve_armored_obs Let_def case_prod_beta afl_end_testcase_def
      afl_write_def requests.set_bitmap_obs split: backend.split)

text \<open>
  C6: AFL++ reads one pid and one status per request, whatever happens in between. When a request
  is taken up, the child reported and the test case served to the end, exactly one word has been
  read from AFL++ and exactly two have been written to it: the pid, then the status. Calibration
  runs, hidden retries after overflows, the forced run at the lowest frequency and hybrid's
  confirming or sampling executions all use the inner protocol only.
\<close>

theorem one_pid_one_status:
  assumes "afl_next_testcase W p = Returns (x, p1)" and "afl_out p1 \<noteq> afl_out p"
    and "serve_testcase W p1 = Returns (0, p2)"
  shows "afl_in p2 = tl (afl_in p) \<and> (\<exists>pid st. afl_out p2 = afl_out p @ [pid, st])"
proof
  obtain pid where "afl_out p1 = afl_out p @ [pid]"
    using keepsD [OF next_testcase_reports assms(1)] assms(2) by (auto simp: reported_def)
  with serve_testcase_reports [OF assms(3)] show "\<exists>pid st. afl_out p2 = afl_out p @ [pid, st]" by auto
  show "afl_in p2 = tl (afl_in p)"
    using keepsD [OF next_testcase_requests assms(1)] keepsD [OF serve_testcase_requests assms(3)] by simp
qed

text \<open>
  A proxy that AFL++ has left does not end. When the read of the next request fails,
  \<open>__afl_next_testcase\<close> returns 1, which its caller takes for a child's pid; the proxy then waits
  for the status of a child it never asked for, and the fork server, which got no request, sends none.
\<close>

theorem lost_parent_hangs:
  assumes "afl_in p = None # r" and "fsrv_in p = []"
  shows "main_loop W (Suc n) p = Loops"
  using assms
  by (simp add: afl_next_testcase_def afl_read_def serve_testcase_def serve_stalker_def serve_armored_def
      attempt_loop.simps wait_for_child_and_stop_trace_def split: backend.split)

section \<open>Retries are bounded\<close>

text \<open>An execution uses up one attempt, and waiting for it uses none.\<close>

lemma fork_fresh_child_runs: "keeps runs snd (runs p) (fork_fresh_child W p)"
  by (auto simp: fork_fresh_child_def st_read_def ctl_write_def obind_def split: list.split)

lemma wait_runs: "keeps runs (\<lambda>x. snd (snd x)) (runs p) (wait_for_child_and_stop_trace W p)"
  by (auto simp: wait_for_child_and_stop_trace_def Let_def case_prod_beta intro!: keeps_bind_other split: option.split)

definition used :: "nat \<Rightarrow> 'h attempt list \<Rightarrow> ('h, 'd) proxy \<Rightarrow> bool" where
  "used n as q \<longleftrightarrow> length as \<le> length (runs q) + n"

lemma start_and_resume_used: "runs p = as \<Longrightarrow> keeps (used (Suc 0) as) snd True (start_and_resume W pid False p)"
  by (auto simp: start_and_resume_def used_def Let_def case_prod_beta intro!: keeps_bind_other split: list.split)

lemma retry_child_used: "keeps (used (Suc 0) (runs p)) snd True (retry_child W mode p)"
  unfolding retry_child_def
  by (rule keeps_bind [OF fork_fresh_child_runs])
    (auto simp: used_def Let_def case_prod_beta intro!: keeps_bind [OF start_and_resume_used])

lemma keeps_if: "(c \<Longrightarrow> keeps f st v m) \<Longrightarrow> (\<not> c \<Longrightarrow> keeps f st v m') \<Longrightarrow> keeps f st v (if c then m else m')"
  by simp

lemma attempt_loop_used:
  "keeps (used (attempts_left rep forced) (runs p)) (\<lambda>x. snd (snd (snd x))) True (attempt_loop W mode rep forced p)"
proof (induction "attempts_left rep forced" arbitrary: rep forced p rule: less_induct)
  case less
  let ?n = "attempts_left rep forced"
  have again: "keeps (used ?n (runs p)) (\<lambda>x. snd (snd (snd x))) True
      (obind (retry_child W mode q) (\<lambda>x. if fst x < 0 then Returns (- 1, st, ov, snd x)
         else attempt_loop W mode rep' forced' (snd x)))"
    if "attempts_left rep' forced' < ?n" "runs q = runs p" for rep' forced' st ov q
  proof (rule keeps_bind [OF retry_child_used])
    fix x :: "int \<times> ('a, 'b) proxy"
    assume u: "used (Suc 0) (runs q) (snd x) = True"
    have "keeps (used ?n (runs p)) (\<lambda>x. snd (snd (snd x))) True (attempt_loop W mode rep' forced' (snd x))"
      using less [OF that(1), of "snd x"] u that
      by (cases "attempt_loop W mode rep' forced' (snd x)") (auto simp: used_def)
    with u that show "keeps (used ?n (runs p)) (\<lambda>x. snd (snd (snd x))) True
        (if fst x < 0 then Returns (- 1, st, ov, snd x) else attempt_loop W mode rep' forced' (snd x))"
      by (auto simp: used_def)
  qed
  show ?case
    unfolding attempt_loop.simps [of W mode rep forced p] Let_def case_prod_beta
    by (rule keeps_bind [OF wait_runs], intro keeps_if again)
      (auto simp: count_exec_def used_def attempts_left_def dest: should_retry_bound)
qed

text \<open>
  C13: A test case is executed at most five times. The retry loop that follows the first
  execution starts at most four more: three hidden retries at falling frequencies and one run
  forced to the lowest. Path and hybrid coverage, which run in the atom mode, never retry. The
  loop needs no fuel: it is a total function by this very bound.
\<close>

theorem attempts_bounded:
  assumes "attempt_loop W mode 0 False p = Returns (r, st, ov, q)"
  shows "length (runs p) \<le> length (runs q) + 4 \<and> (mode = FREQ_MODE_ATOM \<longrightarrow> runs q = runs p)"
proof -
  have "used (attempts_left 0 False) (runs p) q"
    using keepsD [OF attempt_loop_used assms] by simp
  then have "length (runs p) \<le> length (runs q) + 4" by (simp add: used_def attempts_left_def)
  moreover have "runs q = runs p" if "mode = FREQ_MODE_ATOM"
  proof -
    have "keeps runs (\<lambda>x. snd (snd (snd x))) (runs p) (attempt_loop W FREQ_MODE_ATOM 0 False p)"
      by (subst attempt_loop.simps, rule keeps_bind [OF wait_runs])
        (auto simp: count_exec_def Let_def case_prod_beta freq_gov_should_retry_def)
    with assms that show ?thesis using keepsD by fastforce
  qed
  ultimately show ?thesis by blast
qed

section \<open>When an overflowed map is shown\<close>

text \<open>Starting a retry uses one attempt and leaves the governor as \<open>freq_gov_apply\<close> set it.\<close>

lemma fork_fresh_child_gov: "keeps gov snd (gov p) (fork_fresh_child W p)"
  by (auto simp: fork_fresh_child_def st_read_def ctl_write_def obind_def split: list.split)

lemma wait_gov: "keeps gov (\<lambda>x. snd (snd x)) (gov p) (wait_for_child_and_stop_trace W p)"
  by (auto simp: wait_for_child_and_stop_trace_def Let_def case_prod_beta intro!: keeps_bind_other split: option.split)

lemma retry_child_started:
  assumes "retry_child W mode p = Returns (r, q)" and "\<not> r < 0"
  shows "length (runs p) = Suc (length (runs q)) \<and> gov q = freq_gov_apply (w_sysfs W) mode (gov p)"
proof -
  obtain pid p1 where f: "fork_fresh_child W p = Returns (pid, p1)" "\<not> pid < 0"
    using assms by (cases "fork_fresh_child W p") (auto simp: retry_child_def split: if_splits)
  have "runs p1 = runs p" "gov p1 = gov p"
    using keepsD [OF fork_fresh_child_runs f(1)] keepsD [OF fork_fresh_child_gov f(1)] by simp_all
  moreover have "length (runs p1) = Suc (length (runs q))" "gov q = freq_gov_apply (w_sysfs W) mode (gov p1)"
    using assms f
    by (auto simp: retry_child_def start_and_resume_def obind_Returns case_prod_beta Let_def split: list.splits if_splits)
  ultimately show ?thesis by simp
qed

text \<open>What the loop needs of the governor: its table and its switches do not change.\<close>

definition gov_base :: "freq_state \<Rightarrow> u64 list \<times> bool" where
  "gov_base g = (freq_table g, g_enabled g)"

lemma set_freq_sel [simp]:
  "last_set_freq (set_freq e f g) = f" "gov_base (set_freq e f g) = gov_base g"
  "cur_idx (set_freq e f g) = cur_idx g" "force_min_pending (set_freq e f g) = force_min_pending g"
  by (simp_all add: set_freq_def write_sysfs_def gov_base_def Let_def)

lemma on_result_overflow:
  "g_enabled s \<Longrightarrow> cur_idx (freq_gov_on_result m True s) m =
     (if cur_idx s m > 0 then cur_idx s m - 1 else cur_idx s m)"
  "gov_base (freq_gov_on_result m ov s) = gov_base s"
  "force_min_pending (freq_gov_on_result m ov s) = force_min_pending s"
  by (auto simp: freq_gov_on_result_def on_overflow_def on_clean_def adapt_interval_def gov_base_def Let_def)

lemma restore_max_sel [simp]:
  "gov_base (freq_gov_restore_max e g) = gov_base g" "cur_idx (freq_gov_restore_max e g) = cur_idx g"
  "force_min_pending (freq_gov_restore_max e g) = force_min_pending g"
  by (simp_all add: freq_gov_restore_max_def)

text \<open>
  The governor when an execution of the address pass starts: on, with the frequency of its current
  rung set, or for a forced run with the lowest one.
\<close>

definition running_at :: "u64 list \<Rightarrow> nat \<Rightarrow> nat \<Rightarrow> freq_state \<Rightarrow> bool" where
  "running_at tab i rung g \<longleftrightarrow>
     gov_base g = (tab, True) \<and> \<not> force_min_pending g \<and> cur_idx g FREQ_MODE_ADDR = int i \<and>
     last_set_freq g = tab ! rung"

lemma apply_running_at:
  "gov_base g = (tab, True) \<Longrightarrow> cur_idx g FREQ_MODE_ADDR = int i \<Longrightarrow> \<not> force_min_pending g \<Longrightarrow>
     running_at tab i i (freq_gov_apply e FREQ_MODE_ADDR g)"
  "gov_base g = (tab, True) \<Longrightarrow> cur_idx g FREQ_MODE_ADDR = int i \<Longrightarrow>
     running_at tab i 0 (freq_gov_apply e FREQ_MODE_ADDR (freq_gov_force_min g))"
  by (auto simp: running_at_def freq_gov_apply_def freq_gov_force_min_def gov_base_def [of g] set_freq_sel)
    (simp_all add: gov_base_def)


lemma wait_result: "wait_for_child_and_stop_trace W p = Returns (r, st, q) \<Longrightarrow> r = 0 \<or> r = - 1"
  by (auto simp: wait_for_child_and_stop_trace_def obind_Returns Let_def case_prod_beta split: option.splits if_splits)

text \<open>One turn of the loop on an execution that overflowed: it is repeated one rung down, repeated at the lowest frequency, or shown.\<close>

lemma attempt_loop_turn:
  assumes e: "attempt_loop W FREQ_MODE_ADDR rep forced p = Returns (0, st, True, q)"
    and g: "running_at tab i rung (gov p)" and rep: "rep \<le> 3"
  obtains (retry) p3 r p' where "rep < 3" "0 < i" "retry_child W FREQ_MODE_ADDR p3 = Returns (r, p')" "\<not> r < 0"
      "attempt_loop W FREQ_MODE_ADDR (rep + 1) forced p' = Returns (0, st, True, q)"
      "gov_base (gov p3) = (tab, True)" "cur_idx (gov p3) FREQ_MODE_ADDR = int (i - 1)" "\<not> force_min_pending (gov p3)"
      "runs p3 = runs p"
  | (force) p3 r p' where "rep = 3" "\<not> forced" "2 \<le> i"
      "retry_child W FREQ_MODE_ADDR (p3\<lparr>gov := freq_gov_force_min (gov p3)\<rparr>) = Returns (r, p')" "\<not> r < 0"
      "attempt_loop W FREQ_MODE_ADDR rep True p' = Returns (0, st, True, q)"
      "gov_base (gov p3) = (tab, True)" "cur_idx (gov p3) FREQ_MODE_ADDR = int (i - 1)" "runs p3 = runs p"
  | (shown) p1 where "wait_for_child_and_stop_trace W p = Returns (0, st, p1)" "ses q = ses p1" "runs q = runs p"
      "i = 0 \<or> rep = 3 \<and> (forced \<or> i = 1)"
proof -
  let ?m = FREQ_MODE_ADDR
  obtain r st1 p1 where w: "wait_for_child_and_stop_trace W p = Returns (r, st1, p1)"
    using e by (cases "wait_for_child_and_stop_trace W p") (auto simp: attempt_loop.simps [of W _ rep])
  have k: "runs p1 = runs p" "gov p1 = gov p" using keepsD [OF wait_runs w] keepsD [OF wait_gov w] by simp_all
  define p0 where "p0 = p1\<lparr>gov := freq_gov_restore_max (w_sysfs W) (gov p1)\<rparr>"
  define v where "v = (decoding_on (ses p0) \<and> trace_did_overflow (dec (ses p0)))"
  define p2 where "p2 = count_exec v p0"
  define p3 where "p3 = p2\<lparr>gov := freq_gov_on_result ?m v (gov p2)\<rparr>"
  have g2: "gov_base (gov p2) = (tab, True)" "cur_idx (gov p2) ?m = int i" "\<not> force_min_pending (gov p2)"
    using g by (simp_all add: p2_def p0_def count_exec_def k running_at_def)
  then have en: "g_enabled (gov p2)" by (simp add: gov_base_def)
  have g3: "gov_base (gov p3) = (tab, True)" "\<not> force_min_pending (gov p3)" "v \<longrightarrow> cur_idx (gov p3) ?m = int (i - 1)"
    using g2 en by (auto simp: p3_def on_result_overflow of_nat_diff)
  have s: "ses p3 = ses p1" "runs p3 = runs p" by (simp_all add: p3_def p2_def p0_def count_exec_def k)
  have floor: "freq_gov_at_floor ?m (gov p3) \<longleftrightarrow> cur_idx (gov p3) ?m = 0"
    using g3(1) by (simp add: freq_gov_at_floor_def gov_base_def)
  have eq: "attempt_loop W ?m rep forced p =
      (if r < 0 then Returns (- 1, st1, False, p1)
       else if freq_gov_should_retry ?m v rep (gov p2)
         then obind (retry_child W ?m p3) (\<lambda>(r, p). if r < 0 then Returns (- 1, st1, v, p)
           else attempt_loop W ?m (rep + 1) forced p)
       else if v \<and> ?m = FREQ_MODE_ADDR \<and> \<not> forced \<and> \<not> freq_gov_at_floor ?m (gov p3) \<and> rep \<ge> FREQ_GOV_MAX_REPETITION_NUM
         then obind (retry_child W ?m (p3\<lparr>gov := freq_gov_force_min (gov p3)\<rparr>)) (\<lambda>(r, p).
           if r < 0 then Returns (- 1, st1, v, p) else attempt_loop W ?m rep True p)
       else Returns (0, st1, v, p3))"
    unfolding attempt_loop.simps [of W ?m rep forced p] w obind_simps case_prod_conv Let_def p3_def p2_def v_def p0_def ..
  have r0: "r = 0" using e eq wait_result [OF w] by (auto split: if_splits)
  have sr: "freq_gov_should_retry ?m v rep (gov p2) \<longleftrightarrow> v \<and> 0 < i \<and> rep < 3"
    using en g2(2) by (auto simp: freq_gov_should_retry_def)
  consider (a) "freq_gov_should_retry ?m v rep (gov p2)"
    | (b) "\<not> freq_gov_should_retry ?m v rep (gov p2)" "v \<and> \<not> forced \<and> \<not> freq_gov_at_floor ?m (gov p3) \<and> rep \<ge> 3"
    | (c) "\<not> freq_gov_should_retry ?m v rep (gov p2)" "\<not> (v \<and> \<not> forced \<and> \<not> freq_gov_at_floor ?m (gov p3) \<and> rep \<ge> 3)"
    by blast
  then show thesis
  proof cases
    case a
    then have "obind (retry_child W ?m p3) (\<lambda>(r, p). if r < 0 then Returns (- 1, st1, v, p)
        else attempt_loop W ?m (rep + 1) forced p) = Returns (0, st, True, q)"
      using e eq r0 by simp
    then show thesis using retry [of p3] a g3 s sr by (auto simp: obind_Returns split: if_splits)
  next
    case b
    then have "obind (retry_child W ?m (p3\<lparr>gov := freq_gov_force_min (gov p3)\<rparr>)) (\<lambda>(r, p).
        if r < 0 then Returns (- 1, st1, v, p) else attempt_loop W ?m rep True p) = Returns (0, st, True, q)"
      using e eq r0 by simp
    moreover have "rep = 3" "2 \<le> i" using b rep g3(3) floor by auto
    ultimately show thesis using force [of p3] b g3 s by (auto simp: obind_Returns split: if_splits)
  next
    case c
    then have q: "q = p3" "st1 = st" "v" using e eq r0 by auto
    moreover have "i = 0 \<or> rep = 3 \<and> (forced \<or> i = 1)"
      using c q(3) sr rep g3(3) floor by auto
    ultimately show thesis using shown [of p1] w r0 s by simp
  qed
qed

text \<open>The rung of the execution whose overflowed map is shown, and the executions made on the way to it.\<close>

definition shown_at :: "int \<Rightarrow> bool \<Rightarrow> nat \<Rightarrow> nat \<times> nat" where
  "shown_at rep forced i =
     (if forced then (0, 0)
      else if int i + rep \<le> 3 then (0, i)
      else if int i + rep = 4 then (1, nat (3 - rep))
      else (0, nat (4 - rep)))"

lemma attempt_loop_shown:
  assumes "attempt_loop W FREQ_MODE_ADDR rep forced p = Returns (0, st, True, q)"
    and "running_at tab i (if forced then 0 else i) (gov p)" and "0 \<le> rep" and "rep \<le> 3" and "forced \<longrightarrow> rep = 3"
  shows "\<exists>p1 p2. wait_for_child_and_stop_trace W p1 = Returns (0, st, p2) \<and> ses q = ses p2 \<and>
    last_set_freq (gov p1) = tab ! fst (shown_at rep forced i) \<and>
    length (runs p) = length (runs q) + snd (shown_at rep forced i)"
  using assms
proof (induction "attempts_left rep forced" arbitrary: rep forced i p rule: less_induct)
  case less
  from less.prems(1,2,4) show ?case
  proof (cases rule: attempt_loop_turn)
    case (retry p3 r p')
    note g = retry_child_started [OF retry(3,4)]
    have nf: "\<not> forced" using retry(1) less.prems(5) by auto
    have "running_at tab (i - 1) (i - 1) (gov p')" using apply_running_at(1) [OF retry(6-8)] g by simp
    then obtain p1 p2 where h: "wait_for_child_and_stop_trace W p1 = Returns (0, st, p2)" "ses q = ses p2"
        "last_set_freq (gov p1) = tab ! fst (shown_at (rep + 1) False (i - 1))"
        "length (runs p') = length (runs q) + snd (shown_at (rep + 1) False (i - 1))"
      using less.hyps [of "rep + 1" forced p' "i - 1"] retry(1,5) nf less.prems(3) by (auto simp: attempts_left_def)
    have "shown_at (rep + 1) False (i - 1) = (fst (shown_at rep False i), snd (shown_at rep False i) - 1)"
        "0 < snd (shown_at rep False i)"
      using retry(1,2) less.prems(3) by (auto simp: shown_at_def)
    with h g retry(9) nf show ?thesis by auto
  next
    case (force p3 r p')
    note g = retry_child_started [OF force(4,5)]
    have "running_at tab (i - 1) 0 (gov p')" using apply_running_at(2) [OF force(7,8)] g by simp
    then obtain p1 p2 where "wait_for_child_and_stop_trace W p1 = Returns (0, st, p2)" "ses q = ses p2"
        "last_set_freq (gov p1) = tab ! 0" "length (runs p') = length (runs q)"
      using less.hyps [of rep True p' "i - 1"] force(1,2,6) by (auto simp: attempts_left_def shown_at_def)
    with g force(1-3,9) show ?thesis by (auto simp: shown_at_def)
  next
    case (shown p1)
    have "last_set_freq (gov p) = tab ! fst (shown_at rep forced i) \<and> snd (shown_at rep forced i) = 0"
      using shown(4) less.prems(2-5) by (auto simp: shown_at_def running_at_def)
    with shown(1-3) show ?thesis by auto
  qed
qed


section \<open>The input key\<close>

text \<open>FNV-1a over 64 bits.\<close>

definition fnv1a :: "u8 list \<Rightarrow> u64" where
  "fnv1a bs = foldl (\<lambda>h b. (h XOR ucast b) * (2 ^ 40 + 2 ^ 8 + 0xb3)) 14695981039346656037 bs"

lemma pread_loop_contents:
  assumes "\<And>off. \<not> in_fails f off" and "off \<le> length (in_bytes f)"
  shows "pread_loop f h off = Some (foldl fnv_step h (drop off (in_bytes f)), length (in_bytes f))"
  using assms(2)
proof (induction "length (in_bytes f) - off" arbitrary: h off rule: less_induct)
  case less
  define k where "k = min 65536 (max 1 (in_given f off))"
  let ?rest = "drop off (in_bytes f)"
  have c: "pread f 65536 off = Some (take k ?rest)" by (simp add: pread_def assms(1) k_def)
  show ?case
  proof (cases "off = length (in_bytes f)")
    case True
    with c show ?thesis by (simp add: pread_loop.simps)
  next
    case False
    let ?o = "off + length (take k ?rest)"
    have "0 < k" by (simp add: k_def)
    with False less.prems have o: "off < ?o" "?o \<le> length (in_bytes f)" and ne: "take k ?rest \<noteq> []" by auto
    have "drop ?o (in_bytes f) = drop k ?rest"
      by (cases "k \<le> length ?rest") (simp_all add: add.commute)
    then have "foldl fnv_step (foldl fnv_step h (take k ?rest)) (drop ?o (in_bytes f)) = foldl fnv_step h ?rest"
      by (metis append_take_drop_id foldl_append)
    moreover have "length (in_bytes f) - ?o < length (in_bytes f) - off" using o by linarith
    ultimately show ?thesis
      using less.hyps [OF _ o(2), of "foldl fnv_step h (take k ?rest)"] c ne
      by (subst pread_loop.simps) simp
  qed
qed

lemma fnv1a_step: "foldl fnv_step 0xcbf29ce484222325 bs = fnv1a bs"
proof -
  have "fnv_step = (\<lambda>h b. (h XOR ucast b) * (2 ^ 40 + 2 ^ 8 + 0xb3))" by (simp add: fun_eq_iff fnv_step_def)
  then show ?thesis by (simp add: fnv1a_def)
qed

text \<open>
  C39: The key of a test case is a hash of its bytes alone. However short the single reads are, the
  loop over \<open>pread\<close> ends having read every byte of the file exactly once and in order: the key is
  the 64-bit FNV-1a hash of the contents, which on the published test vector \<open>foobar\<close> gives the
  published value, mixed with the file's length; and it is never 0, the value that stands for a
  test case that could not be read.
\<close>

theorem input_key_of_contents:
  assumes "\<And>off. \<not> in_fails f off"
  shows "input_key (Some f) \<noteq> 0 \<and>
    (let h = fnv1a (in_bytes f) XOR of_nat (length (in_bytes f)) in input_key (Some f) = (if h = 0 then 1 else h)) \<and>
    fnv1a [0x66, 0x6f, 0x6f, 0x62, 0x61, 0x72] = 0x85944171f73967e8"
proof -
  have "pread_loop f 0xcbf29ce484222325 0 = Some (fnv1a (in_bytes f), length (in_bytes f))"
    using pread_loop_contents [OF assms, of 0] by (simp add: fnv1a_step)
  moreover have "fnv1a [0x66, 0x6f, 0x6f, 0x62, 0x61, 0x72] = 0x85944171f73967e8" by (simp add: fnv1a_def)
  ultimately show ?thesis by (simp add: input_key_def Let_def)
qed

text \<open>\<open>foobar\<close> read in pieces of one, then four bytes at a time.\<close>

definition foobar_file :: input_file where
  "foobar_file = \<lparr>in_bytes = [0x66, 0x6f, 0x6f, 0x62, 0x61, 0x72], in_given = (\<lambda>off. if off = 0 then 0 else 4),
     in_fails = (\<lambda>_. False)\<rparr>"

theorem input_key_of_contents_witness: "input_key (Some foobar_file) = 0x85944171f73967ee"
  using input_key_of_contents [of foobar_file] by (simp add: foobar_file_def Let_def)

section \<open>A simulated proxy\<close>

definition sim_attempt :: "sim_hw attempt" where
  "sim_attempt = \<lparr>at_sys = sim_sys\<lparr>sy_mmap := None\<rparr>, at_run = id, at_polls = [], at_rest = id, at_cont = True, at_input = None\<rparr>"

definition sim_world :: "(sim_hw, u64) world" where
  "sim_world =
     \<lparr>w_csal = sim_csal, w_etr = const_etr [], w_dec = counting_lib, w_setup = sim_board_setup,
      w_sysfs = \<lparr>rd_file = \<lambda>_. None, wr_open = \<lambda>_. True, env_var = \<lambda>_. None\<rparr>, w_arch = Arm64, w_init = sim_sys,
      w_guard = (None, 0), w_hybrid_mem = ([0], [0], [0]), w_sample_mem = True, w_stats_file = False,
      w_afl_write = (\<lambda>_. True), w_ctl_write = (\<lambda>_. True)\<rparr>"

definition sim_proxy :: "(sim_hw, u64) proxy" where
  "sim_proxy =
     \<lparr>ses = sim_session\<lparr>decoding_on := False\<rparr>, gov = freq_state0, hyb = hybrid_init 1 [0] [0] [0],
      first_run = False, needs_calibration = False, needs_bb_enable = False, total_exec_count = 0,
      overflow_exec_count = 0, hybrid_sample = 0, hybrid_discards = 0, fsrv_pid = 7,
      afl_in = [Some 0], afl_out = [], fsrv_in = [Some 42, Some 0], fsrv_out = [], runs = [sim_attempt],
      cur = sim_attempt, stats = []\<rparr>"

text \<open>A session the simulated hardware can run, with decoding off.\<close>

definition sim_ready :: "(sim_hw, u64) session \<Rightarrow> bool" where
  "sim_ready s \<longleftrightarrow> sim_errors (hw (cs s)) = 0 \<and> cfg_backend (conf s) = Armored \<and>
     cfg_env (conf s) = (\<lambda>_. None) \<and> \<not> decoding_on s \<and>
     trace_buf (buf s) = 0 \<and> trace_buf_size (buf s) = 0 \<and> trace_buf_ptr (buf s) = 0"

lemma sim_enable:
  assumes "sim_errors (hw (cs s)) = 0" and "cfg_backend (conf s) = Armored"
  shows "\<exists>s'. enable_cs_trace sim_csal pid s = Some (0, s') \<and> sim_errors (hw (cs s')) = 0"
proof (cases "is_first_trace s")
  case True
  then show ?thesis using sim_first_enable [of s pid] assms by simp
next
  case False
  let ?k = "set_etm_trace_pid (child_pid s) (cs s)"
  have k: "sim_errors (hw ?k) = 0" using assms by (simp add: set_etm_trace_pid_def)
  have "fst (enable_trace_sinks_only sim_csal (conf s) ?k) = 0" by (subst sim_enable_window [OF k]) simp
  with sim_enable_errors [OF k, of "conf s"] False show ?thesis
    by (simp add: enable_cs_trace_def case_prod_beta Let_def)
qed

lemma sim_start:
  assumes "sim_ready s"
  shows "\<exists>s'. start_trace sim_csal counting_lib (at_sys sim_attempt) pid False s = Returns (0, s') \<and>
    sim_ready s' \<and> trace_bitmap (dec s') = trace_bitmap (clear_bitmap (dec s))"
proof -
  let ?s = "s\<lparr>buf := snd (alloc_trace_buf (direct_read s) None (buf s)), dec := clear_bitmap (dec s), child_pid := pid\<rparr>"
  have a: "set_cpu_affinity (sy_setaffinity (at_sys sim_attempt) pid) n t = 0" "sy_mmap (at_sys sim_attempt) = None" for n t
    by (simp_all add: set_cpu_affinity_def sim_attempt_def sim_sys_def)
  have r: "sim_ready ?s" using assms by (simp add: sim_ready_def alloc_trace_buf_def direct_read_def)
  obtain s' where s': "enable_cs_trace sim_csal 0 ?s = Some (0, s')" "sim_errors (hw (cs s')) = 0"
    using sim_enable [of ?s 0] r by (auto simp: sim_ready_def)
  with r enable_cs_trace_frame [OF s'(1)] assms show ?thesis
    by (simp add: start_trace_def a Let_def or_dies_def set_trace_state_def sim_ready_def)
qed

lemma sim_fetch_empty:
  "trace_buf b = 0 \<Longrightarrow> trace_buf_size b = 0 \<Longrightarrow> trace_buf_ptr b = 0 \<Longrightarrow>
   \<exists>b'. fetch_trace (const_etr []) False ok r b h = Returns (0, b', h)"
  by (simp add: fetch_trace_def const_etr_def Let_def read_etr_def write_mem_def ALIGN_UP_def)

lemma sim_stop:
  assumes "sim_ready s"
  shows "\<exists>s'. stop_trace sim_csal (const_etr []) (at_sys sim_attempt) Returns False s = Returns (0, s') \<and>
    sim_errors (hw (cs s')) = 0 \<and> cfg_backend (conf s') = Armored \<and> \<not> decoding_on s' \<and> dec s' = dec s"
proof -
  define s2 where "s2 = s\<lparr>cs := snd (disable_trace_sinks_only sim_csal (conf s) (cs s))\<rparr>"
  have e0: "sim_errors (hw (cs s)) = 0" using assms by (simp add: sim_ready_def)
  have s2: "disable_cs_trace sim_csal False s = (0, s2)"
    using sim_disable_window [OF e0, of "conf s"]
    by (simp add: disable_cs_trace_def Let_def case_prod_beta numeral_eq_Suc s2_def)
  have e: "sim_errors (hw (cs s2)) = 0" using sim_disable_window [OF e0, of "conf s"] by (simp add: s2_def)
  have g: "buf s2 = buf s" "decoding_on s2 = decoding_on s" "conf s2 = conf s" "dec s2 = dec s"
    by (simp_all add: s2_def)
  have b: "trace_buf (buf s) = 0" "trace_buf_size (buf s) = 0" "trace_buf_ptr (buf s) = 0" "\<not> decoding_on s"
      "cfg_backend (conf s) = Armored"
    using assms by (simp_all add: sim_ready_def)
  have dr: "\<not> direct_read (s2\<lparr>tstate := t\<rparr>)" for t
    using assms by (simp add: direct_read_def g sim_ready_def etr_direct_read_enabled_def)
  obtain b' where "fetch_trace (const_etr []) False (etr_map_open (at_sys sim_attempt) (udmabuf_num s2))
      (sy_mremap (at_sys sim_attempt)) (buf s) (hw (cs s2)) = Returns (0, b', hw (cs s2))"
    using sim_fetch_empty [OF b(1-3), of "etr_map_open (at_sys sim_attempt) (udmabuf_num s2)"
        "sy_mremap (at_sys sim_attempt)" "hw (cs s2)"] by blast
  then show ?thesis
    using s2 e g b dr by (simp add: stop_trace_def session_fetch_def set_trace_state_def)
qed

lemma sim_wait:
  assumes "sim_ready (ses p)" and "fsrv_in p = Some 0 # r" and "cur p = sim_attempt"
  shows "\<exists>s. wait_for_child_and_stop_trace sim_world p = Returns (0, 0, p\<lparr>fsrv_in := r, ses := s\<rparr>) \<and>
    sim_errors (hw (cs s)) = 0 \<and> cfg_backend (conf s) = Armored \<and> \<not> decoding_on s \<and> dec s = dec (ses p)"
proof -
  let ?s = "hw_runs id (trace_child_exited_callback (ses p))"
  have x: "\<not> WIFSTOPPED 0" by (simp add: WIFSTOPPED_def)
  have r: "sim_ready ?s" using assms(1) by (simp add: sim_ready_def hw_runs_def trace_child_exited_callback_def)
  have d: "dec ?s = dec (ses p)" by (simp add: hw_runs_def trace_child_exited_callback_def)
  from sim_stop [OF r] obtain s where s: "stop_trace sim_csal (const_etr []) (at_sys sim_attempt) Returns False ?s = Returns (0, s)"
      "sim_errors (hw (cs s)) = 0" "cfg_backend (conf s) = Armored" "\<not> decoding_on s" "dec s = dec (ses p)"
    using d by auto
  have nd: "\<not> decoding_on ?s" using r by (simp add: sim_ready_def)
  have w: "w_csal sim_world = sim_csal" "w_etr sim_world = const_etr []" "at_run sim_attempt = id" "at_rest sim_attempt = id"
    by (simp_all add: sim_world_def sim_attempt_def)
  show ?thesis
    using s nd by (intro exI [of _ s]) (simp add: wait_for_child_and_stop_trace_def assms(2,3) x decoder_runs_def w)
qed

lemma sim_proxy_ready: "sim_ready (ses sim_proxy)" "trace_bitmap (dec (ses sim_proxy)) = Some [7]"
    "trace_bitmap_size (dec (ses sim_proxy)) = 1"
  by (simp_all add: sim_ready_def sim_proxy_def sim_session_def sim_cs_state_def sim_hw0_def sim_cs_cfg_def dec_state0_def)

lemma sim_world_sel:
  "w_ctl_write sim_world n" "w_afl_write sim_world n" "w_csal sim_world = sim_csal" "w_dec sim_world = counting_lib"
  "\<not> w_stats_file sim_world" "w_sample_mem sim_world" "at_cont sim_attempt"
  by (simp_all add: sim_world_def sim_attempt_def)

lemma sim_proxy_sel:
  "afl_in sim_proxy = [Some 0]" "fsrv_in sim_proxy = [Some 42, Some 0]" "fsrv_out sim_proxy = []"
  "\<not> first_run sim_proxy" "runs sim_proxy = [sim_attempt]" "afl_out sim_proxy = []"
  by (simp_all add: sim_proxy_def)

lemma sim_request:
  "\<exists>q. afl_next_testcase sim_world sim_proxy = Returns (42, q) \<and> afl_out q = [42] \<and> sim_ready (ses q) \<and>
     trace_bitmap (dec (ses q)) = Some [0] \<and> fsrv_in q = [Some 0] \<and> cur q = sim_attempt \<and> runs q = []"
proof -
  from sim_start [OF sim_proxy_ready(1), of 42] obtain s where
    s: "start_trace sim_csal counting_lib (at_sys sim_attempt) 42 False (ses sim_proxy) = Returns (0, s)"
      "sim_ready s" "trace_bitmap (dec s) = Some [0]"
    by (auto simp: clear_bitmap_def sim_proxy_ready)
  have "cfg_backend (conf (ses sim_proxy)) = Armored" using sim_proxy_ready(1) by (simp add: sim_ready_def)
  with s show ?thesis
    by (simp add: afl_next_testcase_def afl_read_def sim_proxy_sel ctl_write_def sim_world_sel st_read_def
        start_and_resume_def afl_write_def)
qed

lemma sim_serve:
  "\<exists>q q'. afl_next_testcase sim_world sim_proxy = Returns (42, q) \<and> afl_out q = [42] \<and>
     trace_bitmap (dec (ses q)) = Some [0] \<and> serve_testcase sim_world q = Returns (0, q')"
proof -
  from sim_request obtain q where q: "afl_next_testcase sim_world sim_proxy = Returns (42, q)" "afl_out q = [42]"
      "sim_ready (ses q)" "trace_bitmap (dec (ses q)) = Some [0]" "fsrv_in q = [Some 0]" "cur q = sim_attempt"
    by blast
  from sim_wait [OF q(3,5,6)] obtain s where s: "wait_for_child_and_stop_trace sim_world q =
      Returns (0, 0, q\<lparr>fsrv_in := [], ses := s\<rparr>)" "\<not> decoding_on s" "dec s = dec (ses q)"
    by blast
  have "\<exists>q'. serve_testcase sim_world q = Returns (0, q')"
    using s q by (simp add: serve_testcase_def sim_ready_def serve_armored_def count_exec_def sim_world_sel
        afl_end_testcase_def afl_write_def set_bitmap_def)
  with q show ?thesis by blast
qed

theorem one_pid_one_status_witness:
  "\<exists>q q' st. afl_next_testcase sim_world sim_proxy = Returns (42, q) \<and> serve_testcase sim_world q = Returns (0, q') \<and>
     afl_out q' = [42, st]"
proof -
  obtain q q' where q: "afl_next_testcase sim_world sim_proxy = Returns (42, q)" "afl_out q = [42]"
      "serve_testcase sim_world q = Returns (0, q')"
    using sim_serve by blast
  from one_pid_one_status [OF q(1) _ q(3)] q(2) serve_testcase_reports [OF q(3)] obtain st where "afl_out q' = [42, st]"
    by (auto simp: sim_proxy_sel)
  with q show ?thesis by blast
qed

theorem lost_parent_hangs_witness:
  "main_loop sim_world 1 (sim_proxy\<lparr>afl_in := [None], fsrv_in := []\<rparr>) = Loops"
  using lost_parent_hangs [of "sim_proxy\<lparr>afl_in := [None], fsrv_in := []\<rparr>" "[]" sim_world 0] by simp

theorem attempts_bounded_witness:
  "\<exists>q st ov q'. attempt_loop sim_world FREQ_MODE_ADDR 0 False q = Returns (0, st, ov, q') \<and>
     length (runs q) \<le> length (runs q') + 4"
proof -
  from sim_request obtain q :: "(sim_hw, u64) proxy" where q: "sim_ready (ses q)" "fsrv_in q = [Some 0]" "cur q = sim_attempt" by auto
  from sim_wait [OF q] obtain s where "wait_for_child_and_stop_trace sim_world q =
      Returns (0, 0, q\<lparr>fsrv_in := [], ses := s\<rparr>)" "\<not> decoding_on s"
    by blast
  then have "\<exists>q'. attempt_loop sim_world FREQ_MODE_ADDR 0 False q = Returns (0, 0, False, q')"
    by (simp add: attempt_loop.simps [of sim_world FREQ_MODE_ADDR 0 False q] count_exec_def
        freq_gov_should_retry_def Let_def)
  then obtain q' where "attempt_loop sim_world FREQ_MODE_ADDR 0 False q = Returns (0, 0, False, q')" by blast
  with attempts_bounded [OF this] show ?thesis by blast
qed

lemma sim_sample:
  assumes "sim_ready (ses p)" and "fsrv_in p = [Some 42, Some 0]" and "runs p = [sim_attempt]"
  shows "\<exists>q. sample_with_branch_broadcast sim_world p = Returns (0, q)"
proof -
  let ?p = "snd (proxy_bb_mode sim_world 1 p)"
  have bb: "fst (proxy_bb_mode sim_world m p) = 0 \<and> cfg_backend (conf (ses (snd (proxy_bb_mode sim_world m p)))) = Armored \<and>
      sim_errors (hw (cs (ses (snd (proxy_bb_mode sim_world m p))))) = 0 \<and>
      snd (proxy_bb_mode sim_world m p) = p\<lparr>ses := ses (snd (proxy_bb_mode sim_world m p))\<rparr>"
    if "sim_errors (hw (cs (ses p))) = 0" "cfg_backend (conf (ses p)) = Armored" for p m
    using that sim_set_bb [of "cs (ses p)" "conf (ses p)" m]
    by (simp add: proxy_bb_mode_def trace_set_bb_mode_def Let_def case_prod_beta sim_world_sel)
  have r: "sim_ready (ses ?p)"
    using bb [of p 1] assms(1)
    by (simp add: sim_ready_def proxy_bb_mode_def trace_set_bb_mode_def Let_def case_prod_beta)
  obtain s where s: "start_trace sim_csal counting_lib (at_sys sim_attempt) 42 False (ses ?p) = Returns (0, s)" "sim_ready s"
    using sim_start [OF r, of 42] by blast
  have p: "?p = p\<lparr>ses := ses ?p\<rparr>" "fst (proxy_bb_mode sim_world 1 p) = 0"
    using bb [of p 1] assms(1) by (simp_all add: sim_ready_def)
  have "fsrv_in ?p = [Some 42, Some 0]" "runs ?p = [sim_attempt]"
    by (subst p(1), simp add: assms)+
  with s obtain q1 where q1: "retry_child sim_world FREQ_MODE_ADDR ?p = Returns (42, q1)" "sim_ready (ses q1)"
      "fsrv_in q1 = [Some 0]" "cur q1 = sim_attempt"
    by (simp add: retry_child_def fork_fresh_child_def ctl_write_def sim_world_sel st_read_def start_and_resume_def Let_def)
  from sim_wait [OF q1(2-4)] obtain s2 where
    s2: "wait_for_child_and_stop_trace sim_world q1 = Returns (0, 0, q1\<lparr>fsrv_in := [], ses := s2\<rparr>)"
      "sim_errors (hw (cs s2)) = 0" "cfg_backend (conf s2) = Armored"
    by blast
  then obtain ov p1 where e: "edge_pass sim_world p = Returns (0, ov, p1)" "ses p1 = s2"
    using q1(1) p(2) by (simp add: edge_pass_def case_prod_beta Let_def count_exec_def)
  then show ?thesis
    using bb [of _ 0] s2(2,3)
    by (simp add: sample_with_branch_broadcast_def sim_world_sel Let_def set_bitmap_def prod_eq_iff)
qed

text \<open>An execution that overflowed at the lowest frequency: the map is shown.\<close>

definition sim_floor_gov :: freq_state where
  "sim_floor_gov = freq_state0\<lparr>freq_table := [300000, 600000]\<rparr>"

definition sim_overflowing :: "(sim_hw, u64) proxy" where
  "sim_overflowing = sim_proxy\<lparr>ses := sim_session, fsrv_in := [Some 0],
     gov := freq_gov_apply (w_sysfs sim_world) FREQ_MODE_ADDR sim_floor_gov\<rparr>"

lemma sim_overflowed:
  "\<exists>q. attempt_loop sim_world FREQ_MODE_ADDR 0 False (sim_overflowing) = Returns (0, 0, True, q)"
proof -
  let ?p = sim_overflowing and ?s = "trace_child_exited_callback sim_session"
  have x: "\<not> WIFSTOPPED 0" by (simp add: WIFSTOPPED_def)
  have s: "decoding_on ?s" "\<not> ev_start ?s" "ready ?s" "trace_did_overflow (dec ?s)" "sim_errors (hw (cs ?s)) = 0"
    by (simp_all add: trace_child_exited_callback_def sim_session_def trace_did_overflow_def dec_state0_def
        sim_cs_state_def sim_hw0_def)
  have r: "decoder_runs sim_world sim_attempt ?s = Returns (Returns, ?s)"
    using s(2) by (simp add: decoder_runs_def sim_attempt_def)
  obtain s2 where d: "disable_cs_trace sim_csal False ?s = (0, s2)" using sim_disable_cs_trace [OF s(5)] by blast
  then have s2: "s2 = snd (disable_cs_trace sim_csal False ?s)" by simp
  have "decoding_on s2" "ready s2" "trace_did_overflow (dec s2)" using s by (simp_all add: s2 disable_cs_trace_frame)
  then have "\<exists>s3. stop_trace sim_csal (const_etr []) (at_sys sim_attempt) Returns False ?s = Returns (0, s3) \<and>
      decoding_on s3 \<and> trace_did_overflow (dec s3)"
    using d by (simp add: stop_trace_def set_trace_state_def)
  then obtain s3 where s3: "stop_trace sim_csal (const_etr []) (at_sys sim_attempt) Returns False ?s = Returns (0, s3)"
      "decoding_on s3" "trace_did_overflow (dec s3)" by blast
  have w: "w_csal sim_world = sim_csal" "w_etr sim_world = const_etr []" "cur ?p = sim_attempt" "ses ?p = sim_session"
      "fsrv_in ?p = [Some 0]" "gov ?p = freq_gov_apply (w_sysfs sim_world) FREQ_MODE_ADDR sim_floor_gov"
    by (simp_all add: sim_world_def sim_overflowing_def sim_proxy_def)
  have wt: "wait_for_child_and_stop_trace sim_world ?p = Returns (0, 0, ?p\<lparr>fsrv_in := [], ses := s3\<rparr>)"
    using r s3(1) by (simp add: wait_for_child_and_stop_trace_def w x)
  have "cur_idx (freq_gov_restore_max (w_sysfs sim_world) (gov ?p)) FREQ_MODE_ADDR = 0"
    by (simp add: w(6) freq_gov_apply_def sim_floor_gov_def freq_state0_def)
  then show ?thesis
    unfolding attempt_loop.simps [of sim_world FREQ_MODE_ADDR 0 False ?p] wt using s3(2,3)
    by (simp add: freq_gov_should_retry_def freq_gov_at_floor_def on_result_overflow count_exec_def Let_def)
qed


text \<open>Waiting for the child changes only the trace state and the suspend event.\<close>

lemma wait_child_fields:
  "wait_child xs s = Returns (x, r, s') \<Longrightarrow> \<exists>t b. s' = s\<lparr>tstate := t, ev_suspend := b\<rparr>"
proof (induction xs s rule: wait_child.induct)
  case (2 r s)
  have "s = s\<lparr>tstate := tstate s, ev_suspend := ev_suspend s\<rparr>" by simp
  with 2 show ?case by (metis Pair_inject outcome.inject wait_child.simps(2))
next
  case (3 st r s)
  show ?case
  proof (cases "WIFSTOPPED st \<and> WSTOPSIG st = SIGSTOP")
    case True
    with 3 have "\<exists>t b. s' = (trace_suspend_resume_callback s)\<lparr>tstate := t, ev_suspend := b\<rparr>" by simp
    then show ?thesis by (auto simp: trace_suspend_resume_callback_def set_trace_state_def)
  next
    case False
    with 3(2) have "s' = s\<lparr>tstate := tstate s, ev_suspend := True\<rparr>"
      by (simp add: trace_child_exited_callback_def)
    then show ?thesis by blast
  qed
qed simp

end
