(* ===== verification/Shared_Map.thy ===== *)
theory Shared_Map
  imports Proxy_Runs Hybrid_Runs
begin

text \<open>
  What the proxy's executions do to the coverage map it shares with AFL++, and to the maps hybrid
  keeps: \<open>start_trace\<close>, the decoder thread, the retries, the calibration ramp and hybrid's passes
  (\<open>src/src/common.c\<close>, \<open>src/src/cs-proxy.c\<close>, \<open>src/src/hybrid.c\<close>) write into maps of one size. The
  decoding libraries enter through the interface \<open>dec_frame\<close>.
\<close>

section \<open>The decoder state under an execution\<close>

text \<open>
  The interface to the decoder: a property of its state that a reset, a decode pass and the
  clearing of the map keep, and that does not look into the library.
\<close>

locale dec_frame =
  fixes W :: "('h, 'd) world" and ok :: "'d dec_state \<Rightarrow> bool"
  assumes ok_run: "ok d \<Longrightarrow> ok (snd (run_decoder B (w_dec W) xs d))"
    and ok_reset: "ok d \<Longrightarrow> ok (snd (reset_decoder B (w_dec W) infos d))"
    and ok_clear: "ok d \<Longrightarrow> ok (clear_bitmap d)"
    and ok_lib: "ok d \<Longrightarrow> ok (d\<lparr>lib_state := l\<rparr>)"
begin

lemma export_failed_ok: "ok (dec s) \<Longrightarrow> ok (dec (export_failed_trace sys s))"
  by (simp add: export_failed_trace_def export_trace_def Let_def split: option.split)

lemma session_decode_ok: "ok (dec s) \<Longrightarrow> ok (dec (snd (session_decode (w_dec W) s)))"
  by (auto simp: session_decode_def decode_trace_def Let_def case_prod_beta ok_run)

lemma session_fetch_ok: "ok (dec s) \<Longrightarrow> keeps (\<lambda>s. ok (dec s)) snd True (session_fetch E sys s)"
  by (auto simp: session_fetch_def case_prod_beta intro!: keeps_bind_other)

lemma enable_ok: "ok (dec s) \<Longrightarrow> keeps (\<lambda>s. ok (dec s)) snd True (or_dies (enable_cs_trace H pid s))"
  using enable_cs_trace_frame [of H pid s] by (auto simp: or_dies_def split: option.split)

lemma poll_round_ok:
  "ok (dec s) \<Longrightarrow> keeps (\<lambda>s. ok (dec s)) (\<lambda>x. snd (snd x)) True (poll_round H E (w_dec W) pl pos s)"
  unfolding poll_round_def Let_def case_prod_beta
  by (auto simp: hw_runs_def disable_cs_trace_frame session_decode_ok export_failed_ok split: kill_result.split
      intro!: keeps_bind [OF session_fetch_ok] keeps_bind [OF enable_ok])

lemma poll_rounds_ok: "ok (dec s) \<Longrightarrow> keeps (\<lambda>s. ok (dec s)) snd True (poll_rounds H E (w_dec W) ps pos s)"
proof (induction ps arbitrary: s pos)
  case (Cons pl ps)
  then show ?case
    by (auto simp: case_prod_beta split: option.split intro!: keeps_bind [OF poll_round_ok])
qed simp

lemma poll_final_ok: "ok (dec s) \<Longrightarrow> keeps (\<lambda>s. ok (dec s)) id True (poll_final E (w_dec W) sys e s)"
  by (auto simp: poll_final_def Let_def case_prod_beta session_decode_ok export_failed_ok split: poll_exit.split
      intro!: keeps_bind [OF session_fetch_ok])

lemma start_trace_ok: "ok (dec s) \<Longrightarrow> keeps (\<lambda>s. ok (dec s)) snd True (start_trace H (w_dec W) sys pid use s)"
  unfolding start_trace_def Let_def case_prod_beta
  by (auto simp: ok_clear ok_reset set_trace_state_def intro!: keeps_bind [OF enable_ok])

lemma stop_trace_ok:
  assumes "ok (dec s)" and "\<And>t. ok (dec t) \<Longrightarrow> keeps (\<lambda>s. ok (dec s)) id True (worker t)"
  shows "keeps (\<lambda>s. ok (dec s)) snd True (stop_trace H E sys worker a s)"
  unfolding stop_trace_def Let_def case_prod_beta
  by (auto simp: disable_cs_trace_frame set_trace_state_def assms(1)
      intro!: keeps_bind [OF assms(2)] keeps_bind [OF session_fetch_ok])

lemma wait_child_ok: "ok (dec s) \<Longrightarrow> keeps (\<lambda>s. ok (dec s)) (\<lambda>x. snd (snd x)) True (wait_child xs s)"
  by (induction xs s rule: wait_child.induct)
    (auto simp: trace_suspend_resume_callback_def trace_child_exited_callback_def set_trace_state_def)

lemma wait_ok:
  assumes "ok (dec (ses p))"
  shows "keeps (\<lambda>q. ok (dec (ses q))) (\<lambda>x. snd (snd x)) True (wait_for_child_and_stop_trace W p)"
proof -
  have w: "keeps (\<lambda>x. ok (dec (snd x)) \<and> (\<forall>t. ok (dec t) \<longrightarrow> keeps (\<lambda>s. ok (dec s)) id True (fst x t))) id True
      (decoder_runs W a s)" if "ok (dec s)" for a s
    using that unfolding decoder_runs_def Let_def case_prod_beta
    by (auto simp: trace_sink_polling_def poll_final_ok hw_runs_def intro!: keeps_bind [OF poll_rounds_ok])
  show ?thesis
    unfolding wait_for_child_and_stop_trace_def Let_def case_prod_beta
    by (rule keeps_bind [OF wait_child_ok [OF assms]])
      (auto split: option.split intro!: keeps_bind [OF w] keeps_bind [OF stop_trace_ok])
qed

lemma start_and_resume_ok:
  "ok (dec (ses p)) \<Longrightarrow> keeps (\<lambda>q. ok (dec (ses q))) snd True (start_and_resume W pid b p)"
  by (auto simp: start_and_resume_def afl_write_def Let_def case_prod_beta split: list.split
      intro!: keeps_bind [OF start_trace_ok])

lemma fork_fresh_child_ok: "ok (dec (ses p)) \<Longrightarrow> keeps (\<lambda>q. ok (dec (ses q))) snd True (fork_fresh_child W p)"
  by (auto simp: fork_fresh_child_def st_read_def ctl_write_def case_prod_beta split: list.split)

lemma bb_mode_ok: "ok (dec (ses p)) \<Longrightarrow> ok (dec (ses (snd (proxy_bb_mode W m p))))"
  by (simp add: proxy_bb_mode_def trace_set_bb_mode_def stalker_set_bb_mode_def ok_lib Let_def case_prod_beta
      split: backend.split)

end

sublocale dec_frame \<subseteq> execs: exec_ops W "\<lambda>p. ok (dec (ses p))"
  by unfold_locales (auto simp: count_exec_def bb_mode_ok intro: fork_fresh_child_ok start_and_resume_ok wait_ok)

section \<open>What every decoder keeps\<close>

text \<open>Whatever the libraries write, the map stays attached or not, and its size is the one AFL++ was told.\<close>

interpretation shape: dec_frame W "\<lambda>d. (trace_bitmap d = None) = b \<and> trace_bitmap_size d = n" for W b n
  by unfold_locales
    (auto simp: run_decoder_def stalker_run_def reset_decoder_def clear_bitmap_def Let_def case_prod_beta
      split: backend.split cov_type.split)

lemma bb_mode_dec:
  "trace_bitmap (dec (ses (snd (proxy_bb_mode W m p)))) = trace_bitmap (dec (ses p))"
  "trace_bitmap_size (dec (ses (snd (proxy_bb_mode W m p)))) = trace_bitmap_size (dec (ses p))"
  by (simp_all add: proxy_bb_mode_def trace_set_bb_mode_def stalker_set_bb_mode_def Let_def case_prod_beta
      split: backend.split)

lemma bb_mode_current: "current_bb_mode (ses (snd (proxy_bb_mode W m p))) = (if m \<noteq> 0 then 1 else 0)"
  by (simp add: proxy_bb_mode_def trace_set_bb_mode_def Let_def case_prod_beta split: backend.split)

lemma memcpy_all: "length src = n \<Longrightarrow> take n (memcpy n dst src) = src"
  by (simp add: memcpy_def)

text \<open>What a sampling pass that comes back without error has done.\<close>

lemma sample_effect:
  assumes "sample_with_branch_broadcast W p = Returns (0, q)"
    and "trace_bitmap (dec (ses p)) = Some m" and "length m = trace_bitmap_size (dec (ses p))"
  shows "take (length m) (bitmap q) = m \<and> current_bb_mode (ses q) = 0 \<and>
    (\<exists>m1 ov. hyb q = hybrid_after_sample m1 ov (hyb p))"
proof -
  obtain r ov p1 where e: "edge_pass W p = Returns (r, ov, p1)"
    using assms(1) by (cases "edge_pass W p") (auto simp: sample_with_branch_broadcast_def split: if_splits)
  let ?h = "hybrid_after_sample (bitmap p1) ov (hyb p1)"
  have "(trace_bitmap (dec (ses p1)) = None) = False \<and> trace_bitmap_size (dec (ses p1)) = length m"
    using keepsD [OF shape.execs.edge_pass_ok [of p False "length m" W] e] assms(2,3) by simp
  then obtain m1 where m1: "trace_bitmap (dec (ses p1)) = Some m1"
      and n: "trace_bitmap_size (dec (ses p1)) = length m"
    by auto
  have h: "hyb p1 = hyb p" using keepsD [OF hybrid_state.edge_pass_obs [OF refl] e] by simp
  have q: "q = snd (proxy_bb_mode W 0 (set_bitmap (memcpy (length m) m1 m) (p1\<lparr>hyb := ?h\<rparr>)))"
    using assms(1,2) m1 n
    by (auto simp: sample_with_branch_broadcast_def e bitmap_def Let_def split: if_splits)
  then have "hyb q = ?h" by (simp add: proxy_bb_mode_def set_bitmap_def Let_def case_prod_beta)
  with q h m1 show ?thesis
    by (auto simp: bb_mode_current bitmap_def bb_mode_dec set_bitmap_def memcpy_all)
qed

section \<open>The maps keep their size\<close>

text \<open>
  Both decoders are given the map's address together with its size and count into those bytes;
  the map has as many afterwards.
\<close>

definition writes_in_place :: "'d declib \<Rightarrow> bool" where
  "writes_in_place L \<longleftrightarrow>
     (\<forall>ct b xs d. length (fst (snd (libcsdec_run L ct b xs d))) = length b) \<and>
     (\<forall>b xs d. length (fst (snd (stalker_decode_trace L b xs d))) = length b)"

definition sized :: "nat \<Rightarrow> cov_type \<Rightarrow> 'd dec_state \<Rightarrow> bool" where
  "sized n ct d \<longleftrightarrow>
     map_option length (trace_bitmap d) = Some n \<and> trace_bitmap_size d = n \<and> dec_state.cov_type d = ct"

lemma sized_frame: "writes_in_place (w_dec W) \<Longrightarrow> dec_frame W (sized n ct)"
  by unfold_locales
    (auto simp: sized_def writes_in_place_def run_decoder_def stalker_run_def reset_decoder_def clear_bitmap_def
      Let_def case_prod_beta split: backend.split cov_type.split)

text \<open>
  The proxy between two steps of its main loop: the map AFL++ attached is there and has the size it
  was told, and in hybrid mode every map hybrid keeps has that size too, with what \<open>hyb_inv\<close> says of them.
\<close>

definition map_inv :: "nat \<Rightarrow> cov_type \<Rightarrow> ('h, 'd) proxy \<Rightarrow> bool" where
  "map_inv n ct p \<longleftrightarrow>
     sized n ct (dec (ses p)) \<and> (ct = hybrid_cov \<longrightarrow> hyb_inv (hyb p) \<and> map_size (hyb p) = n) \<and> \<not> first_run p"

lemma keeps_map_inv:
  assumes "keeps (\<lambda>q. sized n ct (dec (ses q))) st True m" and "keeps hyb st (hyb p) m"
    and "keeps first_run st (first_run p) m" and "map_inv n ct p"
  shows "keeps (map_inv n ct) st True m"
  using assms by (auto simp: keeps_def map_inv_def)

lemma map_execs:
  fixes W :: "('h, 'd) world"
  assumes "writes_in_place (w_dec W)"
  shows "exec_ops W (map_inv n ct)"
proof -
  note k = sized_frame [OF assms, of n ct]
  show ?thesis
  proof
    fix p :: "('h, 'd) proxy" and g b ov m pid
    assume i: "map_inv n ct p"
    then have d: "sized n ct (dec (ses p))" by (simp add: map_inv_def)
    show "map_inv n ct (p\<lparr>gov := g\<rparr>)" "map_inv n ct (p\<lparr>needs_calibration := b\<rparr>)" "map_inv n ct (p\<lparr>needs_bb_enable := b\<rparr>)"
        "map_inv n ct (count_exec ov p)"
      using i by (simp_all add: map_inv_def count_exec_def)
    show "map_inv n ct (snd (proxy_bb_mode W m p))"
      using i dec_frame.bb_mode_ok [OF k d, of m] hybrid_state.bb_mode_obs [of W m p] started.bb_mode_obs [of W m p]
      by (simp add: map_inv_def)
    show "keeps (map_inv n ct) snd True (fork_fresh_child W p)"
      by (rule keeps_map_inv [OF dec_frame.fork_fresh_child_ok [OF k d] hybrid_state.fork_fresh_child_obs [OF refl]
            started.fork_fresh_child_obs [OF refl] i])
    show "keeps (map_inv n ct) snd True (start_and_resume W pid False p)"
      by (rule keeps_map_inv [OF dec_frame.start_and_resume_ok [OF k d] hybrid_state.start_and_resume_obs [OF refl]
            started.start_and_resume_obs [OF refl] i])
    show "keeps (map_inv n ct) (\<lambda>x. snd (snd x)) True (wait_for_child_and_stop_trace W p)"
      by (rule keeps_map_inv [OF dec_frame.wait_ok [OF k d] hybrid_state.wait_obs [OF refl] started.wait_obs [OF refl] i])
  qed
qed

lemma map_inv_bitmap: "map_inv n ct p \<Longrightarrow> length (bitmap p) = n \<and> trace_bitmap_size (dec (ses p)) = n \<and> cov p = ct"
  by (auto simp: map_inv_def sized_def bitmap_def)

lemma map_inv_set_bitmap: "map_inv n ct p \<Longrightarrow> length m = n \<Longrightarrow> map_inv n ct (set_bitmap m p)"
  by (auto simp: map_inv_def sized_def set_bitmap_def)

lemma map_inv_hyb: "map_inv n ct p \<Longrightarrow> hyb_inv h \<Longrightarrow> map_size h = n \<Longrightarrow> map_inv n ct (p\<lparr>hyb := h\<rparr>)"
  by (simp add: map_inv_def)

text \<open>Hybrid's passes: the maps they put in the shared map's place, and the ones they keep, have its size.\<close>

lemma confirm_map_inv:
  assumes w: "writes_in_place (w_dec W)" and "map_inv n hybrid_cov p"
  shows "keeps (map_inv n hybrid_cov) snd True (confirm_with_branch_broadcast W p)"
proof -
  have "map_inv n hybrid_cov (q\<lparr>hyb := hybrid_after_confirm (bitmap q) ov (hyb q)\<rparr>)" if "map_inv n hybrid_cov q" for q ov
    using that map_inv_bitmap [OF that]
    by (intro map_inv_hyb hyb_inv_after_confirm) (simp_all add: map_inv_def hybrid_after_confirm_frame)
  then show ?thesis
    unfolding confirm_with_branch_broadcast_def Let_def case_prod_beta
    by (intro keeps_bind [OF exec_ops.edge_pass_ok [OF map_execs [OF w] assms(2)]])
      (auto intro: exec_ops.kept_bb_mode [OF map_execs [OF w]])
qed

lemma sample_map_inv:
  assumes w: "writes_in_place (w_dec W)" and i: "map_inv n hybrid_cov p"
  shows "keeps (map_inv n hybrid_cov) snd True (sample_with_branch_broadcast W p)"
proof -
  have "map_inv n hybrid_cov (set_bitmap (memcpy (trace_bitmap_size (dec (ses q))) (bitmap (q\<lparr>hyb := hybrid_after_sample b ov (hyb q)\<rparr>)) (bitmap p))
      (q\<lparr>hyb := hybrid_after_sample b ov (hyb q)\<rparr>))" if "map_inv n hybrid_cov q" for q b ov
    using that map_inv_bitmap [OF that] map_inv_bitmap [OF i]
    by (intro map_inv_set_bitmap map_inv_hyb hyb_inv_after_sample)
      (simp_all add: map_inv_def hybrid_after_sample_frame bitmap_def)
  then show ?thesis
    unfolding sample_with_branch_broadcast_def Let_def case_prod_beta
    by (auto intro!: i keeps_bind [OF exec_ops.edge_pass_ok [OF map_execs [OF w] i]]
        exec_ops.kept_bb_mode [OF map_execs [OF w]])
qed

lemma hybrid_step_map_inv:
  assumes w: "writes_in_place (w_dec W)" and i: "map_inv n hybrid_cov p"
  shows "keeps (map_inv n hybrid_cov) snd True (hybrid_step W ov p)"
proof -
  let ?r = "hybrid_after_path (w_arch W) (bitmap p) ov (input_key (at_input (cur p))) (hyb p)"
  let ?p = "(set_bitmap (fst (snd ?r)) p)\<lparr>hyb := snd (snd ?r)\<rparr>"
  have "hyb_inv (snd (snd ?r)) \<and> map_size (snd (snd ?r)) = n \<and> length (fst (snd ?r)) = n"
    using hyb_inv_after_path [of "hyb p" "bitmap p" "w_arch W" ov "input_key (at_input (cur p))" "fst ?r" "fst (snd ?r)" "snd (snd ?r)"]
      i map_inv_bitmap [OF i] by (auto simp: map_inv_def)
  with i have p: "map_inv n hybrid_cov ?p" by (intro map_inv_hyb map_inv_set_bitmap) simp_all
  then have "map_inv n hybrid_cov (?p\<lparr>hybrid_discards := k\<rparr>)" for k by (simp add: map_inv_def)
  with p show ?thesis
    unfolding hybrid_step_def Let_def case_prod_beta
    by (auto intro!: confirm_map_inv [OF w] sample_map_inv [OF w])
qed

text \<open>A whole test case, and the request before it.\<close>

lemma serve_stalker_map_inv:
  assumes w: "writes_in_place (w_dec W)" and i: "map_inv n ct p"
  shows "keeps (map_inv n ct) (\<lambda>x. snd (snd x)) True (serve_stalker W p)"
proof -
  have "keeps (map_inv n ct) snd True (hybrid_step W ov q)" if "map_inv n ct q" "cov q = hybrid_cov" for ov q
    using hybrid_step_map_inv [OF w] that map_inv_bitmap [OF that(1)] by metis
  then show ?thesis
    unfolding serve_stalker_def case_prod_beta
    by (intro keeps_bind [OF exec_ops.attempt_loop_ok [OF map_execs [OF w] i]])
      (auto intro!: keeps_bind [where obs = "map_inv n ct" and st = snd and v = True])
qed

lemma serve_testcase_map_inv:
  assumes w: "writes_in_place (w_dec W)" and i: "map_inv n ct p"
  shows "keeps (map_inv n ct) snd True (serve_testcase W p)"
proof -
  have s: "map_inv n ct (q\<lparr>stats := z\<rparr>)" "map_inv n ct (snd (afl_end_testcase W st q))" "length (bitmap (q\<lparr>stats := z\<rparr>)) = n" if "map_inv n ct q" for q z st
    using that map_inv_bitmap [OF that]
    by (simp_all add: map_inv_def afl_end_testcase_def afl_write_def bitmap_def Let_def case_prod_beta)
  show ?thesis
    unfolding serve_testcase_def
    by (rule keeps_bind [where st = "\<lambda>x. snd (snd x)" and v = True and obs = "map_inv n ct"])
      (auto simp: Let_def case_prod_beta s map_inv_bitmap serve_stalker_map_inv [OF w i]
        exec_ops.serve_armored_ok [OF map_execs [OF w] i] intro!: s map_inv_set_bitmap split: backend.split)
qed

lemma next_testcase_map_inv:
  assumes w: "writes_in_place (w_dec W)" and i: "map_inv n ct p"
  shows "keeps (map_inv n ct) snd True (afl_next_testcase W p)"
proof -
  have r: "keeps (map_inv n ct) snd True (afl_read p)" "keeps (map_inv n ct) snd True (st_read q)"
      "map_inv n ct (snd (ctl_write W x q))" "\<not> first_run q" if "map_inv n ct q" for x q
    using that i by (auto simp: map_inv_def afl_read_def st_read_def ctl_write_def split: list.split)
  have st: "keeps (map_inv n ct) snd True (start_and_resume W pid b q)" if q: "map_inv n ct q" for pid b q
  proof -
    have "keeps hyb snd (hyb q) (start_and_resume W pid b q)" "keeps first_run snd (first_run q) (start_and_resume W pid b q)"
      by (auto simp: start_and_resume_def afl_write_def Let_def case_prod_beta intro!: keeps_bind_other split: list.split)
    with dec_frame.start_and_resume_ok [OF sized_frame [OF w]] q show ?thesis
      by (intro keeps_map_inv [of n ct snd _ q]) (auto simp: map_inv_def)
  qed
  show ?thesis
    unfolding afl_next_testcase_def Let_def case_prod_beta
    by (rule keeps_bind [OF r(1) [OF i]])
      (auto simp: r case_prod_beta split: option.split backend.split
        intro!: keeps_bind [OF r(2)] keeps_bind [OF exec_ops.prepare_stalker_ok [OF map_execs [OF w]]] keeps_bind [OF st])
qed

lemma main_loop_map_inv:
  assumes w: "writes_in_place (w_dec W)" and "map_inv n ct p"
  shows "keeps (map_inv n ct) snd True (main_loop W k p)"
  using assms(2)
proof (induction k arbitrary: p)
  case (Suc k)
  show ?case
    unfolding main_loop.simps case_prod_beta
    by (rule keeps_bind [OF next_testcase_map_inv [OF w Suc.prems]])
      (auto intro!: Suc.IH keeps_bind [OF serve_testcase_map_inv [OF w]])
qed simp



end
