(* ===== verification/Forksrv.thy ===== *)
theory Forksrv
  imports Proxy_Runs "HOL-Library.Sublist"
begin

text \<open>
  \<open>src/libforksrv/libforksrv.c\<close>: the library preloaded into the target. Under \<open>cs-proxy\<close> it
  removes its traces from the environment, greets the proxy and then forks one stopped child per
  request, relaying the child's pid and wait statuses. What \<open>read\<close>, \<open>fork\<close> and \<open>waitpid\<close>
  answer are streams and which writes succeed is a function of how many were made; an empty
  stream is a call that never returns. A process that leaves through \<open>_exit\<close> is \<open>Exits\<close>, one
  that returns into the target \<open>Runs_Target\<close>, with whether it stopped itself first. The message printed at the start is left out.
\<close>

section \<open>The environment\<close>

text \<open>\<open>strstr\<close> with the position of the first hit.\<close>

fun strstr_pos :: "string \<Rightarrow> string \<Rightarrow> nat option" where
  "strstr_pos [] needle = (if needle = [] then Some 0 else None)"
| "strstr_pos (c # s) needle =
     (if strprefix needle (c # s) then Some 0 else map_option Suc (strstr_pos s needle))"

text \<open>The loop of \<open>memmove\<close> calls; it would not end on an empty name.\<close>

partial_function (option) strip_all :: "string \<Rightarrow> string \<Rightarrow> string option" where
  "strip_all fname rest =
     (case strstr_pos rest fname of
        None \<Rightarrow> Some rest
      | Some i \<Rightarrow> strip_all fname (take i rest @ drop (i + length fname) rest))"

declare strip_all.simps [code]

text \<open>
  \<open>fname\<close> is the name \<open>dladdr\<close> gives for the library, \<open>None\<close> when it fails, and
  \<open>strdup_ok\<close> whether the copy could be allocated. The result \<open>None\<close> is a loop without end.
\<close>

definition scrub_forksrv_env :: "string option \<Rightarrow> bool \<Rightarrow> environ \<Rightarrow> environ option" where
  "scrub_forksrv_env fname strdup_ok env =
     (let preload = env ''LD_PRELOAD'';
          env = env(''__CS_PROXY'' := None)
      in (case (preload, fname) of
            (Some p, Some f) \<Rightarrow>
              if \<not> strdup_ok then Some env
              else
                (case strip_all f p of
                   None \<Rightarrow> None
                 | Some rest \<Rightarrow>
                     Some (if \<forall>c \<in> set rest. c = CHR '':'' \<or> c = CHR '' '' then env(''LD_PRELOAD'' := None)
                           else env(''LD_PRELOAD'' := Some rest)))
          | _ \<Rightarrow> Some env))"

section \<open>The fork server\<close>

datatype fork_result = Forked u32 | In_Child | Fork_EAGAIN | Fork_Error

datatype fs_end = Exits int | Runs_Target bool

record fsrv =
  forks :: "fork_result list"
  waits :: "u32 option list"
  sent :: "u32 list"
  naps :: "nat list"

definition fs_write :: "(nat \<Rightarrow> bool) \<Rightarrow> u32 \<Rightarrow> fsrv \<Rightarrow> bool \<times> fsrv" where
  "fs_write ok v s = (if ok (length (sent s)) then (True, s\<lparr>sent := sent s @ [v]\<rparr>) else (False, s))"

definition by_sigstop :: "u32 \<Rightarrow> bool" where
  "by_sigstop st \<longleftrightarrow> WIFSTOPPED st \<and> WSTOPSIG st = SIGSTOP"

text \<open>The attempts from number \<open>i\<close> on, of ten; \<open>prev\<close> is what the previous one gave.\<close>

function fork_retry :: "nat \<Rightarrow> fork_result \<Rightarrow> fsrv \<Rightarrow> (fork_result \<times> fsrv) outcome" where
  "fork_retry i prev s =
     (if i < 10
      then (case forks s of
              [] \<Rightarrow> Loops
            | f # fs \<Rightarrow>
                let s = s\<lparr>forks := fs\<rparr>
                in if f \<noteq> Fork_EAGAIN then Returns (f, s)
                   else fork_retry (i + 1) f (s\<lparr>naps := naps s @ [push_bit i 1000]\<rparr>))
      else Returns (prev, s))"
  by pat_completeness auto
termination
  by (relation "measure (\<lambda>(i, _). 10 - i)") auto

declare fork_retry.simps [simp del]

text \<open>The inner loop: every status is passed on, the one that is not a stop by \<open>SIGSTOP\<close> last.\<close>

fun relay :: "(nat \<Rightarrow> bool) \<Rightarrow> u32 option list \<Rightarrow> fsrv \<Rightarrow> (fs_end option \<times> fsrv) outcome" where
  "relay ok [] s = Loops"
| "relay ok (None # r) s = Returns (Some (Exits 8), s\<lparr>waits := r\<rparr>)"
| "relay ok (Some st # r) s =
     (let (b, s) = fs_write ok st (s\<lparr>waits := r\<rparr>)
      in if \<not> b then Returns (Some (Exits 9), s)
         else if \<not> by_sigstop st then Returns (None, s)
         else relay ok r s)"

text \<open>One turn of the outer loop after the request was read; \<open>None\<close> goes on.\<close>

definition serve_request :: "(nat \<Rightarrow> bool) \<Rightarrow> fsrv \<Rightarrow> (fs_end option \<times> fsrv) outcome" where
  "serve_request ok s =
     obind (fork_retry 0 Fork_Error s) (\<lambda>(f, s).
       case f of
         In_Child \<Rightarrow> Returns (Some (Runs_Target True), s)
       | Forked pid \<Rightarrow>
           (case waits s of
              [] \<Rightarrow> Loops
            | None # r \<Rightarrow> Returns (Some (Exits 6), s\<lparr>waits := r\<rparr>)
            | Some st # r \<Rightarrow>
                let s = s\<lparr>waits := r\<rparr>
                in if \<not> by_sigstop st
                   then
                     let (b, s) = fs_write ok st s
                     in Returns (if \<not> b then Some (Exits 7) else None, s)
                   else
                     let (b, s) = fs_write ok pid s
                     in if \<not> b then Returns (Some (Exits 5), s) else relay ok (waits s) s)
       | _ \<Rightarrow> Returns (Some (Exits 4), s))"

fun forksrv_loop :: "(nat \<Rightarrow> bool) \<Rightarrow> u32 option list \<Rightarrow> fsrv \<Rightarrow> (fs_end \<times> fsrv) outcome" where
  "forksrv_loop ok [] s = Loops"
| "forksrv_loop ok (None # r) s = Returns (Exits 1, s)"
| "forksrv_loop ok (Some _ # r) s =
     obind (serve_request ok s) (\<lambda>(x, s). case x of Some e \<Rightarrow> Returns (e, s) | None \<Rightarrow> forksrv_loop ok r s)"

text \<open>
  \<open>__cs_start_forkserver\<close>: where it ends, the environment and the server's state. Under
  \<open>cs-trace\<close> the process stops itself once and then runs the target.
\<close>

definition cs_start_forkserver ::
  "string option \<Rightarrow> bool \<Rightarrow> (nat \<Rightarrow> bool) \<Rightarrow> u32 option list \<Rightarrow> environ \<Rightarrow> fsrv
   \<Rightarrow> (fs_end \<times> environ \<times> fsrv) outcome" where
  "cs_start_forkserver fname strdup_ok ok ctl env s =
     (if env ''__CS_PROXY'' = None then Returns (Runs_Target (env ''__CS_TRACE'' \<noteq> None), env, s)
      else
        (case scrub_forksrv_env fname strdup_ok env of
           None \<Rightarrow> Loops
         | Some env \<Rightarrow>
             let (b, s) = fs_write ok 0 s
             in if \<not> b then Returns (Exits (- 1), env, s)
                else obind (forksrv_loop ok ctl s) (\<lambda>(e, s). Returns (e, env, s))))"

section \<open>Removing the library from the environment\<close>

lemma strprefix_iff: "strprefix f s \<longleftrightarrow> prefix f s"
  by (simp add: strprefix_def prefix_def) (metis append_take_drop_id append_eq_conv_conj)

lemma strstr_pos_None: "strstr_pos s f = None \<longleftrightarrow> \<not> sublist f s"
  by (induction s) (auto simp: strprefix_iff sublist_Cons_right)

lemma strprefix_split: "strprefix f s \<Longrightarrow> length f \<le> length s \<and> f @ drop (length f) s = s"
  unfolding strprefix_def by (metis append_take_drop_id length_take min.cobounded1)

lemma strstr_pos_Some:
  "strstr_pos s f = Some i \<Longrightarrow> i + length f \<le> length s \<and> take i s @ f @ drop (i + length f) s = s"
  by (induction s arbitrary: i) (auto dest: strprefix_split split: if_splits)

lemma strip_all_ends:
  assumes "f \<noteq> []"
  shows "\<exists>y. strip_all f s = Some y \<and> \<not> sublist f y \<and> subseq y s"
proof (induction "length s" arbitrary: s rule: less_induct)
  case less
  show ?case
  proof (cases "strstr_pos s f")
    case None
    then show ?thesis by (subst strip_all.simps) (simp add: strstr_pos_None [symmetric])
  next
    case (Some i)
    let ?s = "take i s @ drop (i + length f) s"
    note hit = strstr_pos_Some [OF Some]
    moreover have "0 < length f" using assms by simp
    ultimately have "length ?s < length s"
      using hit by (metis add_diff_cancel_left' append_assoc length_append length_drop length_take less_add_same_cancel1 add.commute nat_add_left_cancel_less add_less_cancel_right)
    from less [OF this] obtain y where y: "strip_all f ?s = Some y" "\<not> sublist f y" "subseq y ?s" by blast
    have "subseq ?s (take i s @ f @ drop (i + length f) s)"
      by (intro list_emb_append_mono list_emb_append2) simp_all
    then have "subseq ?s s" using hit by simp
    then have "subseq y s" using y(3) by (meson subseq_order.trans)
    with y Some show ?thesis by (subst strip_all.simps) simp
  qed
qed

text \<open>
  C12: Removing the library from \<open>LD_PRELOAD\<close> comes to an end and is thorough. Unless the library
  has an empty name, \<open>scrub_forksrv_env\<close> returns; afterwards the marker \<open>__CS_PROXY\<close> is gone,
  \<open>LD_PRELOAD\<close> no longer contains the library's name, not even one formed by an earlier removal,
  what it still holds is a part of what it held, and every other variable is as it was.
\<close>

theorem scrub_ends_and_cleans:
  assumes "f \<noteq> []"
  shows "\<exists>env'. scrub_forksrv_env (Some f) True env = Some env' \<and> env' ''__CS_PROXY'' = None \<and>
    (\<forall>v. env' ''LD_PRELOAD'' = Some v \<longrightarrow>
       \<not> sublist f v \<and> (\<exists>p. env ''LD_PRELOAD'' = Some p \<and> subseq v p)) \<and>
    (\<forall>x. x \<noteq> ''__CS_PROXY'' \<longrightarrow> x \<noteq> ''LD_PRELOAD'' \<longrightarrow> env' x = env x)"
proof (cases "env ''LD_PRELOAD''")
  case None
  then show ?thesis by (simp add: scrub_forksrv_env_def)
next
  case (Some p)
  obtain y where "strip_all f p = Some y" "\<not> sublist f y" "subseq y p"
    using strip_all_ends [OF assms] by blast
  with Some show ?thesis by (simp add: scrub_forksrv_env_def Let_def)
qed

theorem scrub_ends_and_cleans_witness:
  "\<exists>env'. scrub_forksrv_env (Some ''ab'') True [''LD_PRELOAD'' \<mapsto> ''xaabb''] = Some env' \<and>
     (\<forall>v. env' ''LD_PRELOAD'' = Some v \<longrightarrow> \<not> sublist ''ab'' v)"
  using scrub_ends_and_cleans [of "''ab''" "[''LD_PRELOAD'' \<mapsto> ''xaabb'']"] by blast

section \<open>The protocol with the proxy\<close>

text \<open>At most ten attempts, and a result that is not \<open>EAGAIN\<close> ends them.\<close>

lemma fork_retry_ok: "i < 10 \<Longrightarrow> forks s = f # fs \<Longrightarrow> f \<noteq> Fork_EAGAIN \<Longrightarrow> fork_retry i prev s = Returns (f, s\<lparr>forks := fs\<rparr>)"
  by (simp add: fork_retry.simps)

text \<open>Each attempt that gives \<open>EAGAIN\<close> is followed by a pause twice as long as the one before.\<close>

lemma fork_retry_again:
  assumes "i + k < 10" and "forks s = replicate k Fork_EAGAIN @ f # fs" and "f \<noteq> Fork_EAGAIN"
  shows "fork_retry i prev s =
    Returns (f, s\<lparr>forks := fs, naps := naps s @ map (\<lambda>j. 1000 * 2 ^ j) [i..<i + k]\<rparr>)"
  using assms(1,2)
proof (induction k arbitrary: i prev s)
  case 0
  then show ?case using assms(3) by (simp add: fork_retry_ok)
next
  case (Suc k)
  have "[i..<i + Suc k] = i # [Suc i..<Suc i + k]" by (simp add: upt_conv_Cons)
  with Suc.prems show ?case
    by (subst fork_retry.simps) (simp add: Suc.IH push_bit_eq_mult mult.commute Let_def)
qed

lemma relay_child:
  assumes "\<forall>st \<in> set stops. by_sigstop st" and "\<not> by_sigstop fin"
  shows "relay (\<lambda>_. True) (map Some stops @ Some fin # r) s =
    Returns (None, s\<lparr>waits := r, sent := sent s @ stops @ [fin]\<rparr>)"
  using assms(1)
proof (induction stops arbitrary: s)
  case Nil
  then show ?case using assms(2) by (simp add: fs_write_def)
next
  case (Cons st stops)
  then show ?case by (simp add: fs_write_def)
qed

lemma wait_child_stream:
  assumes "\<forall>st \<in> set stops. by_sigstop st" and "\<not> by_sigstop fin"
  shows "\<exists>s'. wait_child (map Some stops @ Some fin # r) s = Returns (Some fin, r, s')"
  using assms(1)
proof (induction stops arbitrary: s)
  case Nil
  then show ?case using assms(2) by (auto simp: by_sigstop_def)
next
  case (Cons st stops)
  then show ?case by (auto simp: by_sigstop_def)
qed

text \<open>
  C11: The fork server and the proxy stay in step on a child that starts properly. For a request
  whose fork succeeds within ten attempts and whose child stops itself before anything else, is
  then stopped and resumed any number of times and ends, and while the pipe can be written, the
  server pauses 1, 2, 4, ... ms after the attempts that gave \<open>EAGAIN\<close> and sends the child's pid, each
  stop and the final status; the proxy, reading exactly these words, takes the first for the pid
  and the rest for the statuses, ends its wait on the last one and leaves nothing behind in the pipe.
  A child that ends before it stops itself breaks this (\<open>early_exit_desynchronises\<close>).
\<close>

theorem forksrv_feeds_proxy:
  assumes "forks s = replicate k Fork_EAGAIN @ Forked pid # fs" and "k < 10"
    and "waits s = Some st0 # map Some stops @ Some fin # r"
    and "\<forall>st \<in> set (st0 # stops). by_sigstop st" and "\<not> by_sigstop fin"
  shows "\<exists>s' p' ses'. serve_request (\<lambda>_. True) s = Returns (None, s') \<and>
    sent s' = sent s @ [pid] @ stops @ [fin] \<and> waits s' = r \<and> forks s' = fs \<and>
    naps s' = naps s @ map (\<lambda>j. 1000 * 2 ^ j) [0..<k] \<and>
    st_read (p\<lparr>fsrv_in := map Some (drop (length (sent s)) (sent s')) @ rest\<rparr>) = Returns (Some pid, p') \<and>
    wait_child (fsrv_in p') (ses p') = Returns (Some fin, rest, ses')"
proof -
  let ?s = "s\<lparr>forks := fs, naps := naps s @ map (\<lambda>j. 1000 * 2 ^ j) [0..<k], waits := r,
    sent := (sent s @ [pid]) @ stops @ [fin]\<rparr>"
  have "fork_retry 0 Fork_Error s =
      Returns (Forked pid, s\<lparr>forks := fs, naps := naps s @ map (\<lambda>j. 1000 * 2 ^ j) [0..<k]\<rparr>)"
    using fork_retry_again [OF _ assms(1), of 0 Fork_Error] assms(2) by simp
  then have "serve_request (\<lambda>_. True) s = Returns (None, ?s)"
    using assms(4,5) by (simp add: serve_request_def assms(3) fs_write_def relay_child)
  then show ?thesis
    using wait_child_stream [of stops fin rest "ses p"] assms(4,5) by (simp add: st_read_def)
qed

definition sim_fsrv :: fsrv where
  "sim_fsrv = \<lparr>forks = [Fork_EAGAIN, Forked 42], waits = [Some 0x137f, Some 0x137f, Some 0x0100], sent = [0], naps = []\<rparr>"

theorem forksrv_feeds_proxy_witness:
  "\<exists>s' p' ses'. serve_request (\<lambda>_. True) sim_fsrv = Returns (None, s') \<and> sent s' = [0, 42, 0x137f, 0x0100] \<and>
     naps s' = [1000] \<and>
     st_read (sim_proxy\<lparr>fsrv_in := map Some (drop (length (sent sim_fsrv)) (sent s'))\<rparr>) = Returns (Some 42, p') \<and>
     wait_child (fsrv_in p') (ses p') = Returns (Some 0x0100, [], ses')"
  using forksrv_feeds_proxy [of sim_fsrv "1" 42 "[]" "0x137f" "[0x137f]" "0x0100" "[]" "[]" sim_proxy]
  by (auto simp: sim_fsrv_def by_sigstop_def WIFSTOPPED_def WSTOPSIG_def)

text \<open>
  A child that ends before it stops itself puts the two out of step. The server then sends a
  single word, the wait status, where the proxy expects a pid; the proxy reads it as one, and its
  wait for a status never returns.
\<close>

theorem early_exit_desynchronises:
  assumes "forks s = Forked pid # fs" and "waits s = Some st # r" and "\<not> by_sigstop st"
    and "fsrv_in p = [Some st]"
  shows "\<exists>s'. serve_request (\<lambda>_. True) s = Returns (None, s') \<and> sent s' = sent s @ [st] \<and>
    (\<exists>p'. st_read p = Returns (Some st, p') \<and> wait_child (fsrv_in p') (ses p') = Loops)"
  using assms by (simp add: serve_request_def fork_retry_ok fs_write_def st_read_def)

theorem early_exit_desynchronises_witness:
  "\<exists>s' p'. serve_request (\<lambda>_. True) \<lparr>forks = [Forked 42], waits = [Some 0x0100], sent = [0], naps = []\<rparr> = Returns (None, s') \<and>
     sent s' = [0, 0x0100] \<and> st_read (sim_proxy\<lparr>fsrv_in := [Some 0x0100]\<rparr>) = Returns (Some 0x0100, p') \<and>
     wait_child (fsrv_in p') (ses p') = Loops"
  using early_exit_desynchronises [of "\<lparr>forks = [Forked 42], waits = [Some 0x0100], sent = [0], naps = []\<rparr>" 42 "[]" "0x0100" "[]"
      "sim_proxy\<lparr>fsrv_in := [Some 0x0100]\<rparr>"]
  by (simp add: by_sigstop_def WIFSTOPPED_def)

end
