(* ===== verification/Launch.thy ===== *)
theory Launch
  imports Forksrv
begin

text \<open>
  How the two programs start: the options and environment of \<open>src/src/cs-proxy.c\<close> and
  \<open>src/src/cs-trace.c\<close>, the environment they give the target, the shared map and the greeting of
  the proxy, and \<open>cs-trace\<close>'s loop over the target's wait statuses. The constants of AFL++'s
  headers are the fields of \<open>afl_consts\<close>. \<open>getopt_long\<close> is taken as the options it returns, the
  arguments as it leaves them and \<open>optind\<close>. A \<open>FATAL\<close> or \<open>PFATAL\<close> ends the process: \<open>Died\<close>.
\<close>

unbundle bit_operations_syntax

section \<open>The target's environment\<close>

text \<open>The tokens \<open>strtok\<close> yields for one separator: the non-empty pieces between its occurrences.\<close>

fun strtok_all :: "char \<Rightarrow> string \<Rightarrow> string \<Rightarrow> string list" where
  "strtok_all c w [] = (if w = [] then [] else [w])"
| "strtok_all c w (x # s) =
     (if x = c then (if w = [] then [] else [w]) @ strtok_all c [] s else strtok_all c (w @ [x]) s)"

text \<open>The three variables both programs set. \<open>ld_library_path\<close> is never \<open>NULL\<close> where it is tested.\<close>

definition base_envp :: "string \<Rightarrow> string \<Rightarrow> environ \<Rightarrow> string list" where
  "base_envp marker ld_forksrv_path env =
     (let ld_preload = ''LD_PRELOAD='';
          ld_preload = (case env ''CS_LD_PRELOAD'' of
                          None \<Rightarrow> ld_preload | Some v \<Rightarrow> append_string (Some ld_preload) (Some v));
          ld_library_path = append_string (Some ''LD_LIBRARY_PATH='') (env ''CS_LD_LIBRARY_PATH'');
          ld_preload = (if env ''CS_DEFER_FORKSRV'' = None
                        then append_string (Some ld_preload) (Some ld_forksrv_path) else ld_preload)
      in [marker, ld_preload, ld_library_path])"

definition child_envp :: "string \<Rightarrow> environ \<Rightarrow> string list" where
  "child_envp = base_envp ''__CS_TRACE=1''"

abbreviation (input) CS_PASS_ENV_MAX :: nat where "CS_PASS_ENV_MAX \<equiv> 16"

text \<open>The loop over the names; \<open>n\<close> is the next index of \<open>envp\<close>, \<open>None\<close> is \<open>FATAL\<close>.\<close>

fun pass_env :: "environ \<Rightarrow> nat \<Rightarrow> string list \<Rightarrow> string list option" where
  "pass_env env n [] = Some []"
| "pass_env env n (name # names) =
     (case env name of
        None \<Rightarrow> pass_env env n names
      | Some v \<Rightarrow>
          if n - 3 = CS_PASS_ENV_MAX then None
          else map_option ((#) (append_string (Some (append_string (Some name) (Some ''=''))) (Some v)))
                 (pass_env env (n + 1) names))"

definition proxy_envp :: "string \<Rightarrow> environ \<Rightarrow> string list option" where
  "proxy_envp ld_forksrv_path env =
     (let envp = base_envp ''__CS_PROXY=1'' ld_forksrv_path env
      in (case env ''CS_PASS_ENV'' of
            None \<Rightarrow> Some envp
          | Some names \<Rightarrow> map_option ((@) envp) (pass_env env 3 (strtok_all CHR '':'' [] names))))"

section \<open>The shared map and the greeting\<close>

record afl_consts =
  SHM_ENV_VAR :: string
  MAP_SIZE :: u32
  FS_OPT_MAX_MAPSIZE :: u32
  FS_OPT_ERROR :: u32
  FS_OPT_SET_ERROR :: "u32 \<Rightarrow> u32"
  FS_OPT_SET_MAPSIZE :: "u32 \<Rightarrow> u32"
  FS_OPT_MAPSIZE :: u32
  FS_OPT_ENABLED :: u32
  FS_ERROR_MAP_SIZE :: int
  FS_ERROR_SHM_OPEN :: int
  FS_ERROR_MMAP :: int
  FS_ERROR_SHMAT :: int

datatype 'a launch = Quits int | Died | Goes_On 'a

text \<open>
  How the segment is attached (\<open>USEMMAP\<close> or \<open>shmat\<close>) and what the calls give; a segment that is
  attached is not empty.
\<close>

record shm_env =
  sh_usemmap :: bool
  sh_open :: bool
  sh_map :: "u8 list option"
  sh_at :: "u8 list option"

definition send_forkserver_error ::
  "afl_consts \<Rightarrow> ('h, 'd) world \<Rightarrow> int \<Rightarrow> ('h, 'd) proxy \<Rightarrow> ('h, 'd) proxy" where
  "send_forkserver_error K W err p =
     (if err = 0 \<or> err > 0xffff then p
      else snd (afl_write W (FS_OPT_ERROR K OR FS_OPT_SET_ERROR K (word_of_int err)) p))"

definition map_size_of :: "environ \<Rightarrow> u32 \<Rightarrow> u32" where
  "map_size_of env sz =
     (case env ''AFL_MAP_SIZE'' of
        None \<Rightarrow> sz
      | Some v \<Rightarrow> let val = word_of_int (atoi v) in if val > 0 then val else sz)"

definition attach_map :: "u32 \<Rightarrow> u8 list option \<Rightarrow> ('h, 'd) proxy \<Rightarrow> ('h, 'd) proxy" where
  "attach_map sz m p =
     p\<lparr>ses := (ses p)\<lparr>dec := (dec (ses p))\<lparr>trace_bitmap := m, trace_bitmap_size := unat sz\<rparr>\<rparr>\<rparr>"

text \<open>The exit status, if the process ends here, and the proxy.\<close>

definition afl_map_shm ::
  "afl_consts \<Rightarrow> shm_env \<Rightarrow> ('h, 'd) world \<Rightarrow> environ \<Rightarrow> ('h, 'd) proxy
   \<Rightarrow> int option \<times> ('h, 'd) proxy" where
  "afl_map_shm K S W env p =
     (let id_str = env (SHM_ENV_VAR K);
          sz = map_size_of env (MAP_SIZE K);
          quit = (\<lambda>err code. (Some code, send_forkserver_error K W err p));
          attached = (\<lambda>m. (None, attach_map sz (Some (m[0 := 1])) p))
      in if sz > MAP_SIZE K \<and> sz > FS_OPT_MAX_MAPSIZE K \<and> id_str \<noteq> None then quit (FS_ERROR_MAP_SIZE K) (- 1)
         else if id_str = None
           then (None, attach_map sz (trace_bitmap (dec (ses p))) p)
         else if sh_usemmap S
           then
             if \<not> sh_open S then quit (FS_ERROR_SHM_OPEN K) 1
             else (case sh_map S of None \<Rightarrow> quit (FS_ERROR_MMAP K) 2 | Some m \<Rightarrow> attached m)
         else (case sh_at S of None \<Rightarrow> quit (FS_ERROR_SHMAT K) 1 | Some m \<Rightarrow> attached m))"

text \<open>The word sent to AFL++ for the one the fork server greeted with.\<close>

definition hello :: "afl_consts \<Rightarrow> u32 \<Rightarrow> u32 \<Rightarrow> u32" where
  "hello K sz status =
     (if status = 0
      then
        let status = (if sz \<le> FS_OPT_MAX_MAPSIZE K then FS_OPT_SET_MAPSIZE K sz OR FS_OPT_MAPSIZE K else 0)
        in if status \<noteq> 0 then status OR FS_OPT_ENABLED K else status
      else status)"

text \<open>\<open>spawn\<close> is the fork server's pid, \<open>None\<close> when a pipe or the process could not be made.\<close>

definition afl_start_forkserver ::
  "afl_consts \<Rightarrow> int option \<Rightarrow> ('h, 'd) world \<Rightarrow> ('h, 'd) proxy \<Rightarrow> (('h, 'd) proxy) outcome" where
  "afl_start_forkserver K spawn W p =
     (case spawn of
        None \<Rightarrow> Faults
      | Some pid \<Rightarrow>
          obind (st_read (p\<lparr>fsrv_pid := pid\<rparr>)) (\<lambda>(x, p).
            case x of
              None \<Rightarrow> Faults
            | Some status \<Rightarrow>
                let (ok, p) = afl_write W (hello K (of_nat (trace_bitmap_size (dec (ses p)))) status) p
                in if ok then Returns p else Faults))"

section \<open>The proxy's command line\<close>

text \<open>
  What the system answers: whether the signal handler was set, the library next to the program,
  which files exist, whether the user is root, \<open>/proc/modules\<close>, and whether standard input is a
  file.
\<close>

record launch_env =
  le_signal :: bool
  le_lib :: "string option"
  le_exists :: "string \<Rightarrow> bool"
  le_root :: bool
  le_modules :: "string option"
  le_stdin_file :: bool

text \<open>The arguments after the program's name, at least two of them; \<open>None\<close> is \<open>FATAL\<close>.\<close>

fun scan_target :: "(string \<Rightarrow> bool) \<Rightarrow> string list \<Rightarrow> string list option" where
  "scan_target exists [] = None"
| "scan_target exists (a # args) =
     (if a = ''--'' \<and> args \<noteq> [] then (if exists (hd args) then Some args else None)
      else if args = [] then None
      else scan_target exists args)"

text \<open>The coverage type, where the test case is and the sampling period; \<open>None\<close> is \<open>FATAL\<close>.\<close>

definition coverage_options ::
  "backend \<Rightarrow> bool \<Rightarrow> environ \<Rightarrow> string list \<Rightarrow> ('h, 'd) proxy
   \<Rightarrow> ((string option \<times> bool) \<times> ('h, 'd) proxy) option" where
  "coverage_options B stdin_file env target p =
     (let with_cov = (\<lambda>ct. p\<lparr>ses := (ses p)\<lparr>dec := (dec (ses p))\<lparr>cov_type := ct\<rparr>\<rparr>\<rparr>)
      in (case env ''AFLCS_COV'' of
            None \<Rightarrow> Some ((None, False), p)
          | Some v \<Rightarrow>
              if v = ''edge'' then Some ((None, False), with_cov edge_cov)
              else if v = ''path'' then Some ((None, False), with_cov path_cov)
              else if v = ''hybrid''
                then (case B of
                        Armored \<Rightarrow> None
                      | Stalker \<Rightarrow>
                          Some (find_input stdin_file target,
                            (case env ''AFLCS_HYBRID_SAMPLE'' of
                               None \<Rightarrow> with_cov hybrid_cov
                             | Some n \<Rightarrow>
                                 (with_cov hybrid_cov)\<lparr>hybrid_sample :=
                                    (case scan_ull n of None \<Rightarrow> 0 | Some (k, _) \<Rightarrow> k)\<rparr>)))
              else None))"

definition proxy_options ::
  "launch_env \<Rightarrow> environ \<Rightarrow> string list \<Rightarrow> ('h, 'd) proxy
   \<Rightarrow> (string list \<times> (string option \<times> bool) \<times> ('h, 'd) proxy) launch" where
  "proxy_options E env argv p =
     (if \<not> le_signal E then Quits 1
      else if le_lib E = None \<or> \<not> le_exists E (the (le_lib E)) then Quits (- 1)
      else if \<not> le_root E then Quits (- 1)
      else if length argv < 3 then Quits (- 1)
      else
        (case check_udmabuf (le_modules E) of
           None \<Rightarrow> Quits 1
         | Some r \<Rightarrow>
             if r \<noteq> 0 then Quits (- 1)
             else
               let B = cfg_backend (conf (ses p));
                   p = (if B = Stalker \<and> env ''AFLCS_FREQ_CALIBRATE'' = Some ''0''
                        then p\<lparr>needs_calibration := False\<rparr> else p);
                   p = p\<lparr>ses := (ses p)\<lparr>decoding_on := (env ''AFLCS_NO_DECODER'' = None)\<rparr>\<rparr>
               in (case scan_target (le_exists E) (tl argv) of
                     None \<Rightarrow> Died
                   | Some target \<Rightarrow>
                       (case coverage_options B (le_stdin_file E) env target p of
                          None \<Rightarrow> Died
                        | Some (input, p) \<Rightarrow>
                            let p = (case env ''AFLCS_UDMABUF'' of
                                       None \<Rightarrow> p | Some v \<Rightarrow> p\<lparr>ses := (ses p)\<lparr>udmabuf_num := atoi v\<rparr>\<rparr>)
                            in Goes_On (target, input, p)))))"

text \<open>The whole of \<open>main\<close>, for at most \<open>n\<close> requests: the exit status or \<open>None\<close> while it would go on.\<close>

definition proxy_main ::
  "afl_consts \<Rightarrow> shm_env \<Rightarrow> int option \<Rightarrow> launch_env \<Rightarrow> ('h, 'd) world \<Rightarrow> nat \<Rightarrow> environ \<Rightarrow> string list
   \<Rightarrow> ('h, 'd) proxy \<Rightarrow> (int option \<times> ('h, 'd) proxy) outcome" where
  "proxy_main K S spawn E W n env argv p =
     (case proxy_options E env argv p of
        Quits r \<Rightarrow> Returns (Some r, p)
      | Died \<Rightarrow> Faults
      | Goes_On (_, _, p) \<Rightarrow>
          (case afl_map_shm K S W env p of
             (Some r, p) \<Rightarrow> Returns (Some r, p)
           | (None, p) \<Rightarrow> obind (afl_start_forkserver K spawn W p) (main_loop W n)))"

section \<open>cs-trace\<close>

definition WIFEXITED :: "u32 \<Rightarrow> bool" where
  "WIFEXITED st \<longleftrightarrow> st AND 0x7f = 0"

abbreviation (input) PTRACE_EVENT_VFORK_DONE :: u32 where "PTRACE_EVENT_VFORK_DONE \<equiv> 5"

text \<open>One turn of the option loop: the option and its argument. Verbosity and \<open>--export\<close> only print.\<close>

definition apply_opt :: "char \<Rightarrow> string option \<Rightarrow> ('h, 'd) session \<Rightarrow> (('h, 'd) session) launch" where
  "apply_opt opt optarg s =
     (let arg = (case optarg of None \<Rightarrow> [] | Some a \<Rightarrow> a);
          with_cov = (\<lambda>ct. s\<lparr>dec := (dec s)\<lparr>cov_type := ct\<rparr>, decoding_on := True\<rparr>)
      in if opt = CHR ''b'' then Goes_On (s\<lparr>board_name := arg\<rparr>)
         else if opt = CHR ''c'' then Goes_On (s\<lparr>trace_cpu := atoi arg\<rparr>)
         else if opt = CHR ''d''
           then
             if arg = ''edge'' then Goes_On (with_cov edge_cov)
             else if arg = ''path'' then Goes_On (with_cov path_cov)
             else Quits 1
         else if opt = CHR ''l'' then Goes_On (s\<lparr>dec := (dec s)\<lparr>coverage := True\<rparr>\<rparr>)
         else if opt = CHR ''u'' then Goes_On (s\<lparr>udmabuf_num := atoi arg\<rparr>)
         else if opt = CHR ''h'' then Quits 0
         else Goes_On s)"

fun apply_opts :: "(char \<times> string option) list \<Rightarrow> ('h, 'd) session \<Rightarrow> (('h, 'd) session) launch" where
  "apply_opts [] s = Goes_On s"
| "apply_opts ((c, a) # opts) s = (case apply_opt c a s of Goes_On s \<Rightarrow> apply_opts opts s | r \<Rightarrow> r)"

abbreviation (input) DEFAULT_TRACE_BITMAP_SIZE :: nat where "DEFAULT_TRACE_BITMAP_SIZE \<equiv> 65536"

text \<open>
  \<open>main\<close> up to the fork: \<open>argv\<close> as \<open>getopt_long\<close> leaves it. The target and the session.
\<close>

definition trace_options ::
  "launch_env \<Rightarrow> (char \<times> string option) list \<Rightarrow> string list \<Rightarrow> nat \<Rightarrow> ('h, 'd) session
   \<Rightarrow> (string list \<times> ('h, 'd) session) launch" where
  "trace_options E opts argv optind s =
     (let s = s\<lparr>dec := (dec s)\<lparr>trace_bitmap_size := DEFAULT_TRACE_BITMAP_SIZE\<rparr>\<rparr>
      in if length argv < 3 then Quits 0
         else if le_lib E = None \<or> \<not> le_exists E (the (le_lib E)) then Quits (- 1)
         else if \<not> le_root E then Quits 1
         else
           (case check_udmabuf (le_modules E) of
              None \<Rightarrow> Quits 1
            | Some r \<Rightarrow>
                if r \<noteq> 0 then Quits 1
                else
                  (case apply_opts opts s of
                     Quits r \<Rightarrow> Quits r
                   | Died \<Rightarrow> Died
                   | Goes_On s \<Rightarrow>
                       if length argv \<le> optind \<or> argv ! (optind - 1) \<noteq> ''--'' then Quits 1
                       else if \<not> decoding_on s \<and> coverage (dec s) \<or> coverage (dec s) \<and> cov_type (dec s) = path_cov
                         then Quits 1
                       else if \<not> le_exists E (argv ! optind) then Quits 1
                       else Goes_On (drop optind argv, s))))"

text \<open>The loop over the wait statuses; \<open>a\<close> is what the system does during the execution.\<close>

fun trace_loop ::
  "('h, 'd) world \<Rightarrow> 'h attempt \<Rightarrow> u32 list \<Rightarrow> ('h, 'd) session \<Rightarrow> (u32 \<times> ('h, 'd) session) outcome" where
  "trace_loop W a [] s = Loops"
| "trace_loop W a (st # r) s =
     (if WIFEXITED st
      then
        obind (decoder_runs W a s) (\<lambda>(worker, s).
        obind (stop_trace (w_csal W) (w_etr W) (at_sys a) worker True s) (\<lambda>(_, s).
        obind (fini_trace (w_csal W) (w_etr W) (w_dec W) (at_sys a) s) (\<lambda>s. Returns (st, s))))
      else if by_sigstop st then trace_loop W a r (trace_suspend_resume_callback s)
      else trace_loop W a r s)"

text \<open>
  \<open>parent\<close>: the results of \<open>init_trace\<close> and \<open>start_trace\<close> are ignored, as in the code. The stop
  after \<open>execve\<close> is a \<open>SIGTRAP\<close>, whose number the code names \<open>PTRACE_EVENT_VFORK_DONE\<close>. The last wait
  status is stored through \<open>child_status\<close> if that is not \<open>NULL\<close>; the result is what is stored.
\<close>

definition parent ::
  "('h, 'd) world \<Rightarrow> 'h attempt \<Rightarrow> int \<Rightarrow> int \<Rightarrow> bool \<Rightarrow> u32 list \<Rightarrow> ('h, 'd) session
   \<Rightarrow> (u32 option \<times> ('h, 'd) session) outcome" where
  "parent W a self pid child_status ws s =
     obind
       (case ws of
          [] \<Rightarrow> Loops
        | st # ws \<Rightarrow>
            if WIFSTOPPED st \<and> WSTOPSIG st = PTRACE_EVENT_VFORK_DONE
            then
              (case ws of
                 [] \<Rightarrow> Loops
               | _ # ws \<Rightarrow>
                   let (_, s) = init_trace (w_csal W) (w_setup W) (w_dec W) (w_init W) self pid s
                   in obind (start_trace (w_csal W) (w_dec W) (at_sys a) pid True s) (\<lambda>(_, s). trace_loop W a ws s))
            else trace_loop W a ws s)
       (\<lambda>(wstatus, s). Returns (if child_status then Some wstatus else None, s))"

text \<open>
  The forked process: the program it becomes, its arguments and its environment; if \<open>execve\<close> fails
  it exits with 1.
\<close>

record exec_call =
  ex_path :: string
  ex_argv :: "string list"
  ex_envp :: "string list"

datatype forked = Fork_Child bool | Fork_Failed | Fork_Parent int

datatype 's trace_end = Becomes exec_call | Ends int 's

definition child :: "bool \<Rightarrow> string \<Rightarrow> environ \<Rightarrow> string list \<Rightarrow> 's \<Rightarrow> 's trace_end" where
  "child execve_ok ld_forksrv_path env argv s =
     (if execve_ok then Becomes \<lparr>ex_path = argv ! 0, ex_argv = argv, ex_envp = child_envp ld_forksrv_path env\<rparr>
      else Ends 1 s)"

text \<open>
  The whole of \<open>main\<close>; \<open>ws\<close> are the wait statuses of the target. It calls \<open>parent\<close> with \<open>NULL\<close> for the
  status and returns 0 however the target ended.
\<close>

definition trace_main ::
  "launch_env \<Rightarrow> (char \<times> string option) list \<Rightarrow> string list \<Rightarrow> nat \<Rightarrow> environ \<Rightarrow> forked \<Rightarrow> ('h, 'd) world
   \<Rightarrow> 'h attempt \<Rightarrow> int \<Rightarrow> u32 list \<Rightarrow> ('h, 'd) session \<Rightarrow> (('h, 'd) session trace_end) outcome" where
  "trace_main E opts argv optind env fk W a self ws s =
     (case trace_options E opts argv optind s of
        Quits r \<Rightarrow> Returns (Ends r s)
      | Died \<Rightarrow> Faults
      | Goes_On (target, s) \<Rightarrow>
          (case fk of
             Fork_Child ok \<Rightarrow> Returns (child ok (the (le_lib E)) env target s)
           | Fork_Failed \<Rightarrow> Returns (Ends 1 s)
           | Fork_Parent pid \<Rightarrow> obind (parent W a self pid False ws s) (\<lambda>(_, s). Returns (Ends 0 s))))"

section \<open>The environment fits and is complete\<close>

lemma pass_env_spec:
  assumes "3 \<le> n" and "n \<le> 19"
  shows "pass_env env n names =
    (let found = filter (\<lambda>x. env x \<noteq> None) names
     in if length found \<le> 19 - n then Some (map (\<lambda>x. x @ ''='' @ the (env x)) found) else None)"
  using assms
proof (induction names arbitrary: n)
  case (Cons x names)
  show ?case
  proof (cases "n = 19")
    case True
    then show ?thesis using Cons.IH [of n] Cons.prems by (auto simp: append_string_def Let_def split: option.split)
  next
    case False
    then show ?thesis using Cons.IH [of n] Cons.IH [of "n + 1"] Cons.prems
      by (auto simp: append_string_def Let_def split: option.split)
  qed
qed simp

text \<open>
  C40: The target's environment fits its array and is what was asked for. The array has room for
  19 strings and the terminating null pointer; the proxy fills it with its three variables and one
  string for each name in \<open>CS_PASS_ENV\<close> that is set, in order, and gives up, instead of
  writing past the end, exactly when more than sixteen of them are set.
\<close>

theorem proxy_envp_fits:
  "let found = filter (\<lambda>x. env x \<noteq> None)
         (case env ''CS_PASS_ENV'' of None \<Rightarrow> [] | Some names \<Rightarrow> strtok_all CHR '':'' [] names)
   in case proxy_envp path env of
        None \<Rightarrow> 16 < length found
      | Some es \<Rightarrow> length es < 20 \<and> es = base_envp ''__CS_PROXY=1'' path env @ map (\<lambda>x. x @ ''='' @ the (env x)) found"
  by (auto simp: proxy_envp_def pass_env_spec Let_def base_envp_def split: option.split)

section \<open>When cs-trace ends\<close>

text \<open>
  \<open>cs-trace\<close> ends only with a target that exits by itself. However often the target is
  stopped, and also when a signal kills it, as long as no wait status is that of a normal exit
  the loop goes on waiting.
\<close>

theorem trace_loop_needs_exit:
  assumes "\<forall>st \<in> set ws. \<not> WIFEXITED st"
  shows "trace_loop W a ws s = Loops"
  using assms by (induction ws arbitrary: s) auto

theorem trace_loop_needs_exit_witness:
  "WIFSIGNALED 9 \<and> trace_loop sim_world sim_attempt [0x137f, 9] sim_session = Loops"
  using trace_loop_needs_exit [of "[0x137f, 9]" sim_world sim_attempt sim_session]
  by (simp add: WIFEXITED_def WIFSIGNALED_def)

section \<open>What cs-trace exports\<close>

lemma export_trace_captured:
  assumes "buf_inv (buf s)" and "sy_cwd sys = Some cwd" and "\<forall>f. sy_fopen_w sys f" and "0 \<le> trace_id (dec s)"
  shows "trace_files (snd (export_trace sys name args_name s)) =
    (snprintf_str PATH_MAX (cwd @ ''/'' @ name), captured (buf s)) # trace_files s"
proof -
  have "take (unat (trace_captured_bytes (buf s))) (buf_mem (buf s)) = captured (buf s)"
    using trace_captured_bytes_length [OF assms(1)] by (simp add: captured_def min_def)
  then show ?thesis
    using assms(2-4) by (simp add: export_trace_def export_decoder_args_def Let_def)
qed

lemma trace_loop_ends:
  assumes "\<forall>x \<in> set ws. \<not> WIFEXITED x" and "WIFEXITED st"
  shows "\<exists>t b. trace_loop W a (ws @ [st]) s = trace_loop W a [st] (s\<lparr>tstate := t, ev_suspend := b\<rparr>)"
  using assms(1)
proof (induction ws arbitrary: s)
  case Nil
  have "s = s\<lparr>tstate := tstate s, ev_suspend := ev_suspend s\<rparr>" by simp
  then show ?case by (metis append_Nil)
next
  case (Cons x ws)
  show ?case
  proof (cases "by_sigstop x")
    case True
    with Cons.IH [of "trace_suspend_resume_callback s"] Cons.prems show ?thesis
      by (auto simp: trace_suspend_resume_callback_def set_trace_state_def)
  next
    case False
    with Cons.IH [of s] Cons.prems show ?thesis by auto
  qed
qed

text \<open>The start with decoding off, and what the wait loop may have changed since.\<close>

lemma start_trace_off:
  assumes "start_trace H L sys pid use s0 = Returns (r, s1)" and "0 \<le> r" and "\<not> decoding_on s0"
    and "sy_mmap sys = Some p" and "user_addr p"
    and "trace_buf (buf s0) \<noteq> 0 \<and> direct_read s0 \<Longrightarrow> buf_inv (buf s0)"
    and "unat (etr_ram_size (buf s0)) \<le> 2 ^ 46" and "unat (etr_ram_size (buf s0)) mod 8 = 0"
  shows "exec_inv L s0 (clear_bitmap (dec s0)) 0 [] s1 \<and> trace_id (dec s1) = trace_id (dec s0)"
proof -
  let ?s = "s0\<lparr>buf := snd (alloc_trace_buf (direct_read s0) (sy_mmap sys) (buf s0)), dec := clear_bitmap (dec s0),
    child_pid := pid\<rparr>"
  obtain s2 where e: "enable_cs_trace H (if use then pid else 0) ?s = Some (r, s2)"
    and s1: "s1 = (set_trace_state running_state s2)\<lparr>ev_start := True\<rparr>"
    using assms(1-3)
    by (cases "enable_cs_trace H (if use then pid else 0) ?s")
      (auto simp: start_trace_def Let_def case_prod_beta or_dies_def split: if_splits)
  note fr = enable_cs_trace_frame [OF e]
  have al: "alloc_trace_buf (direct_read s0) (Some p) (buf s0) = (0, buf s1)"
    using fr assms(4) by (auto simp: s1 set_trace_state_def alloc_trace_buf_def Let_def)
  have "\<exists>passes. d = run_passes B L passes d \<and> concat passes = []" for B and d :: "'b dec_state"
    by (rule exI [of _ "[]"]) (simp add: run_passes_def)
  with alloc_trace_buf_spec [OF al assms(5-8)] fr assms(3) show ?thesis
    by (simp add: exec_inv_def s1 set_trace_state_def clear_bitmap_def)
qed

lemma fetch_other_fields:
  "session_fetch E sys s = Returns (r, s') \<Longrightarrow>
   session_fetch E sys (s\<lparr>tstate := t, ev_suspend := b\<rparr>) = Returns (r, s'\<lparr>tstate := t, ev_suspend := b\<rparr>)"
  by (cases "fetch_trace E (direct_read s) (etr_map_open sys (udmabuf_num s)) (sy_mremap sys) (buf s) (hw (cs s))")
    (auto simp: session_fetch_def direct_read_def)

lemma hw_runs_other_fields:
  "hw_runs f (s\<lparr>tstate := t, ev_suspend := b\<rparr>) = (hw_runs f s)\<lparr>tstate := t, ev_suspend := b\<rparr>"
  by (cases s) (simp add: hw_runs_def)

lemma disable_other_fields:
  "disable_cs_trace H a s = (r, s') \<Longrightarrow>
   disable_cs_trace H a (s\<lparr>tstate := t, ev_suspend := b\<rparr>) = (r, s'\<lparr>tstate := t, ev_suspend := b\<rparr>)"
  by (auto simp: disable_cs_trace_def Let_def case_prod_beta)

lemma trace_loop_exports:
  assumes "start_trace (w_csal W) (w_dec W) (at_sys a) pid True s0 = Returns (r, s1)" and "0 \<le> r" and "\<not> decoding_on s0"
    and "sy_mmap (at_sys a) = Some p" and "user_addr p"
    and "trace_buf (buf s0) \<noteq> 0 \<and> direct_read s0 \<Longrightarrow> buf_inv (buf s0)"
    and "unat (etr_ram_size (buf s0)) \<le> 2 ^ 46" and "unat (etr_ram_size (buf s0)) mod 8 = 0"
    and "maps_ok s0 (at_sys a)" and "etr_gives (w_etr W) s0 D"
    and "sy_cwd (at_sys a) = Some cwd" and "\<forall>f. sy_fopen_w (at_sys a) f" and "0 \<le> trace_id (dec s0)"
    and "\<forall>x \<in> set ws. \<not> WIFEXITED x" and "WIFEXITED st"
    and "disable_cs_trace (w_csal W) True (hw_runs (at_rest a) (hw_runs (at_run a) s1)) = (0, s2)"
  shows "\<exists>s3 s4. session_fetch (w_etr W) (at_sys a) s2 = Returns (0, s3) \<and>
    trace_loop W a (ws @ [st]) s1 = Returns (st, s4) \<and>
    trace_files s4 = (snprintf_str PATH_MAX (cwd @ ''/'' @ ''cstrace.bin''), D (hw (cs s2)) @ D (hw (cs s3))) # trace_files s1"
proof -
  let ?H = "w_csal W" and ?E = "w_etr W" and ?L = "w_dec W" and ?sys = "at_sys a"
  let ?d = "clear_bitmap (dec s0)" and ?s = "hw_runs (at_rest a) (hw_runs (at_run a) s1)"
  note st = start_trace_off [OF assms(1-8)]
  have s2: "s2 = snd (disable_cs_trace ?H True ?s)" using assms(16) by simp
  have i2: "exec_inv ?L s0 ?d 0 [] s2" using st by (simp add: s2 exec_inv_disable)
  have f2: "dec s2 = dec s1" "trace_files s2 = trace_files s1" "\<not> decoding_on s2"
    using i2 assms(3) by (simp_all add: s2 disable_cs_trace_frame hw_runs_def exec_inv_def)
  obtain s3 where s3: "session_fetch ?E ?sys s2 = Returns (0, s3)" "exec_inv ?L s0 ?d 1 (D (hw (cs s2))) s3"
      "dec s3 = dec s2" "trace_files s3 = trace_files s2" "\<not> decoding_on s3"
    using session_fetch_exec [OF i2 assms(10,9)] f2(3) by auto
  obtain s4 where s4: "session_fetch ?E ?sys s3 = Returns (0, s4)" "dec s4 = dec s3" "trace_files s4 = trace_files s3"
      "exec_inv ?L s0 ?d (Suc 1) (D (hw (cs s2)) @ D (hw (cs s3))) s4"
    using session_fetch_exec [OF s3(2) assms(10,9)] by auto
  obtain t b where e: "trace_loop W a (ws @ [st]) s1 = trace_loop W a [st] (s1\<lparr>tstate := t, ev_suspend := b\<rparr>)"
    using trace_loop_ends [OF assms(14,15)] by blast
  let ?u = "\<lambda>s. s\<lparr>tstate := ready_state, ev_suspend := b\<rparr>"
  have d: "disable_cs_trace ?H True (hw_runs (at_rest a) (hw_runs (at_run a) (s1\<lparr>tstate := t, ev_suspend := b\<rparr>))) =
      (0, s2\<lparr>tstate := t, ev_suspend := b\<rparr>)"
    using disable_other_fields [OF assms(16), where t = t and b = b] by (simp add: hw_runs_other_fields)
  have nd: "\<not> decoding_on s1" using f2(3) by (simp add: s2 disable_cs_trace_frame hw_runs_def)
  have dr: "decoder_runs W a (s1\<lparr>tstate := t, ev_suspend := b\<rparr>) =
      Returns (Returns, hw_runs (at_rest a) (hw_runs (at_run a) (s1\<lparr>tstate := t, ev_suspend := b\<rparr>)))"
    using nd by (simp add: decoder_runs_def) (simp add: hw_runs_def)
  have rs: "set_trace_state ready_state (s2\<lparr>tstate := t, ev_suspend := b\<rparr>) = ?u s2"
    by (simp add: set_trace_state_def)
  have stop: "stop_trace ?H ?E ?sys Returns True
      (hw_runs (at_rest a) (hw_runs (at_run a) (s1\<lparr>tstate := t, ev_suspend := b\<rparr>))) = Returns (0, ?u s3)"
    unfolding stop_trace_def d using f2(3) fetch_other_fields [OF s3(1), where t = ready_state and b = b] by (simp add: rs)
  have "trace_files (snd (export_trace ?sys ''cstrace.bin'' ''decoderargs.txt'' (?u s4))) =
      (snprintf_str PATH_MAX (cwd @ ''/'' @ ''cstrace.bin''), captured (buf (?u s4))) # trace_files (?u s4)"
    using s4 s3 f2 st assms(11-13) by (intro export_trace_captured) (simp_all add: exec_inv_def)
  then have "\<exists>s5. fini_trace ?H ?E ?L ?sys (?u s3) = Returns s5 \<and>
      trace_files s5 = (snprintf_str PATH_MAX (cwd @ ''/'' @ ''cstrace.bin''), D (hw (cs s2)) @ D (hw (cs s3))) # trace_files s1"
    using s4 s3 f2 fetch_other_fields [OF s4(1), where t = ready_state and b = b]
    by (simp add: fini_trace_def Let_def case_prod_beta exec_inv_def)
  with stop s3(1) assms(15) show ?thesis
    unfolding e by (auto simp: dr)
qed

text \<open>
  C15: A \<open>cs-trace\<close> run without decoding exports the trace of a target that exits by itself. Let the
  options be accepted and the fork succeed; let the target stop after \<open>execve\<close> and again in the
  preloaded library, \<open>start_trace\<close> succeed after whatever \<open>init_trace\<close> did, and the target then run,
  be stopped any number of times and exit, not be killed by a signal; and let the trace be switched off
  without error and the trace file be writable. Then \<open>main\<close> returns 0, whatever the target's exit
  status, having written one trace file whose contents are exactly what the ETR held when the trace
  was switched off, followed by what arrived between the fetch of \<open>stop_trace\<close> and the one of
  \<open>fini_trace\<close>, nothing before, between or after.
\<close>

theorem cs_trace_exports_trace:
  assumes "trace_options E opts argv optind s' = Goes_On (target, s)"
    and "WIFSTOPPED e" and "WSTOPSIG e = PTRACE_EVENT_VFORK_DONE"
    and "init_trace (w_csal W) (w_setup W) (w_dec W) (w_init W) self pid s = (i, s0)"
    and "start_trace (w_csal W) (w_dec W) (at_sys a) pid True s0 = Returns (r, s1)" and "0 \<le> r" and "\<not> decoding_on s0"
    and "sy_mmap (at_sys a) = Some p" and "user_addr p"
    and "trace_buf (buf s0) \<noteq> 0 \<and> direct_read s0 \<Longrightarrow> buf_inv (buf s0)"
    and "unat (etr_ram_size (buf s0)) \<le> 2 ^ 46" and "unat (etr_ram_size (buf s0)) mod 8 = 0"
    and "maps_ok s0 (at_sys a)" and "etr_gives (w_etr W) s0 D"
    and "sy_cwd (at_sys a) = Some cwd" and "\<forall>f. sy_fopen_w (at_sys a) f" and "0 \<le> trace_id (dec s0)"
    and "\<forall>x \<in> set ws. \<not> WIFEXITED x" and "WIFEXITED st"
    and "disable_cs_trace (w_csal W) True (hw_runs (at_rest a) (hw_runs (at_run a) s1)) = (0, s2)"
  shows "\<exists>s3 s4. session_fetch (w_etr W) (at_sys a) s2 = Returns (0, s3) \<and>
    trace_main E opts argv optind env (Fork_Parent pid) W a self (e # e' # ws @ [st]) s' = Returns (Ends 0 s4) \<and>
    trace_files s4 = (snprintf_str PATH_MAX (cwd @ ''/'' @ ''cstrace.bin''), D (hw (cs s2)) @ D (hw (cs s3))) # trace_files s1"
  using trace_loop_exports [OF assms(5-20)] assms(1-5) by (auto simp: parent_def trace_main_def)

text \<open>A target traced on the simulated hardware with an ETR that hands over eight bytes at each fetch.\<close>

definition sim_export_world :: "(sim_hw, u64) world" where
  "sim_export_world = sim_world\<lparr>w_etr := const_etr [1, 2, 3, 4, 5, 6, 7, 8], w_init := init_sys 0\<rparr>"

definition sim_export_attempt :: "sim_hw attempt" where
  "sim_export_attempt = sim_attempt\<lparr>at_sys := sim_sys\<rparr>"

lemma sim_start_off:
  assumes "sim_errors (hw (cs s)) = 0" and "cfg_backend (conf s) = Armored" and "\<not> decoding_on s"
  shows "\<exists>s'. start_trace sim_csal counting_lib sim_sys pid use s = Returns (0, s') \<and> sim_errors (hw (cs s')) = 0"
proof -
  let ?s = "s\<lparr>buf := snd (alloc_trace_buf (direct_read s) (sy_mmap sim_sys) (buf s)), dec := clear_bitmap (dec s),
    child_pid := pid\<rparr>"
  have a: "set_cpu_affinity (sy_setaffinity sim_sys pid) n t = 0" for n t
    by (simp add: set_cpu_affinity_def sim_sys_def)
  obtain s' where "enable_cs_trace sim_csal (if use then pid else 0) ?s = Some (0, s')" "sim_errors (hw (cs s')) = 0"
    using sim_enable [of ?s "if use then pid else 0"] assms(1,2) by auto
  then show ?thesis
    using assms(3) by (simp add: start_trace_def a Let_def or_dies_def set_trace_state_def)
qed

definition sim_launch_env :: launch_env where
  "sim_launch_env =
     \<lparr>le_signal = True, le_lib = Some ''libforksrv.so'', le_exists = (\<lambda>_. True), le_root = True,
      le_modules = Some ''u_dma_buf 16384'', le_stdin_file = False\<rparr>"

definition sim_trace_session :: "(sim_hw, u64) session" where
  "sim_trace_session = sim_session\<lparr>decoding_on := False, dec := (dec_state0 0)\<lparr>trace_bitmap := None\<rparr>\<rparr>"

lemma sim_modules: "check_udmabuf (Some ''u_dma_buf 16384'') = Some 0"
  by code_simp

theorem cs_trace_exports_trace_witness:
  "\<exists>s4. trace_main sim_launch_env [] [''cs-trace'', ''--'', ''/bin/true''] 2 (\<lambda>_. None) (Fork_Parent 2) sim_export_world
       sim_export_attempt 1 [0x057f, 0x137f, 0x137f, 0x0100] sim_trace_session = Returns (Ends 0 s4) \<and>
     hd (trace_files s4) = (''/tmp/cstrace.bin'', [1, 2, 3, 4, 5, 6, 7, 8, 1, 2, 3, 4, 5, 6, 7, 8])"
proof -
  let ?W = sim_export_world and ?a = sim_export_attempt
  let ?s = "sim_trace_session\<lparr>dec := (dec sim_trace_session)\<lparr>trace_bitmap_size := 65536\<rparr>\<rparr>"
  have o: "trace_options sim_launch_env [] [''cs-trace'', ''--'', ''/bin/true''] 2 sim_trace_session =
      Goes_On ([''/bin/true''], ?s)"
    by (simp add: trace_options_def sim_launch_env_def sim_trace_session_def sim_modules dec_state0_def Let_def)
  let ?D = "\<lambda>_ :: sim_hw. [1, 2, 3, 4, 5, 6, 7, 8] :: u8 list"
  have w: "w_csal ?W = sim_csal" "w_dec ?W = counting_lib" "w_etr ?W = const_etr [1, 2, 3, 4, 5, 6, 7, 8]"
      "w_setup ?W = sim_board_setup" "w_init ?W = init_sys 0" "at_sys ?a = sim_sys" "at_run ?a = id" "at_rest ?a = id"
    by (simp_all add: sim_export_world_def sim_world_def sim_export_attempt_def sim_attempt_def)
  obtain s0 where s0: "init_trace sim_csal sim_board_setup counting_lib (init_sys 0) 1 2 ?s = (0, s0)"
    and b: "\<not> decoding_on s0" "\<not> direct_read s0" "trace_buf (buf s0) = 0" "etr_ram_size (buf s0) = 1000"
      "cfg_backend (conf s0) = Armored" "sim_errors (hw (cs s0)) = 0" "trace_id (dec s0) = 0x12"
    using sim_init_off [of "(dec sim_trace_session)\<lparr>trace_bitmap_size := 65536\<rparr>"] by (auto simp: sim_trace_session_def)
  obtain s1 where s1: "start_trace sim_csal counting_lib sim_sys 2 True s0 = Returns (0, s1)" "sim_errors (hw (cs s1)) = 0"
    using sim_start_off [OF b(6,5,1), of 2 True] by blast
  obtain s2 where s2: "disable_cs_trace sim_csal True (hw_runs id (hw_runs id s1)) = (0, s2)"
    using sim_disable_cs_trace [of s1 True] s1(2) by auto
  have g: "etr_gives (const_etr [1, 2, 3, 4, 5, 6, 7, 8]) s0 ?D"
    using b(2) by (simp add: etr_gives_def delivers_def const_etr_def)
  have st: "\<not> WIFEXITED 0x137f" "WIFEXITED 0x0100" "WIFSTOPPED 0x057f" "WSTOPSIG 0x057f = PTRACE_EVENT_VFORK_DONE"
    by (simp_all add: WIFEXITED_def WIFSTOPPED_def WSTOPSIG_def)
  have "\<exists>s3 s4. session_fetch (w_etr ?W) (at_sys ?a) s2 = Returns (0, s3) \<and>
      trace_main sim_launch_env [] [''cs-trace'', ''--'', ''/bin/true''] 2 (\<lambda>_. None) (Fork_Parent 2) ?W ?a 1
        (0x057f # 0x137f # [0x137f] @ [0x0100]) sim_trace_session = Returns (Ends 0 s4) \<and>
      trace_files s4 = (snprintf_str PATH_MAX (''/tmp'' @ ''/'' @ ''cstrace.bin''), ?D (hw (cs s2)) @ ?D (hw (cs s3))) # trace_files s1"
    by (rule cs_trace_exports_trace [where p = "0x10000" and i = 0 and r = 0 and ?s0.0 = s0])
      (use o s0 s1 s2 g b st sim_maps_ok in \<open>simp_all add: w sim_sys_def user_addr_def\<close>)
  moreover have "snprintf_str PATH_MAX (''/tmp'' @ ''/'' @ ''cstrace.bin'') = ''/tmp/cstrace.bin''"
    by (simp add: snprintf_str_def)
  ultimately show ?thesis by auto
qed

end
