(* ===== verification/Spec2Isabelle.thy ===== *)
theory Spec2Isabelle
  imports Freq_Gov Hybrid_Runs Decoder_Sync Shared_Map Launch
begin

text \<open>
  A model of the CoreSight tracer for AFL++ on Arm, the C sources under \<open>src/\<close>, and the theorems that
  make it correct.

  \<^bold>\<open>The program.\<close> \<open>cs-proxy\<close> stands between AFL++ and the target. At start-up it launches the target
  with \<open>libforksrv.so\<close> preloaded, which turns the target into a fork server. For every request of AFL++
  the proxy asks the fork server for a child, which stops itself; the proxy arms the trace hardware,
  reports the child's pid and lets the child run. While it runs the ETMs of its core write a compressed
  trace into a ring in a u-dma-buf (the ETR); a decoder thread watches the fill level and, if it passes
  a threshold, stops the child, copies the trace into a growing buffer, and decodes it into the
  coverage map. When the child is gone the trace is stopped, the rest fetched and decoded, and the
  status reported. With the Stalker backend a frequency governor slows the traced core down after
  executions whose trace overflowed and repeats them, and in hybrid mode most executions trace paths only
  and a second execution records edges. \<open>cs-trace\<close> traces a single run of a program.

  \<^bold>\<open>Theories and sources.\<close>
  \<^item> \<open>CS_Prelude\<close>, \<open>C_Lib\<close>, \<open>C_Double\<close>: machine integers, the C library's string and number conversions
    and double arithmetic as far as the sources use them, with their round-trip lemmas.
  \<^item> \<open>Freq_Gov\<close>: \<open>src/src/freq_gov.c\<close>. Frequencies and table indices stay in bounds over every sequence
    of calls, the policy is put back at exit, the frequency table equals a sorted reference list,
    calibration and step-up behave as intended.
  \<^item> \<open>Hybrid\<close>, \<open>Hybrid_Runs\<close>: \<open>src/src/hybrid.c\<close>. The byte-wise novelty test refines set difference; over
    any sequence of passes a discarded input shows AFL++ no new edge, unproductive paths are filtered for
    good, samples influence nothing, the counters add up, the purge interval stays bounded.
  \<^item> \<open>Utils\<close>: \<open>src/src/utils.c\<close>. Which mappings are traced, as a reference selection over the parsed
    \<open>/proc/PID/maps\<close>; the round trip of its lines; the choice of a free core; the dumps.
  \<^item> \<open>Decoder\<close>: the decoder front end of \<open>src/src/common.c\<close> and \<open>src/src/stalker.c\<close>, both backends; the
    overflow flag is exact.
  \<^item> \<open>Trace_Buffer\<close>: the buffer of \<open>src/src/common.c\<close>. Any sequence of drains hands the decoder exactly
    the delivered bytes; the direct read undoes the ring.
  \<^item> \<open>Decoder_Sync\<close>: the events between proxy, decoder thread, fork server and child as an inductive
    step relation over all interleavings, with every failing call as a step of its own. In runs without
    failures \<open>stop_trace\<close> waits for its own execution, the final fetch comes after the trace was
    stopped and the wait ends; and reachable states show what a failed affinity call, a failed start, a
    failed drain, a failed decode pass and a left-over suspend event lead to.
  \<^item> \<open>Boards\<close>: \<open>src/include/known-boards.h\<close>. Trace sources are connected to the sink, identifiers agree.
  \<^item> \<open>Etm_Config\<close>: \<open>src/src/config.c\<close>. What the comparators and configuration registers hold.
  \<^item> \<open>Session\<close>: the rest of \<open>src/src/common.c\<close>: one record for its static state and one function per
    operation, the decoder thread's among them (\<open>decoder_worker\<close>, \<open>trace_sink_polling\<close> turn by turn,
    with the fill level and its threshold). An execution's map comes from its own trace only and
    from all of it, however often it was drained; why the default threshold never stops the child;
    retries and error paths. \<open>exec_inv\<close> is the invariant of an execution the proofs carry through fetch, decode and
    polling.
  \<^item> \<open>Proxy\<close>, \<open>Proxy_Runs\<close>: \<open>src/src/cs-proxy.c\<close> from \<open>__afl_next_testcase\<close> to the main loop, composing
    \<open>Session\<close>, \<open>Freq_Gov\<close> and \<open>Hybrid\<close>. One pid and one status per request, bounded
    retries, the frequency an overflowed map that is shown was run at, the key of a test case, and the
    loop that does not end.
  \<^item> \<open>Shared_Map\<close>: the coverage maps under \<open>Proxy\<close>'s main loop. The shared map and the maps hybrid keeps
    have one size over any number of requests.
  \<^item> \<open>Forksrv\<close>: \<open>src/libforksrv/libforksrv.c\<close>. The scrubbing loop ends, and the server sends
    exactly what the proxy reads.
  \<^item> \<open>Launch\<close>: how \<open>cs-proxy\<close> and \<open>cs-trace\<close> (\<open>src/src/cs-trace.c\<close>) start, and the whole of the latter.
    The exported file holds exactly what the ETR delivered.
  \<^item> This theory: properties that span components, from a request of AFL++ to the map it is shown.

  \<^bold>\<open>State, errors, environment.\<close> A file's static variables are a record that its operations take and
  return. A negative result is the \<open>int\<close> the code returns; a process that dies (\<open>FATAL\<close>, a failed
  assertion, a fault) is \<open>Faults\<close>, \<open>Died\<close> or \<open>None\<close>, and a call that never returns is \<open>Loops\<close>. CSAL, the
  decoding libraries, the kernel and AFL++'s constants are not part of the sources: they are arguments,
  and what a theorem needs of them is one of its hypotheses, met in its witness by a simulation
  (\<open>sim_csal\<close>, \<open>counting_lib\<close>, \<open>const_etr\<close>, \<open>sim_drain_etr\<close>, \<open>sim_world\<close>). What the hardware does by
  itself is a function given for every turn of the polling loop. The decoder thread is a function run
  where \<open>stop_trace\<close> waits for it, which \<open>Decoder_Sync\<close> justifies; what it does once at its start is run
  where it is created.

  \<^bold>\<open>Interfaces.\<close> \<open>novelty_map\<close> and \<open>direct_mapped\<close> are the contracts of hybrid's virgin maps and
  stores. \<open>exec_ops\<close> is what repeating executions needs of one execution; \<open>exec_frame\<close>, a sublocale of it,
  \<open>inner_frame\<close> and \<open>outer_frame\<close>, each extending the one before, state what one execution, a test
  case and a request leave alone; \<open>dec_frame\<close>, another sublocale, is what an execution needs of the
  decoder. Each is interpreted on the definitions of the model.

  \<^bold>\<open>Bounds.\<close> Loops are structural or have a measure: the retry loop makes at most four further
  executions, the fork server ten attempts. \<open>main_loop\<close> takes the number of requests to serve, as
  it is meant to run for ever. Growing the buffer and scrubbing the environment may not end for every
  argument; they are partial functions, proved to return under stated conditions. The theorems on an
  execution's trace allow \<open>2\<^sup>1\<^sup>3\<close> drains of up to two gigabytes each, which keeps the doubling
  buffer below \<open>2\<^sup>4\<^sup>6\<close> bytes; the number of polling turns is not bounded.

  \<^bold>\<open>Not modelled.\<close> Output for people: \<open>show_etm_config\<close> and \<open>debug_etr_state\<close>, which read registers only to
  print them, \<open>usage\<close>, the messages and the overflow log line. The \<open>EXEC_COUNT\<close> limit of profiling
  builds. The tests and build files.
\<close>

section \<open>Launching the target and hiding from it\<close>

text \<open>The environment a process started with these strings sees.\<close>

definition environ_of :: "string list \<Rightarrow> environ" where
  "environ_of es x =
     (case List.find (strprefix (x @ ''='')) es of None \<Rightarrow> None | Some e \<Rightarrow> Some (drop (length x + 1) e))"

lemma strstr_pos_append: "f \<noteq> [] \<Longrightarrow> strstr_pos u f = Some i \<Longrightarrow> strstr_pos (u @ x) f = Some i"
proof (induction u arbitrary: i)
  case (Cons a u)
  have "length f \<le> Suc (length u)" using strstr_pos_Some [OF Cons.prems(2)] by simp
  then have "strprefix f (a # u @ x) \<longleftrightarrow> strprefix f (a # u)" by (simp add: strprefix_def take_Cons')
  with Cons show ?case by (auto split: if_splits)
qed simp

lemma strip_all_suffix:
  assumes "f \<noteq> []" and "strstr_pos (u @ f) f = Some (length u)"
  shows "strip_all f (u @ f) = Some u"
proof -
  have "strstr_pos u f = None"
  proof (cases "strstr_pos u f")
    case (Some i)
    with strstr_pos_append [OF assms(1) Some, of f] strstr_pos_Some [OF Some] assms show ?thesis by simp
  qed
  then show ?thesis using assms(2) by (simp add: strip_all.simps [of f "u @ f"] strip_all.simps [of f u])
qed

text \<open>
  C27: The fork server gives the target back the environment the user asked for. The proxy
  appends the library's path to \<open>CS_LD_PRELOAD\<close> without a separator and starts the target with it;
  if the path occurs there only at the end, the library's scrubbing leaves the target, and every
  process it starts, exactly the user's \<open>CS_LD_PRELOAD\<close> as \<open>LD_PRELOAD\<close>, or none if that holds no
  library, and no marker.
\<close>

theorem scrub_undoes_launch:
  assumes "env ''CS_DEFER_FORKSRV'' = None" and "env ''CS_LD_PRELOAD'' = Some u" and "path \<noteq> []"
    and "strstr_pos (u @ path) path = Some (length u)" and "proxy_envp path env = Some es"
  shows "\<exists>env'. scrub_forksrv_env (Some path) True (environ_of es) = Some env' \<and>
    env' ''__CS_PROXY'' = None \<and>
    env' ''LD_PRELOAD'' = (if \<forall>c \<in> set u. c = CHR '':'' \<or> c = CHR '' '' then None else Some u)"
proof -
  obtain more where "es = base_envp ''__CS_PROXY=1'' path env @ more"
    using assms(5) by (auto simp: proxy_envp_def Let_def split: option.splits)
  then have "environ_of es ''LD_PRELOAD'' = Some (u @ path)"
    using assms(1,2) by (simp add: environ_of_def base_envp_def append_string_def strprefix_def)
  with strip_all_suffix [OF assms(3,4)] show ?thesis by (simp add: scrub_forksrv_env_def Let_def)
qed

theorem scrub_undoes_launch_witness:
  "\<exists>es env'. proxy_envp ''/lib/libforksrv.so'' [''CS_LD_PRELOAD'' \<mapsto> ''/lib/a.so:''] = Some es \<and>
     scrub_forksrv_env (Some ''/lib/libforksrv.so'') True (environ_of es) = Some env' \<and>
     env' ''LD_PRELOAD'' = Some ''/lib/a.so:''"
proof -
  let ?env = "[''CS_LD_PRELOAD'' \<mapsto> ''/lib/a.so:'']"
  obtain es where es: "proxy_envp ''/lib/libforksrv.so'' ?env = Some es" by (simp add: proxy_envp_def)
  have "strstr_pos (''/lib/a.so:'' @ ''/lib/libforksrv.so'') ''/lib/libforksrv.so'' = Some (length ''/lib/a.so:'')"
    by (simp add: strprefix_def)
  from scrub_undoes_launch [OF _ _ _ this es] es show ?thesis by auto
qed

section \<open>A discarded test case, end to end\<close>

text \<open>
  C10: What hybrid promises reaches AFL++. Whenever the proxy's hybrid step finds a test case's path
  not worth confirming and comes back without error, with or without a sampling execution in between,
  the map it leaves for AFL++ has full size and no edge that AFL++ has not been shown before.
\<close>

theorem discarded_testcase_shows_nothing_new:
  assumes "hyb_inv (hyb p)" and "trace_bitmap (dec (ses p)) = Some m"
    and "length m = map_size (hyb p)" and "trace_bitmap_size (dec (ses p)) = map_size (hyb p)"
    and "fst (hybrid_after_path (w_arch W) m ov (input_key (at_input (cur p))) (hyb p)) = HYBRID_DISCARD"
    and "hybrid_step W ov p = Returns (0, q)"
  shows "no_new_edges (hyb q) (take (map_size (hyb p)) (bitmap q))"
proof -
  obtain m' h' where r: "hybrid_after_path (w_arch W) m ov (input_key (at_input (cur p))) (hyb p) =
      (HYBRID_DISCARD, m', h')"
    using assms(5) by (cases "hybrid_after_path (w_arch W) m ov (input_key (at_input (cur p))) (hyb p)") auto
  have n: "no_new_edges h' m'" "length m' = map_size (hyb p)"
    using hyb_inv_after_path [OF assms(1,3) r] by auto
  let ?p = "(set_bitmap m' p)\<lparr>hyb := h'\<rparr>"
  have b: "bitmap p = m" "trace_bitmap (dec (ses ?p)) = Some m'" "bitmap ?p = m'"
      "trace_bitmap_size (dec (ses ?p)) = map_size (hyb p)"
    using assms(2,4) by (simp_all add: bitmap_def set_bitmap_def)
  have "q = ?p \<or> q = ?p\<lparr>hybrid_discards := hybrid_discards ?p + 1\<rparr> \<or>
      sample_with_branch_broadcast W (?p\<lparr>hybrid_discards := hybrid_discards ?p + 1\<rparr>) = Returns (0, q)"
    using assms(6) by (auto simp: hybrid_step_def b(1) r Let_def split: if_splits)
  then show ?thesis
  proof (elim disjE)
    assume "sample_with_branch_broadcast W (?p\<lparr>hybrid_discards := hybrid_discards ?p + 1\<rparr>) = Returns (0, q)"
    from sample_effect [OF this, of m'] b n obtain m1 ov' where "take (length m') (bitmap q) = m'"
        "hyb q = hybrid_after_sample m1 ov' h'" by auto
    with n show ?thesis by (simp add: no_new_edges_def frame_simps)
  qed (use b n in \<open>simp_all add: bitmap_def\<close>)
qed

theorem discarded_testcase_shows_nothing_new_witness:
  "\<exists>q. hybrid_step sim_world False (set_bitmap [0] (sim_proxy\<lparr>hybrid_sample := 1\<rparr>)) = Returns (0, q) \<and>
     no_new_edges (hyb q) (take 1 (bitmap q))"
proof -
  define p where "p = set_bitmap [0] (sim_proxy\<lparr>hybrid_sample := 1\<rparr>)"
  let ?h = "hybrid_init 1 [0] [0] [0]"
  have p: "hyb p = ?h" "trace_bitmap (dec (ses p)) = Some [0]" "trace_bitmap_size (dec (ses p)) = 1"
      "at_input (cur p) = None" "hybrid_sample p = 1" "fsrv_in p = [Some 42, Some 0]" "runs p = [sim_attempt]"
    by (simp_all add: p_def set_bitmap_def sim_proxy_def sim_session_def dec_state0_def sim_attempt_def)
  have arch: "w_arch sim_world = Arm64" by (simp add: sim_world_def)
  have "sim_ready (ses p)" using sim_proxy_ready(1) by (simp add: p_def set_bitmap_def sim_ready_def)
  then have ready: "sim_ready (ses ((set_bitmap m p)\<lparr>hyb := h, hybrid_discards := d\<rparr>))" for m h d
    by (simp add: set_bitmap_def sim_ready_def)
  have k: "input_key None = 0" by (simp add: input_key_def)
  have sz: "map_size ?h = 1" by (simp add: hybrid_init_def)
  have "virgin_atom (path_pass [0] ?h) = [0xff]"
    by (simp add: hybrid_init_def path_pass_def purge_check_def classify_def count_class_def has_new_bits_def
        should_purge_def Let_def case_prod_beta)
  then have d: "fst (hybrid_after_path Arm64 [0] False 0 ?h) = HYBRID_DISCARD"
    using sz hybrid_after_path_filtered [of Arm64 ?h "[0]" False 0] hybrid_after_path_old [of Arm64 ?h "[0]" False 0]
    by (cases "filtered (checksum Arm64 1 [0]) ?h") (simp_all add: classify_def count_class_def peek_new_bits_def)
  have b: "bitmap p = [0]" using p(2) by (simp add: bitmap_def)
  have s: "hybrid_sample ((set_bitmap m p)\<lparr>hyb := h\<rparr>) = 1" "fsrv_in (set_bitmap m p) = fsrv_in p"
      "runs (set_bitmap m p) = runs p" for m h
    using p(5) by (simp_all add: set_bitmap_def)
  have "\<exists>q. hybrid_step sim_world False p = Returns (0, q)"
    unfolding hybrid_step_def b p(1,4) k arch Let_def case_prod_beta d s
    using sim_sample [OF ready] by (simp add: s p)
  then obtain q where q: "hybrid_step sim_world False p = Returns (0, q)" by blast
  have "no_new_edges (hyb q) (take (map_size (hyb p)) (bitmap q))"
    by (rule discarded_testcase_shows_nothing_new [OF _ p(2) _ _ _ q]) (use d sz in \<open>simp_all add: p k arch hyb_inv_init\<close>)
  with q sz show ?thesis by (simp add: p flip: p_def)
qed

section \<open>From a request to the map\<close>

lemma wait_own:
  assumes "exec_inv (w_dec W) s0 d0 0 [] (ses p)" and "ev_start (ses p)" and "decoding_on s0" and "cur p = a"
    and "wait_child (fsrv_in p) (ses p) = Returns (Some st, rest, s)"
    and "trace_sink_polling (w_csal W) (w_etr W) (w_dec W) (at_polls a) ((hw_runs (at_run a) s)\<lparr>ev_start := False\<rparr>) =
      Returns (Killed, s2)"
    and "disable_cs_trace (w_csal W) False (hw_runs (at_rest a) s2) = (0, s3)"
    and "maps_ok s0 (at_sys a)" and "\<forall>pl \<in> set (at_polls a). maps_ok s0 (pl_sys pl)"
    and "etr_gives (w_etr W) s0 D"
    and "hs = drained (w_csal W) (w_etr W) (w_dec W) (at_polls a) (cs_get_buffer_rwp (w_etr W) (at_run a (hw (cs s))))
      ((hw_runs (at_run a) s)\<lparr>ev_start := False, ready := False\<rparr>)"
    and "length hs < 2 ^ 13"
  shows "\<exists>s4 passes. wait_for_child_and_stop_trace W p = Returns (0, st, p\<lparr>fsrv_in := rest, ses := s4\<rparr>) \<and>
    dec s4 = run_passes (cfg_backend (conf s0)) (w_dec W) passes d0 \<and>
    concat passes = concat (map D (hs @ [hw (cs s3)])) \<and> decoding_on s4"
proof -
  obtain t b where s: "s = (ses p)\<lparr>tstate := t, ev_suspend := b\<rparr>" using wait_child_fields [OF assms(5)] by blast
  have i: "exec_inv (w_dec W) s0 d0 0 [] s" "ev_start s" "decoding_on s"
    using assms(1-3) by (simp_all add: s) (simp add: exec_inv_def)
  have r: "decoder_runs W a s = Returns (poll_final (w_etr W) (w_dec W) (at_sys a) Killed, hw_runs (at_rest a) s2)"
    using i(2,3) assms(6) by (simp add: decoder_runs_def hw_runs_def)
  from polled_execution [OF i(1) assms(10,3,8,9,6,7,11,12)] show ?thesis
    using assms(4,5) r by (elim exE, intro exI) (auto simp: wait_for_child_and_stop_trace_def)
qed

text \<open>
  C2: A request of AFL++ is answered with the child's pid, its status and the map of its trace. With
  the default decoder, when AFL++ asks for a test case, the fork server sends a child and then its
  statuses, \<open>start_trace\<close> succeeds and the decoder thread reaches the \<open>killed\<close> label, then
  \<open>__afl_next_testcase\<close> and the body of the main loop both return, exactly one word has been read and
  two have been written, and the decoder, its overflow flag and the shared map are what decode passes
  over exactly this execution's trace make of a reset decoder and an all-zero map: the bytes the ETR
  held at each drain and at the end, every one once and in order. This joins the proxy, the session,
  the decoder thread and the trace buffer; the hypotheses are the contracts of the system, of CSAL
  and of the fork server.
\<close>

theorem request_to_map:
  assumes "afl_in p = Some k # reqs" and "fsrv_in p = Some v # statuses" and "runs p = a # as" and "\<not> first_run p"
    and "at_cont a" and "\<forall>n. w_ctl_write W n \<and> w_afl_write W n"
    and "cfg_backend (conf (ses p)) = Armored" and "decoding_on (ses p)"
    and "start_trace (w_csal W) (w_dec W) (at_sys a) (sint v) False (ses p) = Returns (r, s1)" and "0 \<le> r"
    and "wait_child statuses s1 = Returns (Some st, rest, s)"
    and "trace_sink_polling (w_csal W) (w_etr W) (w_dec W) (at_polls a) ((hw_runs (at_run a) s)\<lparr>ev_start := False\<rparr>) =
      Returns (Killed, s2)"
    and "disable_cs_trace (w_csal W) False (hw_runs (at_rest a) s2) = (0, s3)"
    and "sy_mmap (at_sys a) = Some q" and "user_addr q" and "maps_ok (ses p) (at_sys a)"
    and "\<forall>pl \<in> set (at_polls a). maps_ok (ses p) (pl_sys pl)"
    and "trace_buf (buf (ses p)) \<noteq> 0 \<and> direct_read (ses p) \<Longrightarrow> buf_inv (buf (ses p))"
    and "unat (etr_ram_size (buf (ses p))) \<le> 2 ^ 46" and "unat (etr_ram_size (buf (ses p))) mod 8 = 0"
    and "etr_gives (w_etr W) (ses p) D"
    and "hs = drained (w_csal W) (w_etr W) (w_dec W) (at_polls a) (cs_get_buffer_rwp (w_etr W) (at_run a (hw (cs s))))
      ((hw_runs (at_run a) s)\<lparr>ev_start := False, ready := False\<rparr>)"
    and "length hs < 2 ^ 13"
  shows "\<exists>p1 p2 passes.
    afl_next_testcase W p = Returns (v, p1) \<and> serve_testcase W p1 = Returns (0, p2) \<and>
    afl_in p2 = reqs \<and> afl_out p2 = afl_out p @ [v, st] \<and>
    dec (ses p2) = run_passes Armored (w_dec W) passes
      (snd (reset_decoder Armored (w_dec W) (ranges (ses p)) (clear_bitmap (dec (ses p))))) \<and>
    concat passes = concat (map D (hs @ [hw (cs s3)]))"
proof -
  let ?d = "snd (reset_decoder Armored (w_dec W) (ranges (ses p)) (clear_bitmap (dec (ses p))))"
  define p1 where "p1 = p\<lparr>afl_in := reqs, fsrv_out := fsrv_out p @ [k], fsrv_in := statuses, ses := s1, runs := as,
    cur := a, afl_out := afl_out p @ [v]\<rparr>"
  have p1: "ses p1 = s1" "fsrv_in p1 = statuses" "cur p1 = a" by (simp_all add: p1_def)
  have n: "afl_next_testcase W p = Returns (v, p1)"
    using assms(1-7,9)
    by (simp add: afl_next_testcase_def afl_read_def ctl_write_def st_read_def start_and_resume_def afl_write_def p1_def)
  have st: "exec_inv (w_dec W) (ses p) ?d 0 [] (ses p1)" "ev_start (ses p1)" "conf (ses p1) = conf (ses p)"
    using start_trace_exec [OF assms(9,10,8,14,15,18-20)] assms(7) start_trace_success [OF assms(9,10,8)] p1 by simp_all
  obtain s4 passes where s4: "wait_for_child_and_stop_trace W p1 = Returns (0, st, p1\<lparr>fsrv_in := rest, ses := s4\<rparr>)"
      "dec s4 = run_passes Armored (w_dec W) passes ?d" "concat passes = concat (map D (hs @ [hw (cs s3)]))" "decoding_on s4"
    using wait_own [OF st(1,2) assms(8) p1(3) _ assms(12,13,16,17,21,22,23), of st rest] assms(7,11) p1 by auto
  then have "\<exists>p2. serve_testcase W p1 = Returns (0, p2) \<and> afl_in p2 = reqs \<and> afl_out p2 = afl_out p @ [v, st] \<and> ses p2 = s4"
    using assms(6,7) st(3)
    by (simp add: serve_testcase_def serve_armored_def count_exec_def afl_end_testcase_def afl_write_def p1_def Let_def)
  with n s4 show ?thesis by metis
qed

text \<open>The decoder thread of the Stalker build, whose threshold nothing passes.\<close>

lemma stalker_polling:
  assumes "drain_threshold t = - 1"
  shows "trace_sink_polling H E L ps t = Returns (Killed, hw_runs (fold pl_run ps) (t\<lparr>ready := False\<rparr>))"
    and "drained H E L ps pos t = []"
  using assms by (simp_all add: trace_sink_polling_def poll_rounds_idle drained_idle)

lemma reset_decoder_cov: "cov_type (snd (reset_decoder B L infos (clear_bitmap d))) = cov_type d"
  by (auto simp: reset_decoder_def clear_bitmap_def Let_def case_prod_beta split: backend.split cov_type.split)

lemma run_passes_cov: "cov_type (run_passes B L bufs d) = cov_type d"
  by (induction bufs arbitrary: d) (simp_all add: run_passes_def frame_simps)

text \<open>
  C3: In the Stalker build, too, a request is answered with the map of its own trace. Once the
  one-off calibration is done, for edge and for path coverage, the child of the request runs without
  being stopped and its execution ends with the decoder, its overflow flag and the shared map made
  from exactly what the ETR held when the trace was switched off, from a reset decoder and an all-zero
  map; and if the trace did not overflow, that map is what AFL++ finds, after exactly one pid and one
  status: no hidden retry takes its place.
\<close>

theorem stalker_request_to_map:
  assumes "afl_in p = Some k # reqs" and "fsrv_in p = Some v # statuses" and "runs p = a # as" and "\<not> first_run p"
    and "at_cont a" and "\<forall>n. w_ctl_write W n \<and> w_afl_write W n"
    and "cfg_backend (conf (ses p)) = Stalker" and "decoding_on (ses p)"
    and "start_trace (w_csal W) (w_dec W) (at_sys a) (sint v) False (ses p) = Returns (r, s1)" and "0 \<le> r"
    and "wait_child statuses s1 = Returns (Some st, rest, s)"
    and "drain_threshold (ses p) = - 1"
    and "disable_cs_trace (w_csal W) False
      (hw_runs (at_rest a) (hw_runs (fold pl_run (at_polls a)) ((hw_runs (at_run a) s)\<lparr>ev_start := False, ready := False\<rparr>))) =
      (0, s3)"
    and "sy_mmap (at_sys a) = Some q" and "user_addr q" and "maps_ok (ses p) (at_sys a)"
    and "\<forall>pl \<in> set (at_polls a). maps_ok (ses p) (pl_sys pl)"
    and "trace_buf (buf (ses p)) \<noteq> 0 \<and> direct_read (ses p) \<Longrightarrow> buf_inv (buf (ses p))"
    and "unat (etr_ram_size (buf (ses p))) \<le> 2 ^ 46" and "unat (etr_ram_size (buf (ses p))) mod 8 = 0"
    and "etr_gives (w_etr W) (ses p) D"
    and "\<not> needs_calibration p" and "cov p = edge_cov \<longrightarrow> \<not> needs_bb_enable p" and "cov p \<noteq> hybrid_cov"
  shows "\<exists>p1 p2 passes.
    afl_next_testcase W p = Returns (v, p1) \<and> wait_for_child_and_stop_trace W p1 = Returns (0, st, p2) \<and>
    dec (ses p2) = run_passes Stalker (w_dec W) passes
      (snd (reset_decoder Stalker (w_dec W) (ranges (ses p)) (clear_bitmap (dec (ses p))))) \<and>
    concat passes = D (hw (cs s3)) \<and>
    (\<not> trace_did_overflow (dec (ses p2)) \<longrightarrow>
      (\<exists>p3. serve_testcase W p1 = Returns (0, p3) \<and> afl_in p3 = reqs \<and> afl_out p3 = afl_out p @ [v, st] \<and>
        dec (ses p3) = dec (ses p2)))"
proof -
  let ?d = "snd (reset_decoder Stalker (w_dec W) (ranges (ses p)) (clear_bitmap (dec (ses p))))"
  define p1 where "p1 = p\<lparr>afl_in := reqs, fsrv_out := fsrv_out p @ [k], fsrv_in := statuses,
    gov := freq_gov_apply (w_sysfs W) (current_freq_mode (cov p)) (gov p), ses := s1, runs := as,
    cur := a, afl_out := afl_out p @ [v]\<rparr>"
  have p1: "ses p1 = s1" "fsrv_in p1 = statuses" "cur p1 = a" and f: "afl_in p1 = reqs" "afl_out p1 = afl_out p @ [v]"
    by (simp_all add: p1_def)
  have n: "afl_next_testcase W p = Returns (v, p1)"
    using assms(1-7,9,22,23)
    by (auto simp: afl_next_testcase_def afl_read_def ctl_write_def st_read_def prepare_stalker_def calibrate_first_def
        enable_bb_first_def start_and_resume_def afl_write_def p1_def)
  note ok = start_trace_success [OF assms(9,10,8)]
  have st: "exec_inv (w_dec W) (ses p) ?d 0 [] (ses p1)" "ev_start (ses p1)" "conf (ses p1) = conf (ses p)"
    using start_trace_exec [OF assms(9,10,8,14,15,18-20)] assms(7) ok p1 by simp_all
  obtain t b where s: "s = s1\<lparr>tstate := t, ev_suspend := b\<rparr>" using wait_child_fields [OF assms(11)] by blast
  let ?t = "(hw_runs (at_run a) s)\<lparr>ev_start := False\<rparr>"
  have th: "drain_threshold ?t = - 1" "drain_threshold (?t\<lparr>ready := False\<rparr>) = - 1"
    using ok assms(12) by (simp_all add: s hw_runs_def)
  note pol = stalker_polling(1) [OF th(1), of "w_csal W" "w_etr W" "w_dec W" "at_polls a"]
    and dr = stalker_polling(2) [OF th(2), of "w_csal W" "w_etr W" "w_dec W" "at_polls a"]
  obtain s4 passes where s4: "wait_for_child_and_stop_trace W p1 = Returns (0, st, p1\<lparr>fsrv_in := rest, ses := s4\<rparr>)"
      "dec s4 = run_passes Stalker (w_dec W) passes ?d" "concat passes = D (hw (cs s3))" "decoding_on s4"
    using wait_own [OF st(1,2) assms(8) p1(3) _ pol assms(13,16,17,21) dr [symmetric], of st rest] assms(7,11) p1 by auto
  have "\<exists>p3. serve_testcase W p1 = Returns (0, p3) \<and> afl_in p3 = reqs \<and> afl_out p3 = afl_out p @ [v, st] \<and> dec (ses p3) = dec s4"
    if "\<not> trace_did_overflow (dec s4)"
  proof -
    have "cov_type (dec s4) = cov p"
      using s4(2) by (simp add: run_passes_cov reset_decoder_cov)
    moreover have "\<exists>p2. attempt_loop W m 0 False p1 = Returns (0, st, False, p2) \<and> ses p2 = s4 \<and>
        afl_in p2 = reqs \<and> afl_out p2 = afl_out p @ [v]" for m
      using that s4(1) f by (simp add: attempt_loop.simps [of W m 0 False p1] freq_gov_should_retry_def count_exec_def Let_def)
    then obtain p2 where "attempt_loop W (current_freq_mode (cov p1)) 0 False p1 = Returns (0, st, False, p2)"
        "ses p2 = s4" "afl_in p2 = reqs" "afl_out p2 = afl_out p @ [v]" by blast
    ultimately show ?thesis
      using s4(4) assms(6,7,24) st(3)
      by (simp add: serve_testcase_def serve_stalker_def afl_end_testcase_def afl_write_def Let_def)
  qed
  with n s4 show ?thesis by force
qed

text \<open>The simulated proxy with decoding on, and a child that is drained once.\<close>

definition sim_drain_world :: "u8 list \<Rightarrow> (sim_hw, u64) world" where
  "sim_drain_world data = sim_world\<lparr>w_etr := sim_drain_etr data\<rparr>"

definition sim_drain_attempt :: "sim_hw attempt" where
  "sim_drain_attempt =
     sim_attempt\<lparr>at_sys := sim_sys, at_run := sim_level 0, at_polls := [sim_poll], at_rest := \<lambda>_. sim_hw0\<rparr>"

definition sim_decoding_proxy :: "(sim_hw, u64) proxy" where
  "sim_decoding_proxy = sim_proxy\<lparr>ses := sim_session, runs := [sim_drain_attempt]\<rparr>"

theorem request_to_map_witness:
  "\<exists>p1 p2 passes. afl_next_testcase (sim_drain_world [1, 2, 3, 4, 5, 6, 7, 8]) sim_decoding_proxy = Returns (42, p1) \<and>
     serve_testcase (sim_drain_world [1, 2, 3, 4, 5, 6, 7, 8]) p1 = Returns (0, p2) \<and> afl_out p2 = [42, 0] \<and>
     dec (ses p2) = run_passes Armored counting_lib passes
       (snd (reset_decoder Armored counting_lib [] (clear_bitmap (dec sim_session)))) \<and>
     concat passes = [1, 2, 3, 4, 5, 6, 7, 8, 1, 2, 3, 4, 5, 6, 7, 8]"
proof -
  define data where "data = ([1, 2, 3, 4, 5, 6, 7, 8] :: u8 list)"
  let ?W = "sim_drain_world data" and ?p = sim_decoding_proxy and ?a = sim_drain_attempt and ?D = "\<lambda>_ :: sim_hw. data"
  have w: "w_csal ?W = sim_csal" "w_dec ?W = counting_lib" "w_etr ?W = sim_drain_etr data" "w_ctl_write ?W n" "w_afl_write ?W n"
      "at_sys ?a = sim_sys" "at_run ?a = sim_level 0" "at_rest ?a = (\<lambda>_. sim_hw0)" "at_polls ?a = [sim_poll]" "at_cont ?a"
      "ses ?p = sim_session" "runs ?p = [?a]" "afl_in ?p = [Some 0]" "fsrv_in ?p = [Some 42, Some 0]" "\<not> first_run ?p"
      "afl_out ?p = []" for n
    by (simp_all add: sim_drain_world_def sim_world_def sim_drain_attempt_def sim_attempt_def sim_decoding_proxy_def sim_proxy_def)
  have B: "cfg_backend (conf sim_session) = Armored" "ranges sim_session = []"
    by (simp_all add: sim_session_def sim_cs_cfg_def)
  obtain s1 where s1: "start_trace sim_csal counting_lib sim_sys 42 False sim_session = Returns (0, s1)"
    and e1: "sim_errors (hw (cs s1)) = 0" "\<not> is_first_trace s1" "drain_threshold s1 = 0x100000"
    using sim_start_trace by blast
  have g: "etr_gives (sim_drain_etr data) sim_session ?D" by (rule sim_drain_gives) (simp_all add: data_def sim_session_sel)
  let ?s = "trace_child_exited_callback s1"
  have wc: "wait_child [Some 0] s1 = Returns (Some 0, [], ?s)" by (simp add: WIFSTOPPED_def)
  have "exec_inv counting_lib sim_session (snd (reset_decoder (cfg_backend (conf sim_session)) counting_lib
      (ranges sim_session) (clear_bitmap (dec sim_session)))) 0 [] ?s" "sim_errors (hw (cs ?s)) = 0" "\<not> is_first_trace ?s"
      "drain_threshold ?s = 0x100000"
    using sim_started [OF s1] e1 by (simp_all add: trace_child_exited_callback_def)
  from sim_polled [OF this(1) g this(2-4)] obtain s2 s3 h where
    pol: "trace_sink_polling sim_csal (sim_drain_etr data) counting_lib [sim_poll] ((hw_runs (sim_level 0) ?s)\<lparr>ev_start := False\<rparr>) =
        Returns (Killed, s2)"
      "disable_cs_trace sim_csal False (hw_runs (\<lambda>_. sim_hw0) s2) = (0, s3)"
      "[h] = drained sim_csal (sim_drain_etr data) counting_lib [sim_poll]
        (cs_get_buffer_rwp (sim_drain_etr data) (sim_level 0 (hw (cs ?s))))
        ((hw_runs (sim_level 0) ?s)\<lparr>ev_start := False, ready := False\<rparr>)" by blast
  have v: "sint (42 :: u32) = 42" and ps: "pl_sys sim_poll = sim_sys" by (simp_all add: sim_poll_def)
  have "\<exists>p1 p2 passes.
    afl_next_testcase ?W ?p = Returns (42, p1) \<and> serve_testcase ?W p1 = Returns (0, p2) \<and>
    afl_in p2 = [] \<and> afl_out p2 = afl_out ?p @ [42, 0] \<and>
    dec (ses p2) = run_passes Armored (w_dec ?W) passes
      (snd (reset_decoder Armored (w_dec ?W) (ranges (ses ?p)) (clear_bitmap (dec (ses ?p))))) \<and>
    concat passes = concat (map ?D ([h] @ [hw (cs s3)]))"
    by (rule request_to_map [where k = 0 and statuses = "[Some 0]" and a = ?a and as = "[]" and r = 0 and ?s1.0 = s1
          and s = ?s and rest = "[]" and ?s2.0 = s2 and q = "0x10000"])
      (use s1 g wc pol(1,2) pol(3) [symmetric] B ps sim_session_sel sim_maps_ok in \<open>simp_all add: w v del: drained.simps wait_child.simps\<close>)
  then show ?thesis unfolding w B unfolding data_def by (elim exE, intro exI) (simp, blast)
qed

text \<open>The simulated proxy in the Stalker build, reading the ETR through CSAL.\<close>

definition sim_stalker_session :: "(sim_hw, u64) session" where
  "sim_stalker_session =
     sim_session\<lparr>conf := sim_cs_cfg Stalker [''AFLCS_ETR_DIRECT_READ'' \<mapsto> ''0''], drain_threshold := - 1\<rparr>"

definition sim_stalker_proxy :: "(sim_hw, u64) proxy" where
  "sim_stalker_proxy = sim_proxy\<lparr>ses := sim_stalker_session, runs := [sim_drain_attempt]\<rparr>"

lemma sim_stalker_sel:
  "decoding_on sim_stalker_session" "\<not> direct_read sim_stalker_session" "trace_buf (buf sim_stalker_session) = 0"
  "etr_ram_size (buf sim_stalker_session) = 0x100000" "cfg_backend (conf sim_stalker_session) = Stalker"
  "drain_threshold sim_stalker_session = - 1" "sim_errors (hw (cs sim_stalker_session)) = 0"
  "\<not> is_first_trace sim_stalker_session" "cov_type (dec sim_stalker_session) = edge_cov" "decoder (dec sim_stalker_session)"
  "cs sim_stalker_session = sim_cs_state"
  by (simp_all add: direct_read_def sim_stalker_session_def sim_session_def sim_cs_cfg_def etr_direct_read_enabled_def
      sim_cs_state_def sim_hw0_def dec_state0_def)

lemma sim_start_stalker:
  "\<exists>s1. start_trace sim_csal counting_lib sim_sys 42 False sim_stalker_session = Returns (0, s1) \<and> sim_errors (hw (cs s1)) = 0"
proof -
  let ?c = "conf sim_stalker_session" and ?k = "set_etm_trace_pid 42 sim_cs_state"
  have k: "sim_errors (hw ?k) = 0" by (simp add: set_etm_trace_pid_def sim_cs_state_def sim_hw0_def)
  have f0: "fst (enable_trace_sinks_only sim_csal ?c ?k) = 0"
    by (subst sim_enable_window [OF k]) simp
  have en: "enable_cs_trace sim_csal 0 s = Some (0, s\<lparr>cs := snd (enable_trace_sinks_only sim_csal ?c ?k)\<rparr>)"
    if "\<not> is_first_trace s" "child_pid s = 42" "cs s = sim_cs_state" "conf s = ?c" for s :: "(sim_hw, u64) session"
    using that f0 by (simp add: enable_cs_trace_def case_prod_beta Let_def)
  have a: "set_cpu_affinity (sy_setaffinity sim_sys 42) n t = 0" for n t
    by (simp add: set_cpu_affinity_def sim_sys_def)
  have r: "fst (reset_decoder Stalker counting_lib infos (clear_bitmap (dec sim_stalker_session))) = 0" for infos
    by (simp add: reset_decoder_def clear_bitmap_def stalker_reset_def sim_stalker_sel)
  show ?thesis
    by (simp add: start_trace_def a Let_def case_prod_beta sim_stalker_sel r en or_dies_def set_trace_state_def
        sim_enable_errors [OF k])
qed

lemma counting_lib_stalker_clean:
  "\<not> trace_overflow_occurred d \<Longrightarrow> \<not> trace_did_overflow (run_passes Stalker counting_lib bufs d)"
proof (induction bufs arbitrary: d)
  case (Cons xs bufs)
  have "\<not> trace_overflow_occurred (snd (run_decoder Stalker counting_lib xs d))"
    using Cons.prems by (simp add: run_decoder_def stalker_run_def counting_lib_def Let_def case_prod_beta)
  from Cons.IH [OF this] show ?case by (simp add: run_passes_def)
qed (simp add: run_passes_def trace_did_overflow_def)

theorem stalker_request_to_map_witness:
  "\<exists>p1 p3. afl_next_testcase (sim_drain_world [1, 2, 3, 4, 5, 6, 7, 8]) (sim_stalker_proxy\<lparr>needs_bb_enable := False\<rparr>) = Returns (42, p1) \<and>
     serve_testcase (sim_drain_world [1, 2, 3, 4, 5, 6, 7, 8]) p1 = Returns (0, p3) \<and> afl_out p3 = [42, 0]"
proof -
  define data where "data = ([1, 2, 3, 4, 5, 6, 7, 8] :: u8 list)"
  let ?W = "sim_drain_world data" and ?p = "sim_stalker_proxy\<lparr>needs_bb_enable := False\<rparr>" and ?a = sim_drain_attempt
  let ?D = "\<lambda>_ :: sim_hw. data" and ?ini = sim_stalker_session
  have w: "w_csal ?W = sim_csal" "w_dec ?W = counting_lib" "w_etr ?W = sim_drain_etr data" "w_ctl_write ?W n" "w_afl_write ?W n"
      "at_sys ?a = sim_sys" "at_run ?a = sim_level 0" "at_rest ?a = (\<lambda>_. sim_hw0)" "at_polls ?a = [sim_poll]" "at_cont ?a"
      "ses ?p = ?ini" "runs ?p = [?a]" "afl_in ?p = [Some 0]" "fsrv_in ?p = [Some 42, Some 0]" "\<not> first_run ?p"
      "afl_out ?p = []" "\<not> needs_calibration ?p" for n
    by (simp_all add: sim_drain_world_def sim_world_def sim_drain_attempt_def sim_attempt_def sim_stalker_proxy_def sim_proxy_def)
  obtain s1 where s1: "start_trace sim_csal counting_lib sim_sys 42 False ?ini = Returns (0, s1)" "sim_errors (hw (cs s1)) = 0"
    using sim_start_stalker by blast
  have g: "etr_gives (sim_drain_etr data) ?ini ?D" by (rule sim_drain_gives) (simp_all add: data_def sim_stalker_sel)
  let ?s = "trace_child_exited_callback s1"
  let ?t = "hw_runs (\<lambda>_. sim_hw0) (hw_runs (fold pl_run [sim_poll]) ((hw_runs (sim_level 0) ?s)\<lparr>ev_start := False, ready := False\<rparr>))"
  have wc: "wait_child [Some 0] s1 = Returns (Some 0, [], ?s)" by (simp add: WIFSTOPPED_def)
  obtain s3 where s3: "disable_cs_trace sim_csal False ?t = (0, s3)"
    using sim_disable_cs_trace [of ?t False] by (auto simp: hw_runs_def sim_hw0_def)
  have v: "sint (42 :: u32) = 42" and ps: "pl_sys sim_poll = sim_sys" by (simp_all add: sim_poll_def)
  have "\<exists>p1 p2 passes.
    afl_next_testcase ?W ?p = Returns (42, p1) \<and> wait_for_child_and_stop_trace ?W p1 = Returns (0, 0, p2) \<and>
    dec (ses p2) = run_passes Stalker (w_dec ?W) passes
      (snd (reset_decoder Stalker (w_dec ?W) (ranges (ses ?p)) (clear_bitmap (dec (ses ?p))))) \<and>
    concat passes = ?D (hw (cs s3)) \<and>
    (\<not> trace_did_overflow (dec (ses p2)) \<longrightarrow>
      (\<exists>p3. serve_testcase ?W p1 = Returns (0, p3) \<and> afl_in p3 = [] \<and> afl_out p3 = afl_out ?p @ [42, 0] \<and>
        dec (ses p3) = dec (ses p2)))"
    by (rule stalker_request_to_map [where k = 0 and statuses = "[Some 0]" and a = ?a and as = "[]" and r = 0 and ?s1.0 = s1
          and s = ?s and rest = "[]" and q = "0x10000"])
      (use s1(1) g wc s3 ps sim_stalker_sel sim_session_sel(5,6) sim_maps_ok in \<open>simp_all add: w v del: wait_child.simps fold_simps\<close>)
  then obtain p1 passes and p2 :: "(sim_hw, u64) proxy" where p: "afl_next_testcase ?W ?p = Returns (42, p1)"
    and d: "dec (ses p2) = run_passes Stalker counting_lib passes
        (snd (reset_decoder Stalker counting_lib (ranges ?ini) (clear_bitmap (dec ?ini))))"
    and c: "\<not> trace_did_overflow (dec (ses p2)) \<longrightarrow>
      (\<exists>p3. serve_testcase ?W p1 = Returns (0, p3) \<and> afl_in p3 = [] \<and> afl_out p3 = [] @ [42, 0] \<and> dec (ses p3) = dec (ses p2))"
    unfolding w by blast
  have "\<not> trace_overflow_occurred (snd (reset_decoder Stalker counting_lib (ranges ?ini) (clear_bitmap (dec ?ini))))"
    by (simp add: reset_decoder_def clear_bitmap_def stalker_reset_def sim_stalker_sel)
  then have "\<not> trace_did_overflow (dec (ses p2))" unfolding d by (rule counting_lib_stalker_clean)
  with c p show ?thesis unfolding data_def by auto
qed

end
